(* ===== verification/Prelude.thy ===== *)
theory Prelude
  imports Main "HOL-Library.Word" "HOL-Library.Monad_Syntax"
begin

text \<open>
  Shared vocabulary of the YasouOS development: the C integer types as machine words, the
  simplification collections of the library, bit-level extensionality for the widths the code
  uses, and the few generic facts on lists and options that every component needs.

  An access that the C code would make outside the object a pointer points into is the value
  \<open>None\<close>; everything that reads or writes memory is therefore in the option monad.
\<close>

unbundle bit_operations_syntax

section \<open>Types\<close>

type_synonym u8 = "8 word"
type_synonym u16 = "16 word"
type_synonym u32 = "32 word"
type_synonym u64 = "64 word"

text \<open>The three targets of the Makefile; all of them are little-endian builds.\<close>

datatype arch = RISCV | ARM64 | AMD64

section \<open>Collections\<close>

named_theorems mem_defs \<open>definitions of loads and stores\<close>
named_theorems mem_simps \<open>evaluation of loads after stores\<close>
named_theorems layout \<open>field offsets and sizes of packed structures\<close>
named_theorems print_defs \<open>definitions of console output\<close>

section \<open>Masks and bits\<close>

lemma mask4: "(0xF :: 'a::len word) = mask 4"
  by (simp add: mask_eq_exp_minus_1)

lemma mask8: "(0xFF :: 'a::len word) = mask 8"
  by (simp add: mask_eq_exp_minus_1)

lemma mask16: "(0xFFFF :: 'a::len word) = mask 16"
  by (simp add: mask_eq_exp_minus_1)

lemma mask32: "(0xFFFFFFFF :: 'a::len word) = mask 32"
  by (simp add: mask_eq_exp_minus_1)

lemmas mask_lits = mask4 mask8 mask16 mask32

lemma bit_beyond: "LENGTH('a) \<le> n \<Longrightarrow> \<not> bit (w :: 'a::len word) n"
  by (meson bit_imp_le_length not_le)

text \<open>Two words of a fixed width are equal when their bits agree one by one.\<close>

lemma bits16:
  "list_all (\<lambda>n. bit (x :: u16) n = bit y n) [0,1,2,3,4,5,6,7,8,9,10,11,12,13,14,15] \<Longrightarrow> x = y"
proof -
  have "[0..<16] = [0,1,2,3,4,5,6,7,8,9,10,11,12,13,14,15::nat]"
    by (simp add: upt_rec)
  moreover assume "list_all (\<lambda>n. bit x n = bit y n) [0,1,2,3,4,5,6,7,8,9,10,11,12,13,14,15]"
  ultimately have "list_all (\<lambda>n. bit x n = bit y n) [0..<16]"
    by simp
  then show ?thesis
    by (intro bit_word_eqI) (simp add: list_all_iff)
qed

lemma bits32:
  "list_all (\<lambda>n. bit (x :: u32) n = bit y n)
     [0,1,2,3,4,5,6,7,8,9,10,11,12,13,14,15,16,17,18,19,20,21,22,23,24,25,26,27,28,29,30,31]
   \<Longrightarrow> x = y"
proof -
  have "[0..<32] = [0,1,2,3,4,5,6,7,8,9,10,11,12,13,14,15,
      16,17,18,19,20,21,22,23,24,25,26,27,28,29,30,31::nat]"
    by (simp add: upt_rec)
  moreover assume "list_all (\<lambda>n. bit x n = bit y n)
     [0,1,2,3,4,5,6,7,8,9,10,11,12,13,14,15,16,17,18,19,20,21,22,23,24,25,26,27,28,29,30,31]"
  ultimately have "list_all (\<lambda>n. bit x n = bit y n) [0..<32]"
    by simp
  then show ?thesis
    by (intro bit_word_eqI) (simp add: list_all_iff)
qed

lemma bits8:
  "list_all (\<lambda>n. bit (x :: u8) n = bit y n) [0,1,2,3,4,5,6,7] \<Longrightarrow> x = y"
proof -
  have "[0..<8] = [0,1,2,3,4,5,6,7::nat]"
    by (simp add: upt_rec)
  moreover assume "list_all (\<lambda>n. bit x n = bit y n) [0,1,2,3,4,5,6,7]"
  ultimately have "list_all (\<lambda>n. bit x n = bit y n) [0..<8]"
    by simp
  then show ?thesis
    by (intro bit_word_eqI) (simp add: list_all_iff)
qed

lemma low_byte: "(ucast (v AND 0xFF) :: u8) = ucast (v :: 'a::len word)"
  by (rule bits8) (auto simp: bit_simps dest: bit_imp_le_length)

text \<open>Masks and shifts as arithmetic on the unsigned value.\<close>

lemma unat_and_mask: "unat (v AND mask n) = unat (v :: 'a::len word) mod 2 ^ n"
  by (metis take_bit_eq_mask take_bit_eq_mod unsigned_take_bit_eq)

lemma unat_and_lits [simp]:
  "unat ((v :: 'a::len word) AND 0xF) = unat v mod 16"
  "unat ((v :: 'a::len word) AND 0xFF) = unat v mod 256"
  "unat ((v :: 'a::len word) AND 0xFFFF) = unat v mod 65536"
  by (simp_all add: mask_lits unat_and_mask)

lemma unat_shr: "unat (drop_bit n (v :: 'a::len word)) = unat v div 2 ^ n"
  by (metis unat_drop_bit_eq drop_bit_eq_div)

lemma unat_ucast_mod: "unat (ucast (v :: 'a::len word) :: 'b::len word) = unat v mod 2 ^ LENGTH('b)"
  by (metis unsigned_ucast_eq take_bit_eq_mod)

lemma unat_ucast_up:
  "LENGTH('a) \<le> LENGTH('b) \<Longrightarrow> unat (ucast (v :: 'a::len word) :: 'b::len word) = unat v"
  by (metis unat_ucast_mod mod_less order_less_le_trans power_increasing unsigned_less one_le_numeral)

lemma unat_lt8: "unat (v :: u8) < 256"
  by (rule order_less_le_trans [OF unsigned_less]) simp

lemma unat_lt16: "unat (v :: u16) < 65536"
  by (rule order_less_le_trans [OF unsigned_less]) simp

lemma unat_lt32: "unat (v :: u32) < 4294967296"
  by (rule order_less_le_trans [OF unsigned_less]) simp

lemma unat_lt64: "unat (v :: u64) < 18446744073709551616"
  by (rule order_less_le_trans [OF unsigned_less]) simp

lemmas unat_lts = unat_lt8 unat_lt16 unat_lt32 unat_lt64

lemmas unat_arith_simps = unat_shr unat_ucast_mod unat_and_lits unat_word_ariths

section \<open>Lists and options\<close>

lemma bind_eq_SomeE:
  assumes "Option.bind m f = Some y"
  obtains x where "m = Some x" and "f x = Some y"
  using assms by (cases m) auto

lemma take_drop_nth_eq:
  "i < n \<Longrightarrow> take n xs ! i = xs ! i"
  by simp

lemma list_length_decomp:
  assumes "n \<le> length xs"
  obtains ys zs where "xs = ys @ zs" and "length ys = n"
  using assms by (metis append_take_drop_id length_take min.absorb2)

lemma take_eq_length_le: "take n xs = ys \<Longrightarrow> length ys = n \<Longrightarrow> n \<le> length xs"
  by auto

end
