(* ===== verification/C_String.thy ===== *)
theory C_String
  imports Prelude
begin

text \<open>
  The string and console part of \<^verbatim>\<open>common/common.c\<close>. A \<open>const char *\<close> is the list of characters from
  the pointer on, with the terminating NUL implicit at its end: \<open>*s\<close> is \<open>peek s\<close>, \<open>s + n\<close> is
  \<open>drop n s\<close>. A NUL inside the list ends the C string there, as it does in memory; \<open>cstr s\<close> is the
  string the pointer denotes. Console output is the list of characters sent to \<open>platform_putchar\<close>.
\<close>

abbreviation NUL :: char where
  "NUL \<equiv> CHR 0x00"

abbreviation TAB :: char where
  "TAB \<equiv> CHR 0x09"

definition peek :: "string \<Rightarrow> char" where
  "peek s = (case s of [] \<Rightarrow> NUL | c # _ \<Rightarrow> c)"

definition cstr :: "string \<Rightarrow> string" where
  "cstr s = takeWhile (\<lambda>c. c \<noteq> NUL) s"

lemma peek_simps [simp]: "peek [] = NUL" "peek (c # s) = c"
  by (simp_all add: peek_def)

lemma cstr_simps [simp]: "cstr [] = []" "cstr (c # s) = (if c = NUL then [] else c # cstr s)"
  by (simp_all add: cstr_def)

lemma peek_cstr: "peek (cstr s) = peek s"
  by (cases s) auto

lemma peek_NUL_iff: "peek s = NUL \<longleftrightarrow> cstr s = []"
  by (cases s) auto

lemma NUL_notin_cstr: "NUL \<notin> set (cstr s)"
  by (auto simp: cstr_def dest: set_takeWhileD)

lemma cstr_id: "NUL \<notin> set s \<Longrightarrow> cstr s = s"
  by (induction s) auto

lemma cstr_cstr [simp]: "cstr (cstr s) = cstr s"
  by (simp add: cstr_id NUL_notin_cstr)

section \<open>Strings as bytes\<close>

definition bytes :: "string \<Rightarrow> u8 list" where
  "bytes s = map of_char s"

lemma byte_char: "char_of (unat (of_char c :: u8)) = c"
proof -
  have "unat (of_char c :: u8) = of_char c"
    by (cases c) (simp add: of_char_def)
  then show ?thesis by simp
qed

lemma of_char_inj8: "(of_char c :: u8) = of_char d \<longleftrightarrow> c = d"
  by (metis byte_char)

lemma of_char_0: "(of_char c :: u8) = 0 \<longleftrightarrow> c = NUL"
  using of_char_inj8 [of c NUL] by simp

section \<open>\<^verbatim>\<open>strlen\<close>, \<^verbatim>\<open>strcmp\<close>, \<^verbatim>\<open>strncmp\<close>\<close>

text \<open>\<^verbatim>\<open>while (*s++) len++;\<close>\<close>

fun strlen_loop :: "string \<Rightarrow> nat \<Rightarrow> nat" where
  "strlen_loop [] len = len"
| "strlen_loop (c # s) len = (if c = NUL then len else strlen_loop s (len + 1))"

definition strlen :: "string \<Rightarrow> nat" where
  "strlen s = strlen_loop s 0"

definition uchar :: "char \<Rightarrow> int" where
  "uchar c = int (of_char c)"

function strcmp :: "string \<Rightarrow> string \<Rightarrow> int" where
  "strcmp s1 s2 =
     (if peek s1 \<noteq> NUL \<and> peek s1 = peek s2 then strcmp (tl s1) (tl s2)
      else uchar (peek s1) - uchar (peek s2))"
  by pat_completeness auto
termination
proof (relation "measure (\<lambda>(s1, s2). length s1)")
  fix s1 s2 :: string
  assume "peek s1 \<noteq> NUL \<and> peek s1 = peek s2"
  then show "((tl s1, tl s2), s1, s2) \<in> measure (\<lambda>(s1, s2). length s1)"
    by (cases s1) auto
qed simp

fun strncmp :: "string \<Rightarrow> string \<Rightarrow> nat \<Rightarrow> int" where
  "strncmp s1 s2 0 = 0"
| "strncmp s1 s2 (Suc n) =
     (if peek s1 \<noteq> NUL \<and> peek s1 = peek s2 then strncmp (tl s1) (tl s2) n
      else uchar (peek s1) - uchar (peek s2))"

declare strcmp.simps [simp del]

lemma uchar_inj [simp]: "uchar c = uchar d \<longleftrightarrow> c = d"
  by (simp add: uchar_def)

lemma strlen_loop_eq: "strlen_loop s len = len + length (cstr s)"
  by (induction s len rule: strlen_loop.induct) auto

lemma strlen_cstr: "strlen s = length (cstr s)"
  by (simp add: strlen_def strlen_loop_eq)

lemma cstr_tl: "peek s \<noteq> NUL \<Longrightarrow> cstr s = peek s # cstr (tl s)"
  by (cases s) auto

lemma cstr_tl2:
  "peek s1 \<noteq> NUL \<and> peek s1 = peek s2 \<Longrightarrow>
   cstr s1 = peek s1 # cstr (tl s1) \<and> cstr s2 = peek s1 # cstr (tl s2)"
  by (metis cstr_tl)

lemma strcmp_eq_0: "strcmp s1 s2 = 0 \<longleftrightarrow> cstr s1 = cstr s2"
proof (induction s1 s2 rule: strcmp.induct)
  case (1 s1 s2)
  show ?case
  proof (cases "peek s1 \<noteq> NUL \<and> peek s1 = peek s2")
    case True
    then show ?thesis
      using cstr_tl2 [OF True] 1 True by (simp add: strcmp.simps [of s1 s2])
  next
    case False
    have "peek s1 = peek s2 \<longleftrightarrow> cstr s1 = cstr s2"
    proof
      assume "peek s1 = peek s2"
      with False show "cstr s1 = cstr s2"
        by (metis peek_NUL_iff)
    qed (metis peek_cstr)
    then show ?thesis
      using False by (auto simp: strcmp.simps [of s1 s2])
  qed
qed

lemma strncmp_eq_0: "strncmp s1 s2 n = 0 \<longleftrightarrow> take n (cstr s1) = take n (cstr s2)"
proof (induction s1 s2 n rule: strncmp.induct)
  case (2 s1 s2 n)
  show ?case
  proof (cases "peek s1 \<noteq> NUL \<and> peek s1 = peek s2")
    case True
    then show ?thesis
      using cstr_tl2 [OF True] 2 True by simp
  next
    case False
    have "peek s1 = peek s2 \<longleftrightarrow> take (Suc n) (cstr s1) = take (Suc n) (cstr s2)"
    proof
      assume "peek s1 = peek s2"
      with False show "take (Suc n) (cstr s1) = take (Suc n) (cstr s2)"
        by (metis peek_NUL_iff)
    next
      assume "take (Suc n) (cstr s1) = take (Suc n) (cstr s2)"
      then show "peek s1 = peek s2"
        by (cases s1; cases s2) (auto split: if_splits)
    qed
    then show ?thesis
      using False by auto
  qed
qed simp

text \<open>A string literal of the source is a prefix test at its own length.\<close>

lemma strncmp_prefix:
  assumes "NUL \<notin> set t" and "n = length t"
  shows "strncmp s t n = 0 \<longleftrightarrow> take n (cstr s) = t"
  using assms by (simp add: strncmp_eq_0 cstr_id)

section \<open>Console output\<close>

text \<open>
  \<^verbatim>\<open>platform_putchar\<close> sends one character; \<^verbatim>\<open>puts\<close> is the loop of \<^verbatim>\<open>platform_puts\<close>, the same on the three
  targets.
\<close>

definition putchar :: "char \<Rightarrow> string" where
  "putchar ch = [ch]"

fun platform_puts :: "string \<Rightarrow> string" where
  "platform_puts [] = []"
| "platform_puts (c # s) = (if c = NUL then [] else putchar c @ platform_puts s)"

definition puts :: "string \<Rightarrow> string" where
  "puts s = platform_puts s"

lemma puts_cstr: "puts s = cstr s"
proof -
  have "platform_puts s = cstr s"
    by (induction s rule: platform_puts.induct) (auto simp: putchar_def)
  then show ?thesis
    by (simp add: puts_def)
qed

section \<open>Hexadecimal output\<close>

definition hex_chars :: string where
  "hex_chars = ''0123456789abcdef''"

definition hex_digit :: "'a::len word \<Rightarrow> char" where
  "hex_digit v = hex_chars ! unat (v AND 0xF)"

definition put_hex8 :: "u8 \<Rightarrow> string" where
  "put_hex8 v = [hex_digit (drop_bit 4 v), hex_digit v]"

definition put_hex16 :: "u16 \<Rightarrow> string" where
  "put_hex16 v = [hex_digit (drop_bit 12 v), hex_digit (drop_bit 8 v), hex_digit (drop_bit 4 v), hex_digit v]"

definition put_hex32 :: "u32 \<Rightarrow> string" where
  "put_hex32 v = [hex_digit (drop_bit 28 v), hex_digit (drop_bit 24 v), hex_digit (drop_bit 20 v),
     hex_digit (drop_bit 16 v), hex_digit (drop_bit 12 v), hex_digit (drop_bit 8 v),
     hex_digit (drop_bit 4 v), hex_digit v]"

definition put_hex64 :: "u64 \<Rightarrow> string" where
  "put_hex64 v = put_hex32 (ucast (drop_bit 32 v)) @ put_hex32 (ucast (v AND 0xFFFFFFFF))"

lemmas [print_defs] = put_hex8_def put_hex16_def put_hex32_def put_hex64_def

text \<open>The value of a string of lower-case hexadecimal digits.\<close>

fun index_of :: "char \<Rightarrow> string \<Rightarrow> nat" where
  "index_of c [] = 0"
| "index_of c (d # ds) = (if c = d then 0 else Suc (index_of c ds))"

definition hex_value :: "string \<Rightarrow> nat" where
  "hex_value s = foldl (\<lambda>n c. 16 * n + index_of c hex_chars) 0 s"

lemma index_of_hex_chars: "n < 16 \<Longrightarrow> index_of (hex_chars ! n) hex_chars = n"
  unfolding hex_chars_def
  by (simp add: numeral_eq_Suc less_Suc_eq) (elim disjE; simp add: numeral_eq_Suc)

lemma hex_digit_value [simp]: "index_of (hex_digit v) hex_chars = unat v mod 16"
  by (simp add: hex_digit_def index_of_hex_chars)

text \<open>Printing one more digit to the left adds the next group of four bits.\<close>

lemma hex_value_Cons: "hex_value (c # s) = index_of c hex_chars * 16 ^ length s + hex_value s"
proof -
  let ?f = "\<lambda>n c. 16 * n + index_of c hex_chars"
  have fold: "foldl ?f k s = k * 16 ^ length s + foldl ?f 0 s" for k
  proof (induction s arbitrary: k)
    case (Cons c s)
    show ?case
      using Cons.IH [of "16 * k + index_of c hex_chars"] Cons.IH [of "index_of c hex_chars"]
      by (simp add: distrib_right)
  qed simp
  show ?thesis
    using fold [of "index_of c hex_chars"] by (simp add: hex_value_def)
qed

lemma hex_value_Nil: "hex_value [] = 0"
  by (simp add: hex_value_def)

lemma hex_value_append: "hex_value (s @ t) = hex_value s * 16 ^ length t + hex_value t"
  by (induction s) (simp_all add: hex_value_Nil hex_value_Cons algebra_simps power_add)

lemma hex_value_digits:
  "hex_value (map (\<lambda>k. hex_digit (drop_bit (4 * k) v)) (rev [0..<m])) = unat v mod 16 ^ m"
proof (induction m)
  case (Suc m)
  have "(2 :: nat) ^ (4 * m) = 16 ^ m"
    by (simp add: power_mult)
  then have "hex_value (map (\<lambda>k. hex_digit (drop_bit (4 * k) v)) (rev [0..<Suc m]))
      = unat v div 16 ^ m mod 16 * 16 ^ m + unat v mod 16 ^ m"
    using Suc by (simp add: hex_value_Cons unat_shr)
  also have "\<dots> = unat v mod (16 ^ m * 16)"
    using mod_mult2_eq [of "unat v" "16 ^ m" 16] by (simp add: mult.commute)
  finally show ?case
    by (simp add: mult.commute)
qed (simp add: hex_value_Nil)

lemma put_hex8_value: "hex_value (put_hex8 v) = unat v"
  using hex_value_digits [of v 2] unat_lt8 [of v]
  by (simp add: put_hex8_def upt_rec)

lemma put_hex16_value: "hex_value (put_hex16 v) = unat v"
  using hex_value_digits [of v 4] unat_lt16 [of v]
  by (simp add: put_hex16_def upt_rec)

lemma put_hex32_value: "hex_value (put_hex32 v) = unat v"
  using hex_value_digits [of v 8] unat_lt32 [of v]
  by (simp add: put_hex32_def upt_rec)

lemma put_hex64_value: "hex_value (put_hex64 v) = unat v"
proof -
  show ?thesis
    using unat_lt64 [of v]
    by (simp add: put_hex64_def hex_value_append put_hex32_value unat_shr unat_ucast_mod mask32 unat_and_mask)
       (simp add: put_hex32_def)
qed

section \<open>Properties\<close>

text \<open>
  the string routines decide what their names say on the strings the pointers denote: \<open>strlen\<close> is
  the number of characters before the first NUL, \<open>strcmp\<close> returns 0 exactly on equal strings, and
  \<open>strncmp\<close> returns 0 exactly when the first \<open>n\<close> characters agree.
\<close>

theorem string_routines_decide:
  "strlen s = length (cstr s) \<and> (strcmp s t = 0 \<longleftrightarrow> cstr s = cstr t) \<and>
   (strncmp s t n = 0 \<longleftrightarrow> take n (cstr s) = take n (cstr t))"
  by (simp add: strlen_cstr strcmp_eq_0 strncmp_eq_0)

text \<open>
  the hexadecimal printers write a fixed number of digits (2, 4, 8, 16) whose value is the
  number printed, so no two numbers of a width print alike.
\<close>

theorem put_hex_round_trip:
  "length (put_hex8 a) = 2 \<and> hex_value (put_hex8 a) = unat a \<and>
   length (put_hex16 b) = 4 \<and> hex_value (put_hex16 b) = unat b \<and>
   length (put_hex32 c) = 8 \<and> hex_value (put_hex32 c) = unat c \<and>
   length (put_hex64 d) = 16 \<and> hex_value (put_hex64 d) = unat d"
  by (simp add: put_hex8_value put_hex16_value put_hex32_value put_hex64_value)
     (simp add: print_defs)

end
