(* ===== verification/Cmdline_Words.thy ===== *)
theory Cmdline_Words
  imports C_String
begin

text \<open>
  The kernel command line is scanned word by word by \<^verbatim>\<open>log_init\<close> (\<^verbatim>\<open>common/log.c\<close>) and by
  \<^verbatim>\<open>find_param\<close> (\<^verbatim>\<open>kernel/init_apps.c\<close>) with the same pointer loops. This theory holds those loops,
  the list of words they visit, and the locale of a scanner: a loop that looks at one word at a time
  is a fold over the words of the line.
\<close>

definition is_sep :: "char \<Rightarrow> bool" where
  "is_sep c \<longleftrightarrow> c = CHR '' '' \<or> c = TAB"

text \<open>\<^verbatim>\<open>while (*pos == ' ' || *pos == '\t') pos++;\<close>\<close>

fun skip_sep :: "string \<Rightarrow> string" where
  "skip_sep [] = []"
| "skip_sep (c # s) = (if is_sep c then skip_sep s else c # s)"

text \<open>\<^verbatim>\<open>while (*pos && *pos != ' ' && *pos != '\t') pos++;\<close>\<close>

fun skip_word :: "string \<Rightarrow> string" where
  "skip_word [] = []"
| "skip_word (c # s) = (if c \<noteq> NUL \<and> \<not> is_sep c then skip_word s else c # s)"

text \<open>The word at a pointer.\<close>

definition word_at :: "string \<Rightarrow> string" where
  "word_at s = takeWhile (\<lambda>c. c \<noteq> NUL \<and> \<not> is_sep c) s"

lemma is_sep_NUL [simp]: "\<not> is_sep NUL"
  by (simp add: is_sep_def)

lemma length_skip_sep: "length (skip_sep s) \<le> length s"
  by (induction s rule: skip_sep.induct) auto

lemma length_skip_word: "length (skip_word s) \<le> length s"
  by (induction s rule: skip_word.induct) auto

lemma skip_word_less: "peek s \<noteq> NUL \<Longrightarrow> \<not> is_sep (peek s) \<Longrightarrow> length (skip_word s) < length s"
  using length_skip_word [of "tl s"] by (cases s) (auto simp: le_imp_less_Suc)

lemma skip_sep_head: "\<not> is_sep (peek (skip_sep s))"
  by (induction s rule: skip_sep.induct) auto

lemma skip_word_eq: "skip_word s = drop (length (word_at s)) s"
  by (induction s rule: skip_word.induct) (auto simp: word_at_def)

lemma word_at_chars: "c \<in> set (word_at s) \<Longrightarrow> c \<noteq> NUL \<and> \<not> is_sep c"
  by (auto simp: word_at_def dest: set_takeWhileD)

lemma word_at_Nil_iff: "word_at s = [] \<longleftrightarrow> peek s = NUL \<or> is_sep (peek s)"
  by (cases s) (auto simp: word_at_def)

lemma word_at_prefix: "\<exists>r. s = word_at s @ r \<and> (peek r = NUL \<or> is_sep (peek r))"
proof (induction s)
  case (Cons c s)
  then obtain r where r: "s = word_at s @ r" "peek r = NUL \<or> is_sep (peek r)"
    by auto
  show ?case
  proof (cases "c \<noteq> NUL \<and> \<not> is_sep c")
    case True
    then have "word_at (c # s) = c # word_at s"
      by (simp add: word_at_def)
    then show ?thesis
      using r by (intro exI [of _ r]) (metis append_Cons)
  next
    case False
    then show ?thesis
      by (intro exI [of _ "c # s"]) (auto simp: word_at_def)
  qed
qed (simp add: word_at_def)

text \<open>A pointer into a word sees the rest of that word.\<close>

lemma word_at_drop: "n \<le> length (word_at s) \<Longrightarrow> word_at (drop n s) = drop n (word_at s)"
proof (induction s arbitrary: n)
  case (Cons c s)
  then show ?case
    by (cases n) (auto simp: word_at_def split: if_splits)
qed (simp add: word_at_def)

lemma word_at_append:
  assumes "\<And>c. c \<in> set w \<Longrightarrow> c \<noteq> NUL \<and> \<not> is_sep c" and "peek r = NUL \<or> is_sep (peek r)"
  shows "word_at (w @ r) = w"
proof -
  have "word_at r = []"
    using assms(2) by (simp add: word_at_Nil_iff)
  with assms(1) show ?thesis
    by (induction w) (auto simp: word_at_def)
qed

lemma length_word_at: "length (word_at s) \<le> length s"
  by (simp add: word_at_def length_takeWhile_le)

lemma peek_nth: "n < length s \<Longrightarrow> peek (drop n s) = s ! n"
  by (simp add: Cons_nth_drop_Suc [symmetric])

lemma nth_word_at: "n < length (word_at s) \<Longrightarrow> s ! n = word_at s ! n"
  by (simp add: word_at_def takeWhile_nth)

lemma peek_drop_word:
  "n \<le> length (word_at s) \<Longrightarrow>
   (peek (drop n s) = NUL \<or> is_sep (peek (drop n s))) \<longleftrightarrow> n = length (word_at s)"
  using word_at_drop [of n s] word_at_Nil_iff [of "drop n s"] by auto

lemma take_cstr_word:
  assumes "n \<le> length (word_at s)"
  shows "take n (cstr s) = take n (word_at s)"
  using assms
proof (induction s arbitrary: n)
  case (Cons c s)
  then show ?case
    by (cases n) (auto simp: word_at_def split: if_splits)
qed (simp add: word_at_def)

text \<open>A comparison with a literal that has no separator looks at the word only.\<close>

lemma strncmp_word:
  assumes "\<And>c. c \<in> set t \<Longrightarrow> c \<noteq> NUL \<and> \<not> is_sep c"
  shows "strncmp s t (length t) = 0 \<longleftrightarrow> take (length t) (word_at s) = t"
proof -
  have "NUL \<notin> set t"
    using assms by blast
  then have "strncmp s t (length t) = 0 \<longleftrightarrow> take (length t) (cstr s) = t"
    by (rule strncmp_prefix) simp
  also have "\<dots> \<longleftrightarrow> take (length t) (word_at s) = t"
    using assms
  proof (induction t arbitrary: s)
    case (Cons c t)
    then show ?case
      by (cases s) (auto simp: word_at_def)
  qed simp
  finally show ?thesis .
qed

section \<open>The words of a line\<close>

function words :: "string \<Rightarrow> string list" where
  "words s = (let pos = skip_sep s in
     if peek pos = NUL then [] else word_at pos # words (skip_word pos))"
  by pat_completeness auto
termination
proof (relation "measure length")
  fix s pos :: string
  assume "pos = skip_sep s" and "peek pos \<noteq> NUL"
  then show "(skip_word pos, s) \<in> measure length"
    using skip_word_less [of pos] skip_sep_head [of s] length_skip_sep [of s] by simp
qed simp

declare words.simps [simp del]

lemma words_nonempty: "w \<in> set (words s) \<Longrightarrow> w \<noteq> []"
proof (induction s rule: words.induct)
  case (1 s)
  then show ?case
    using skip_sep_head [of s] word_at_Nil_iff [of "skip_sep s"]
    by (subst (asm) words.simps) (auto simp: Let_def split: if_splits)
qed

lemma words_no_sep: "w \<in> set (words s) \<Longrightarrow> c \<in> set w \<Longrightarrow> c \<noteq> NUL \<and> \<not> is_sep c"
proof (induction s rule: words.induct)
  case (1 s)
  then show ?case
    using word_at_chars [of c "skip_sep s"]
    by (subst (asm) words.simps) (auto simp: Let_def split: if_splits)
qed

text \<open>
  A scanner's loop: test for the end, skip separators, test again, treat the word, skip the word.
\<close>

function scan :: "('s \<Rightarrow> string \<Rightarrow> 's) \<Rightarrow> 's \<Rightarrow> string \<Rightarrow> 's" where
  "scan step st pos =
     (if peek pos = NUL then st
      else let pos = skip_sep pos in
        if peek pos = NUL then st else scan step (step st pos) (skip_word pos))"
  by pat_completeness auto
termination
proof (relation "measure (\<lambda>(step, st, pos). length pos)")
  fix step :: "'s \<Rightarrow> string \<Rightarrow> 's" and st :: 's and pos p :: string
  assume "p = skip_sep pos" and "peek p \<noteq> NUL"
  then show "((step, step st p, skip_word p), step, st, pos) \<in> measure (\<lambda>(step, st, pos). length pos)"
    using skip_word_less [of p] skip_sep_head [of pos] length_skip_sep [of pos] by simp
qed simp

declare scan.simps [simp del]

text \<open>
  The contract of one scanner: what a step does, seen through the abstraction \<open>abs\<close>, depends on the
  word at the pointer only. Then the whole loop is a fold over the words.
\<close>

locale word_scanner =
  fixes step :: "'s \<Rightarrow> string \<Rightarrow> 's"
    and abs :: "'s \<Rightarrow> 'a"
    and word_step :: "'a \<Rightarrow> string \<Rightarrow> 'a"
  assumes step_word: "abs (step st pos) = word_step (abs st) (word_at pos)"
begin

lemma scan_words: "abs (scan step st s) = foldl word_step (abs st) (words s)"
proof (induction s arbitrary: st rule: words.induct)
  case (1 s)
  have end_case: "peek (skip_sep s) = NUL" if "peek s = NUL"
    using that by (cases s) auto
  show ?case
  proof (cases "peek (skip_sep s) = NUL")
    case True
    then show ?thesis
      by (simp add: scan.simps [of step st s] words.simps [of s] Let_def)
  next
    case False
    then have "scan step st s = scan step (step st (skip_sep s)) (skip_word (skip_sep s))"
      using end_case by (auto simp: scan.simps [of step st s] Let_def)
    moreover have "words s = word_at (skip_sep s) # words (skip_word (skip_sep s))"
      using False by (simp add: words.simps [of s] Let_def)
    ultimately show ?thesis
      using 1 [OF refl False] step_word by simp
  qed
qed

end

end
