(* ===== verification/Logging.thy ===== *)
theory Logging
  imports Cmdline_Words
begin

text \<open>
  The logger of \<^verbatim>\<open>common/log.c\<close> and \<^verbatim>\<open>common/log.h\<close>. The static tables \<^verbatim>\<open>tag_registry\<close> and
  \<^verbatim>\<open>pending_overrides\<close> with their counters are lists of the entries in use; a \<^verbatim>\<open>log_tag_t *\<close> returned by
  \<^verbatim>\<open>log_register\<close> is the index of the entry, \<open>None\<close> is NULL. The name of an override is a pointer into
  the command line with its length, as in the source.
\<close>

datatype log_level = LOG_ERROR | LOG_WARN | LOG_INFO | LOG_DEBUG

fun level_num :: "log_level \<Rightarrow> nat" where
  "level_num LOG_ERROR = 0"
| "level_num LOG_WARN = 1"
| "level_num LOG_INFO = 2"
| "level_num LOG_DEBUG = 3"

lemma level_num_inj [simp]: "level_num a = level_num b \<longleftrightarrow> a = b"
  by (cases a; cases b) auto

instantiation log_level :: linorder
begin

definition less_eq_log_level :: "log_level \<Rightarrow> log_level \<Rightarrow> bool" where
  "less_eq_log_level a b \<longleftrightarrow> level_num a \<le> level_num b"

definition less_log_level :: "log_level \<Rightarrow> log_level \<Rightarrow> bool" where
  "less_log_level a b \<longleftrightarrow> level_num a < level_num b"

instance
  by standard (auto simp: less_eq_log_level_def less_log_level_def)

end

lemma level_le_debug [simp]: "\<not> LOG_DEBUG < (l :: log_level)"
  by (cases l) (auto simp: less_log_level_def)

record log_tag =
  tag_name :: string
  tag_level :: log_level

record log_override =
  ov_name :: string
  ov_len :: nat
  ov_level :: log_level

record log_state =
  tag_registry :: "log_tag list"
  global_level :: log_level
  global_level_set :: bool
  pending_overrides :: "log_override list"

definition MAX_LOG_TAGS :: nat where
  "MAX_LOG_TAGS = 32"

definition MAX_OVERRIDES :: nat where
  "MAX_OVERRIDES = 16"

definition log_boot :: log_state where
  "log_boot = \<lparr>tag_registry = [], global_level = LOG_INFO, global_level_set = False,
     pending_overrides = []\<rparr>"

fun level_names :: "log_level \<Rightarrow> string" where
  "level_names LOG_ERROR = ''ERROR''"
| "level_names LOG_WARN = ''WARN''"
| "level_names LOG_INFO = ''INFO''"
| "level_names LOG_DEBUG = ''DEBUG''"

section \<open>Operations\<close>

definition parse_level :: "string \<Rightarrow> nat \<Rightarrow> log_level option" where
  "parse_level s len =
     (if len = 5 \<and> strncmp s ''error'' 5 = 0 then Some LOG_ERROR
      else if len = 4 \<and> strncmp s ''warn'' 4 = 0 then Some LOG_WARN
      else if len = 4 \<and> strncmp s ''info'' 4 = 0 then Some LOG_INFO
      else if len = 5 \<and> strncmp s ''debug'' 5 = 0 then Some LOG_DEBUG
      else None)"

fun token_len :: "string \<Rightarrow> nat" where
  "token_len [] = 0"
| "token_len (c # s) = (if c \<noteq> NUL \<and> c \<noteq> CHR '' '' \<and> c \<noteq> TAB then Suc (token_len s) else 0)"

definition override_matches :: "string \<Rightarrow> string \<Rightarrow> nat \<Rightarrow> bool" where
  "override_matches tag name name_len \<longleftrightarrow> strlen tag = name_len \<and> strncmp tag name name_len = 0"

fun apply_overrides :: "log_override list \<Rightarrow> log_tag \<Rightarrow> log_tag" where
  "apply_overrides [] tag = tag"
| "apply_overrides (ov # ovs) tag =
     (if override_matches (tag_name tag) (ov_name ov) (ov_len ov)
      then tag\<lparr>tag_level := ov_level ov\<rparr> else apply_overrides ovs tag)"

text \<open>The two tests of the body of the loop of \<^verbatim>\<open>log_init\<close>, at the pointer \<open>pos\<close> to a word.\<close>

definition log_init_global :: "log_state \<Rightarrow> string \<Rightarrow> log_state" where
  "log_init_global st pos =
     (if strncmp pos ''log='' 4 = 0 \<and> peek (drop 4 pos) \<noteq> NUL \<and>
         peek (drop 4 pos) \<noteq> CHR '' '' \<and> peek (drop 4 pos) \<noteq> TAB
      then (let val = drop 4 pos; vlen = token_len val in
        case parse_level val vlen of
          None \<Rightarrow> st
        | Some lvl \<Rightarrow> st\<lparr>global_level := lvl, global_level_set := True,
            tag_registry := map (\<lambda>t. apply_overrides (pending_overrides st) (t\<lparr>tag_level := lvl\<rparr>))
              (tag_registry st)\<rparr>)
      else st)"

text \<open>The offset of \<^verbatim>\<open>eq\<close> from \<^verbatim>\<open>tag_start\<close>: \<^verbatim>\<open>while (*eq && *eq != '=' && *eq != ' ' && *eq != '\t') eq++;\<close>\<close>

fun eq_scan :: "string \<Rightarrow> nat" where
  "eq_scan [] = 0"
| "eq_scan (c # s) =
     (if c \<noteq> NUL \<and> c \<noteq> CHR ''='' \<and> c \<noteq> CHR '' '' \<and> c \<noteq> TAB then Suc (eq_scan s) else 0)"

definition log_init_tag :: "log_state \<Rightarrow> string \<Rightarrow> log_state" where
  "log_init_tag st pos =
     (if strncmp pos ''log.'' 4 = 0
      then (let tag_start = drop 4 pos; name_len = eq_scan tag_start in
        if peek (drop name_len tag_start) = CHR ''='' \<and> 0 < name_len
        then (let val = drop (name_len + 1) tag_start; vlen = token_len val in
          case parse_level val vlen of
            None \<Rightarrow> st
          | Some lvl \<Rightarrow>
              if length (pending_overrides st) < MAX_OVERRIDES
              then st\<lparr>pending_overrides := pending_overrides st @
                        [\<lparr>ov_name = tag_start, ov_len = name_len, ov_level = lvl\<rparr>],
                      tag_registry := map (\<lambda>t.
                        if override_matches (tag_name t) tag_start name_len
                        then t\<lparr>tag_level := lvl\<rparr> else t) (tag_registry st)\<rparr>
              else st)
        else st)
      else st)"

definition log_init_word :: "log_state \<Rightarrow> string \<Rightarrow> log_state" where
  "log_init_word st pos = log_init_tag (log_init_global st pos) pos"

definition log_init :: "log_state \<Rightarrow> string option \<Rightarrow> log_state" where
  "log_init st cmdline = (case cmdline of None \<Rightarrow> st | Some pos \<Rightarrow> scan log_init_word st pos)"

definition log_register :: "log_state \<Rightarrow> string \<Rightarrow> log_level \<Rightarrow> nat option \<times> log_state" where
  "log_register st name default_level =
     (if length (tag_registry st) \<ge> MAX_LOG_TAGS then (None, st)
      else let tag = \<lparr>tag_name = name,
                 tag_level = (if global_level_set st then global_level st else default_level)\<rparr>
        in (Some (length (tag_registry st)),
            st\<lparr>tag_registry := tag_registry st @ [apply_overrides (pending_overrides st) tag]\<rparr>))"

text \<open>The entry a \<^verbatim>\<open>log_tag_t *\<close> points to.\<close>

definition log_deref :: "log_state \<Rightarrow> nat option \<Rightarrow> log_tag option" where
  "log_deref st p = (case p of None \<Rightarrow> None
     | Some i \<Rightarrow> if i < length (tag_registry st) then Some (tag_registry st ! i) else None)"

definition log_enabled :: "log_tag option \<Rightarrow> log_level \<Rightarrow> bool" where
  "log_enabled tag level = (case tag of None \<Rightarrow> False | Some t \<Rightarrow> level \<le> tag_level t)"

definition log_prefix :: "log_tag option \<Rightarrow> log_level \<Rightarrow> string" where
  "log_prefix tag level = (case tag of
     None \<Rightarrow> []
   | Some t \<Rightarrow> if level > LOG_DEBUG then []
       else puts ''['' @ puts (level_names level) @ puts ''][''  @ puts (tag_name t) @ puts ''] '')"

definition log_msg :: "log_tag option \<Rightarrow> log_level \<Rightarrow> string \<Rightarrow> string" where
  "log_msg tag level msg =
     (if \<not> log_enabled tag level then [] else log_prefix tag level @ puts msg)"

definition log_error :: "log_tag option \<Rightarrow> string \<Rightarrow> string" where
  "log_error tag msg = log_msg tag LOG_ERROR msg"

definition log_warn :: "log_tag option \<Rightarrow> string \<Rightarrow> string" where
  "log_warn tag msg = log_msg tag LOG_WARN msg"

definition log_info :: "log_tag option \<Rightarrow> string \<Rightarrow> string" where
  "log_info tag msg = log_msg tag LOG_INFO msg"

definition log_debug :: "log_tag option \<Rightarrow> string \<Rightarrow> string" where
  "log_debug tag msg = log_msg tag LOG_DEBUG msg"

section \<open>What the words of the command line ask for\<close>

text \<open>
  The specification: a word is a directive or is ignored, and a tag gets the level of the first of
  the at most sixteen per-tag directives that names it, else the last global level, else its default.
\<close>

datatype log_directive = Global_Level log_level | Tag_Level string log_level

fun level_text :: "log_level \<Rightarrow> string" where
  "level_text LOG_ERROR = ''error''"
| "level_text LOG_WARN = ''warn''"
| "level_text LOG_INFO = ''info''"
| "level_text LOG_DEBUG = ''debug''"

definition level_of :: "string \<Rightarrow> log_level option" where
  "level_of v = find (\<lambda>l. level_text l = v) [LOG_ERROR, LOG_WARN, LOG_INFO, LOG_DEBUG]"

definition directive :: "string \<Rightarrow> log_directive option" where
  "directive w =
     (if take 4 w = ''log='' then map_option Global_Level (level_of (drop 4 w))
      else if take 4 w = ''log.'' then
        (let r = drop 4 w; n = takeWhile (\<lambda>c. c \<noteq> CHR ''='') r in
         if n \<noteq> [] \<and> n \<noteq> r then map_option (Tag_Level n) (level_of (drop (length n + 1) r)) else None)
      else None)"

definition global_levels :: "string list \<Rightarrow> log_level list" where
  "global_levels ws = concat (map (\<lambda>w. case directive w of Some (Global_Level l) \<Rightarrow> [l] | _ \<Rightarrow> []) ws)"

definition tag_levels :: "string list \<Rightarrow> (string \<times> log_level) list" where
  "tag_levels ws = concat (map (\<lambda>w. case directive w of Some (Tag_Level n l) \<Rightarrow> [(n, l)] | _ \<Rightarrow> []) ws)"

definition requested_level :: "string list \<Rightarrow> string \<Rightarrow> log_level \<Rightarrow> log_level" where
  "requested_level ws n d = (case find (\<lambda>(m, l). m = n) (take MAX_OVERRIDES (tag_levels ws)) of
     Some (m, l) \<Rightarrow> l
   | None \<Rightarrow> if global_levels ws = [] then d else last (global_levels ws))"

lemma level_of_Some_iff: "level_of v = Some l \<longleftrightarrow> v = level_text l"
  by (cases l) (auto simp: level_of_def split: if_splits)

lemma directive_Global_iff: "directive w = Some (Global_Level l) \<longleftrightarrow> w = ''log='' @ level_text l"
proof
  assume "directive w = Some (Global_Level l)"
  then have "take 4 w = ''log=''" and "drop 4 w = level_text l"
    by (auto simp: directive_def Let_def level_of_Some_iff split: if_splits)
  then show "w = ''log='' @ level_text l"
    using append_take_drop_id [of 4 w] by simp
qed (simp add: directive_def level_of_Some_iff)

lemma directive_Tag_iff:
  "directive w = Some (Tag_Level n l) \<longleftrightarrow>
   n \<noteq> [] \<and> CHR ''='' \<notin> set n \<and> w = ''log.'' @ n @ ''='' @ level_text l"
proof
  assume d: "directive w = Some (Tag_Level n l)"
  define r where "r = drop 4 w"
  have "take 4 w = ''log.''"
    using d by (auto simp: directive_def split: if_splits)
  then have w: "w = ''log.'' @ r"
    using append_take_drop_id [of 4 w] by (simp add: r_def)
  have n: "n = takeWhile (\<lambda>c. c \<noteq> CHR ''='') r" "n \<noteq> []" "n \<noteq> r"
    and l: "drop (length n + 1) r = level_text l"
    using d by (auto simp: directive_def Let_def level_of_Some_iff r_def split: if_splits)
  have "dropWhile (\<lambda>c. c \<noteq> CHR ''='') r \<noteq> []"
    using n(1,3) takeWhile_dropWhile_id [of "\<lambda>c. c \<noteq> CHR ''=''" r] by force
  then obtain t where t: "dropWhile (\<lambda>c. c \<noteq> CHR ''='') r = CHR ''='' # t"
    using hd_dropWhile [of "\<lambda>c. c \<noteq> CHR ''=''" r] by (cases "dropWhile (\<lambda>c. c \<noteq> CHR ''='') r") auto
  then have r: "r = n @ CHR ''='' # t"
    using n(1) takeWhile_dropWhile_id [of "\<lambda>c. c \<noteq> CHR ''=''" r] by simp
  with l have "t = level_text l"
    by simp
  moreover have "CHR ''='' \<notin> set n"
    using n(1) by (auto dest: set_takeWhileD)
  ultimately show "n \<noteq> [] \<and> CHR ''='' \<notin> set n \<and> w = ''log.'' @ n @ ''='' @ level_text l"
    using w n(2) r by simp
next
  assume "n \<noteq> [] \<and> CHR ''='' \<notin> set n \<and> w = ''log.'' @ n @ ''='' @ level_text l"
  moreover from this have "takeWhile (\<lambda>c. c \<noteq> CHR ''='') (n @ CHR ''='' # level_text l) = n"
    by (subst takeWhile_append2) auto
  ultimately show "directive w = Some (Tag_Level n l)"
    by (auto simp: directive_def level_of_Some_iff)
qed

section \<open>The tests of the loop on the word at the pointer\<close>

lemma token_len_word: "token_len s = length (word_at s)"
  by (induction s rule: token_len.induct) (auto simp: word_at_def is_sep_def)

lemma strncmp_literal:
  assumes "n = length t" and "list_all (\<lambda>c. c \<noteq> NUL \<and> \<not> is_sep c) t"
  shows "strncmp s t n = 0 \<longleftrightarrow> take n (word_at s) = t"
  using assms strncmp_word [of t s] by (auto simp: list_all_iff)

lemma strncmp_whole_word:
  assumes "n = length t" and "list_all (\<lambda>c. c \<noteq> NUL \<and> \<not> is_sep c) t"
  shows "length (word_at s) = n \<and> strncmp s t n = 0 \<longleftrightarrow> t = word_at s"
  using strncmp_literal [OF assms] assms(1) by (metis take_all_iff order_refl)

lemma parse_level_word: "parse_level s (length (word_at s)) = level_of (word_at s)"
  unfolding parse_level_def level_of_def by (simp add: strncmp_whole_word is_sep_def)

lemma eq_scan_word: "eq_scan s = length (takeWhile (\<lambda>c. c \<noteq> CHR ''='') (word_at s))"
  by (induction s rule: eq_scan.induct) (auto simp: word_at_def is_sep_def)

lemma override_matches_iff:
  "override_matches tag name len \<longleftrightarrow> (len, take len (cstr name)) = (length (cstr tag), cstr tag)"
  by (auto simp: override_matches_def strlen_cstr strncmp_eq_0)

section \<open>The loop refines a fold over directives\<close>

text \<open>
  The abstract state: the global level if set, the overrides (length, name, level) in order, the
  registered names with their levels.
\<close>

type_synonym log_view = "log_level option \<times> ((nat \<times> string) \<times> log_level) list \<times> (string \<times> log_level) list"

definition ov_view :: "log_override \<Rightarrow> (nat \<times> string) \<times> log_level" where
  "ov_view ov = ((ov_len ov, take (ov_len ov) (cstr (ov_name ov))), ov_level ov)"

definition tag_view :: "log_tag \<Rightarrow> string \<times> log_level" where
  "tag_view t = (cstr (tag_name t), tag_level t)"

definition log_view :: "log_state \<Rightarrow> log_view" where
  "log_view st = (if global_level_set st then Some (global_level st) else None,
     map ov_view (pending_overrides st), map tag_view (tag_registry st))"

definition override_level :: "((nat \<times> string) \<times> log_level) list \<Rightarrow> string \<Rightarrow> log_level \<Rightarrow> log_level" where
  "override_level ovs n d = (case find (\<lambda>(k, l). k = (length n, n)) ovs of None \<Rightarrow> d | Some (k, l) \<Rightarrow> l)"

fun view_step :: "log_view \<Rightarrow> log_directive option \<Rightarrow> log_view" where
  "view_step (g, ovs, tags) None = (g, ovs, tags)"
| "view_step (g, ovs, tags) (Some (Global_Level l)) =
     (Some l, ovs, map (\<lambda>(n, k). (n, override_level ovs n l)) tags)"
| "view_step (g, ovs, tags) (Some (Tag_Level n l)) =
     (if length ovs < MAX_OVERRIDES
      then (g, ovs @ [((length n, n), l)], map (\<lambda>(m, k). (m, if m = n then l else k)) tags)
      else (g, ovs, tags))"

lemma view_step_None [simp]: "view_step v None = v"
  by (cases v) simp

lemma apply_overrides_level:
  "apply_overrides ovs t = t\<lparr>tag_level := override_level (map ov_view ovs) (cstr (tag_name t)) (tag_level t)\<rparr>"
  by (induction ovs t rule: apply_overrides.induct)
     (auto simp: override_level_def override_matches_iff ov_view_def)

lemma log_init_global_view:
  "log_view (log_init_global st pos) =
   view_step (log_view st)
     (if take 4 (word_at pos) = ''log='' then map_option Global_Level (level_of (drop 4 (word_at pos))) else None)"
proof (cases "take 4 (word_at pos) = ''log=''")
  case True
  then have len: "4 \<le> length (word_at pos)"
    by (rule take_eq_length_le) simp
  then have w: "word_at (drop 4 pos) = drop 4 (word_at pos)"
    by (rule word_at_drop)
  have cmp: "strncmp pos ''log='' 4 = 0"
    using True by (simp add: strncmp_literal is_sep_def)
  show ?thesis
  proof (cases "drop 4 (word_at pos) = []")
    case True
    then have "peek (drop 4 pos) = NUL \<or> is_sep (peek (drop 4 pos))"
      using w word_at_Nil_iff [of "drop 4 pos"] by simp
    then have "log_init_global st pos = st"
      by (auto simp: log_init_global_def is_sep_def)
    then show ?thesis
      using True by (simp add: level_of_def log_view_def)
  next
    case False
    then have "peek (drop 4 pos) \<noteq> NUL \<and> \<not> is_sep (peek (drop 4 pos))"
      using w word_at_Nil_iff [of "drop 4 pos"] by simp
    then show ?thesis
      using True cmp w parse_level_word [of "drop 4 pos"]
      by (auto simp: log_init_global_def is_sep_def token_len_word log_view_def apply_overrides_level
          tag_view_def split: option.splits)
  qed
next
  case False
  then show ?thesis
    by (simp add: log_init_global_def strncmp_literal is_sep_def log_view_def)
qed

lemma log_init_tag_view:
  "log_view (log_init_tag st pos) =
   view_step (log_view st) (if take 4 (word_at pos) = ''log.'' then directive (word_at pos) else None)"
proof (cases "take 4 (word_at pos) = ''log.''")
  case True
  define r where "r = drop 4 (word_at pos)"
  define n where "n = takeWhile (\<lambda>c. c \<noteq> CHR ''='') r"
  have len: "4 \<le> length (word_at pos)"
    using True by (rule take_eq_length_le) simp
  then have w: "word_at (drop 4 pos) = r"
    unfolding r_def by (rule word_at_drop)
  have cmp: "strncmp pos ''log.'' 4 = 0"
    using True by (simp add: strncmp_literal is_sep_def)
  have scan: "eq_scan (drop 4 pos) = length n"
    using w by (simp add: eq_scan_word n_def)
  have n_le: "length n \<le> length r"
    by (simp add: n_def length_takeWhile_le)
  have n_take: "take (length n) r = n"
    unfolding n_def by (rule takeWhile_eq_take [symmetric])
  have n_less: "length n < length r" if "n \<noteq> r"
    using that n_le n_take by (metis le_neq_implies_less order_refl take_all_iff)
  have nm: "take (length n) (cstr (drop 4 pos)) = n"
    using take_cstr_word [of "length n" "drop 4 pos"] n_le w n_take by simp
  have hit: "peek (drop (length n) (drop 4 pos)) = CHR ''='' \<longleftrightarrow> n \<noteq> r"
  proof (cases "n = r")
    case True
    then have "peek (drop (length n) (drop 4 pos)) = NUL \<or> is_sep (peek (drop (length n) (drop 4 pos)))"
      using peek_drop_word [of "length n" "drop 4 pos"] w by simp
    then show ?thesis
      using True by (auto simp: is_sep_def)
  next
    case False
    then have less: "length n < length r"
      by (rule n_less)
    then have "peek (drop (length n) (drop 4 pos)) = drop 4 pos ! length n"
      using w length_word_at [of "drop 4 pos"] by (intro peek_nth) simp
    also have "\<dots> = r ! length n"
      using nth_word_at [of "length n" "drop 4 pos"] w less by simp
    also have "\<dots> = CHR ''=''"
      using nth_length_takeWhile [of "\<lambda>c. c \<noteq> CHR ''=''" r] less by (simp add: n_def)
    finally show ?thesis
      using False by simp
  qed
  have val: "word_at (drop (length n + 1) (drop 4 pos)) = drop (length n + 1) r" if "n \<noteq> r"
    using n_less [OF that] w word_at_drop [of "length n + 1" "drop 4 pos"] by simp
  have dir: "directive (word_at pos) =
      (if n \<noteq> [] \<and> n \<noteq> r then map_option (Tag_Level n) (level_of (drop (length n + 1) r)) else None)"
    using True by (simp add: directive_def Let_def r_def n_def del: takeWhile_eq_all_conv)
  show ?thesis
  proof (cases "n \<noteq> [] \<and> n \<noteq> r")
    case hits: True
    define vs where "vs = drop (length n + 1) (drop 4 pos)"
    have lvl: "parse_level vs (token_len vs) = level_of (drop (length n + 1) r)"
      using val hits parse_level_word [of vs] by (simp add: token_len_word vs_def del: drop_drop)
    show ?thesis
    proof (cases "level_of (drop (length n + 1) r)")
      case None
      then show ?thesis
        using hits cmp scan hit lvl True dir
        by (simp add: log_init_tag_def vs_def del: drop_drop)
    next
      case (Some l)
      then show ?thesis
        using hits cmp scan hit lvl True dir nm
        by (auto simp: log_init_tag_def Let_def vs_def log_view_def ov_view_def tag_view_def
            override_matches_iff simp del: drop_drop)
    qed
  next
    case False
    then show ?thesis
      using cmp scan hit True dir by (auto simp: log_init_tag_def simp del: drop_drop)
  qed
next
  case False
  then show ?thesis
    by (simp add: log_init_tag_def strncmp_literal is_sep_def log_view_def)
qed

lemma log_init_word_view:
  "log_view (log_init_word st pos) = view_step (log_view st) (directive (word_at pos))"
  by (auto simp: log_init_word_def log_init_tag_view log_init_global_view directive_def)

interpretation log_scanner: word_scanner log_init_word log_view "\<lambda>v w. view_step v (directive w)"
  by unfold_locales (rule log_init_word_view)

lemma view_fold:
  assumes "length ovs \<le> MAX_OVERRIDES"
  shows "foldl (\<lambda>v w. view_step v (directive w)) (g, ovs, []) ws =
    (if global_levels ws = [] then g else Some (last (global_levels ws)),
     take MAX_OVERRIDES (ovs @ map (\<lambda>(n, l). ((length n, n), l)) (tag_levels ws)), [])"
  using assms
proof (induction ws arbitrary: g ovs)
  case (Cons w ws)
  then show ?case
    by (cases "directive w" rule: option.exhaust [case_names None Some])
       (auto simp: global_levels_def tag_levels_def split: log_directive.splits)
qed (simp add: global_levels_def tag_levels_def)

lemma log_init_boot_view:
  "log_view (log_init log_boot (Some cmdline)) =
   (if global_levels (words cmdline) = [] then None else Some (last (global_levels (words cmdline))),
    take MAX_OVERRIDES (map (\<lambda>(n, l). ((length n, n), l)) (tag_levels (words cmdline))), [])"
proof -
  have "log_view log_boot = (None, [], [])"
    by (simp add: log_view_def log_boot_def)
  then show ?thesis
    using view_fold [of "[]" None "words cmdline"]
    by (simp add: log_init_def log_scanner.scan_words)
qed

text \<open>Registering one tag, and a sequence of tags, after \<^verbatim>\<open>log_init\<close>.\<close>

definition log_register_all :: "log_state \<Rightarrow> (string \<times> log_level) list \<Rightarrow> log_state" where
  "log_register_all st rs = foldl (\<lambda>s (n, d). snd (log_register s n d)) st rs"

definition settled_level :: "log_state \<Rightarrow> string \<Rightarrow> log_level \<Rightarrow> log_level" where
  "settled_level st n d = override_level (map ov_view (pending_overrides st)) (cstr n)
     (if global_level_set st then global_level st else d)"

lemma log_register_eq:
  "log_register st n d =
   (if length (tag_registry st) < MAX_LOG_TAGS
    then (Some (length (tag_registry st)),
          st\<lparr>tag_registry := tag_registry st @ [\<lparr>tag_name = n, tag_level = settled_level st n d\<rparr>]\<rparr>)
    else (None, st))"
  by (simp add: log_register_def apply_overrides_level settled_level_def)

lemma log_register_all_registry:
  "length (tag_registry st) \<le> MAX_LOG_TAGS \<Longrightarrow>
   tag_registry (log_register_all st rs) =
   take MAX_LOG_TAGS (tag_registry st @ map (\<lambda>(n, d). \<lparr>tag_name = n, tag_level = settled_level st n d\<rparr>) rs)"
proof (induction rs arbitrary: st)
  case (Cons r rs)
  obtain n d where r: "r = (n, d)"
    by (cases r)
  have step: "log_register_all st (r # rs) = log_register_all (snd (log_register st n d)) rs"
    by (simp add: log_register_all_def r)
  have same: "settled_level (snd (log_register st n d)) = settled_level st"
    by (rule ext)+ (simp add: log_register_eq settled_level_def)
  show ?case
  proof (cases "length (tag_registry st) < MAX_LOG_TAGS")
    case True
    then have "tag_registry (snd (log_register st n d)) =
        tag_registry st @ [\<lparr>tag_name = n, tag_level = settled_level st n d\<rparr>]"
      by (simp add: log_register_eq)
    then show ?thesis
      using Cons.IH [of "snd (log_register st n d)"] True
      by (simp only: step same) (simp add: r)
  next
    case False
    then have "snd (log_register st n d) = st"
      by (simp add: log_register_eq)
    then show ?thesis
      using Cons.IH [of st] Cons.prems False by (simp only: step) simp
  qed
qed (simp add: log_register_all_def)

lemma settled_level_boot:
  "settled_level (log_init log_boot (Some cmdline)) n d = requested_level (words cmdline) (cstr n) d"
proof -
  let ?st = "log_init log_boot (Some cmdline)"
  have g: "(if global_level_set ?st then Some (global_level ?st) else None) =
      (if global_levels (words cmdline) = [] then None else Some (last (global_levels (words cmdline))))"
    and ovs: "map ov_view (pending_overrides ?st) =
      take MAX_OVERRIDES (map (\<lambda>(n, l). ((length n, n), l)) (tag_levels (words cmdline)))"
    using log_init_boot_view [of cmdline] by (simp_all add: log_view_def)
  have "find (\<lambda>(k, l). k = (length (cstr n), cstr n)) (map (\<lambda>(n, l). ((length n, n), l)) xs) =
      map_option (\<lambda>(n, l). ((length n, n), l)) (find (\<lambda>(m, l). m = cstr n) xs)"
    for xs :: "(string \<times> log_level) list"
    by (induction xs) auto
  then show ?thesis
    using g by (auto simp: settled_level_def ovs override_level_def requested_level_def take_map
        split: option.splits if_splits)
qed

section \<open>The invariant of the tables\<close>

definition log_inv :: "log_state \<Rightarrow> bool" where
  "log_inv st \<longleftrightarrow> length (tag_registry st) \<le> MAX_LOG_TAGS \<and> length (pending_overrides st) \<le> MAX_OVERRIDES"

lemma view_step_bounded:
  "length (fst (snd v)) \<le> MAX_OVERRIDES \<Longrightarrow>
   length (fst (snd (view_step v d))) \<le> MAX_OVERRIDES \<and> length (snd (snd (view_step v d))) = length (snd (snd v))"
  by (cases "(v, d)" rule: view_step.cases) auto

lemma view_fold_bounded:
  "length (fst (snd v)) \<le> MAX_OVERRIDES \<Longrightarrow>
   length (fst (snd (foldl (\<lambda>v w. view_step v (directive w)) v ws))) \<le> MAX_OVERRIDES \<and>
   length (snd (snd (foldl (\<lambda>v w. view_step v (directive w)) v ws))) = length (snd (snd v))"
proof (induction ws arbitrary: v)
  case (Cons w ws)
  then show ?case
    using view_step_bounded [of v "directive w"] by simp
qed simp

lemma log_inv_view:
  "log_inv st \<longleftrightarrow> length (snd (snd (log_view st))) \<le> MAX_LOG_TAGS \<and>
     length (fst (snd (log_view st))) \<le> MAX_OVERRIDES"
  by (simp add: log_inv_def log_view_def)

lemma log_inv_init: "log_inv st \<Longrightarrow> log_inv (log_init st c)"
proof (cases c)
  case (Some cmdline)
  assume "log_inv st"
  then show ?thesis
    using view_fold_bounded [of "log_view st" "words cmdline"]
    by (simp add: Some log_init_def log_inv_view log_scanner.scan_words)
qed (simp add: log_init_def)

lemma log_inv_register: "log_inv st \<Longrightarrow> log_inv (snd (log_register st n d))"
  by (auto simp: log_register_eq log_inv_def)

section \<open>Properties\<close>

text \<open>
  the logger's tables never overflow: from a state with at most 32 tags and 16 overrides, parsing
  any command line and registering any tag stay within those bounds; \<open>log_register\<close> returns NULL
  exactly when the registry is full, then leaves the state as it is, and otherwise returns a pointer to
  a new entry with the given name and keeps the others.
\<close>

theorem log_tables_bounded:
  "log_inv log_boot \<and>
   (log_inv st \<longrightarrow> log_inv (log_init st c) \<and> log_inv (snd (log_register st n d)) \<and>
     (case log_register st n d of
        (None, st') \<Rightarrow> length (tag_registry st) = MAX_LOG_TAGS \<and> st' = st
      | (Some i, st') \<Rightarrow> length (tag_registry st) < MAX_LOG_TAGS \<and>
          (\<exists>t. log_deref st' (Some i) = Some t \<and> tag_name t = n) \<and>
          (\<forall>j. j \<noteq> i \<longrightarrow> log_deref st' (Some j) = log_deref st (Some j))))"
proof -
  have "log_inv log_boot"
    by (simp add: log_inv_def log_boot_def)
  moreover have "log_inv st \<Longrightarrow> (case log_register st n d of
        (None, st') \<Rightarrow> length (tag_registry st) = MAX_LOG_TAGS \<and> st' = st
      | (Some i, st') \<Rightarrow> length (tag_registry st) < MAX_LOG_TAGS \<and>
          (\<exists>t. log_deref st' (Some i) = Some t \<and> tag_name t = n) \<and>
          (\<forall>j. j \<noteq> i \<longrightarrow> log_deref st' (Some j) = log_deref st (Some j)))"
    by (auto simp: log_register_eq log_inv_def log_deref_def nth_append)
  ultimately show ?thesis
    by (simp add: log_inv_init log_inv_register)
qed

lemma log_tables_bounded_witness:
  "log_inv (log_init log_boot (Some ''log=warn log.init=debug'')) \<and>
   log_inv (snd (log_register log_boot ''init'' LOG_INFO))"
proof -
  have "log_inv log_boot"
    by (simp add: log_inv_def log_boot_def)
  then show ?thesis
    using log_tables_bounded [of log_boot "Some ''log=warn log.init=debug''" "''init''" LOG_INFO] by blast
qed

text \<open>
  C2: the command line decides every level: after \<open>log_init\<close> has parsed a command line, the tags
  registered by any sequence of \<open>log_register\<close> calls are the first 32 of the sequence, each with
  the level requested by the words of the line for its name: the first of the first sixteen valid
  \<^verbatim>\<open>log.<tag>=<level>\<close> words that names it, else the last valid \<^verbatim>\<open>log=<level>\<close> word, else its default.
\<close>

theorem log_level_precedence:
  "tag_registry (log_register_all (log_init log_boot (Some cmdline)) rs) =
   map (\<lambda>(n, d). \<lparr>tag_name = n, tag_level = requested_level (words cmdline) (cstr n) d\<rparr>) (take MAX_LOG_TAGS rs)"
proof -
  have "tag_registry (log_init log_boot (Some cmdline)) = []"
    using log_init_boot_view [of cmdline] by (simp add: log_view_def)
  then show ?thesis
    by (simp add: log_register_all_registry settled_level_boot take_map)
qed

text \<open>
  a message is printed exactly when its level is at most the level the command line requests for
  the tag, and then as \<^verbatim>\<open>[LEVEL][tag] message\<close>.
\<close>

theorem log_message_gating:
  assumes "i < length rs" and "i < MAX_LOG_TAGS" and "rs ! i = (n, d)"
  shows "log_msg (log_deref (log_register_all (log_init log_boot (Some cmdline)) rs) (Some i)) level msg =
    (if level \<le> requested_level (words cmdline) (cstr n) d
     then ''['' @ level_names level @ '']['' @ cstr n @ ''] '' @ cstr msg else [])"
proof -
  have "tag_registry (log_init log_boot (Some cmdline)) = []"
    using log_init_boot_view [of cmdline] by (simp add: log_view_def)
  then have "log_deref (log_register_all (log_init log_boot (Some cmdline)) rs) (Some i) =
      Some \<lparr>tag_name = n, tag_level = requested_level (words cmdline) (cstr n) d\<rparr>"
    using assms by (simp add: log_deref_def log_register_all_registry settled_level_boot)
  then show ?thesis
    by (cases level) (simp_all add: log_msg_def log_enabled_def log_prefix_def puts_cstr)
qed

lemma log_message_gating_witness:
  "log_msg (log_deref (log_register_all (log_init log_boot (Some ''log.net=debug log=error''))
     [(''init'', LOG_INFO), (''net'', LOG_INFO)]) (Some 1)) LOG_DEBUG ''up'' = ''[DEBUG][net] up''"
proof -
  have "words ''log.net=debug log=error'' = [''log.net=debug'', ''log=error'']"
    by (simp add: words.simps Let_def is_sep_def word_at_def)
  then have "LOG_DEBUG \<le> requested_level (words ''log.net=debug log=error'') (cstr ''net'') LOG_INFO"
    by (simp add: requested_level_def tag_levels_def directive_def level_of_def MAX_OVERRIDES_def)
  then show ?thesis
    using log_message_gating [of 1 "[(''init'', LOG_INFO), (''net'', LOG_INFO)]" "''net''" LOG_INFO
        "''log.net=debug log=error''" LOG_DEBUG "''up''"]
    by (simp add: MAX_LOG_TAGS_def)
qed

end
