(* ===== verification/C_Memory.thy ===== *)
theory C_Memory
  imports Prelude
begin

text \<open>
  Memory objects as byte lists. A pointer that the code only reads through is the suffix of its
  object that starts at it (\<open>drop off obj\<close>), so \<open>p[i]\<close> is \<open>rd8 p i\<close>; code that writes takes the
  object and an offset and returns the updated object. \<open>None\<close> is an access outside the object.
  Multi-byte native accesses are little-endian, as on the three targets of the build.
  The theory also holds the two block routines of \<^verbatim>\<open>common/common.c\<close>, \<open>memset\<close> and \<open>memcpy\<close>.
\<close>

section \<open>Bytes\<close>

definition rd8 :: "u8 list \<Rightarrow> nat \<Rightarrow> u8 option" where
  "rd8 p i = (if i < length p then Some (p ! i) else None)"

definition st8 :: "u8 list \<Rightarrow> nat \<Rightarrow> u8 \<Rightarrow> u8 list option" where
  "st8 m i v = (if i < length m then Some (m[i := v]) else None)"

text \<open>Writing and reading a run of bytes.\<close>

definition put :: "u8 list \<Rightarrow> nat \<Rightarrow> u8 list \<Rightarrow> u8 list option" where
  "put m i bs =
     (if i + length bs \<le> length m then Some (take i m @ bs @ drop (i + length bs) m) else None)"

definition get :: "u8 list \<Rightarrow> nat \<Rightarrow> nat \<Rightarrow> u8 list option" where
  "get m i n = (if i + n \<le> length m then Some (take n (drop i m)) else None)"

lemma rd8_simps [simp]:
  "rd8 [] i = None" "rd8 (b # p) 0 = Some b" "rd8 (b # p) (Suc i) = rd8 p i"
  by (simp_all add: rd8_def)

lemma rd8_numeral [simp]: "rd8 (b # p) (numeral k) = rd8 p (pred_numeral k)"
  by (simp add: rd8_def)

lemma rd8_drop [simp]: "rd8 (drop n p) i = rd8 p (n + i)"
  by (auto simp: rd8_def)

lemma rd8_Some_iff: "(\<exists>b. rd8 p i = Some b) \<longleftrightarrow> i < length p"
  by (simp add: rd8_def)

lemma rd8_append: "rd8 (xs @ ys) i = (if i < length xs then rd8 xs i else rd8 ys (i - length xs))"
  by (auto simp: rd8_def nth_append)

lemma st8_eq_put: "st8 m i v = put m i [v]"
  by (simp add: st8_def put_def upd_conv_take_nth_drop)

lemma put_None_iff: "put m i bs = None \<longleftrightarrow> length m < i + length bs"
  by (auto simp: put_def)

lemma put_length: "put m i bs = Some m' \<Longrightarrow> length m' = length m"
  by (auto simp: put_def split: if_splits)

lemma put_Some: "i + length bs \<le> length m \<Longrightarrow> put m i bs = Some (take i m @ bs @ drop (i + length bs) m)"
  by (simp add: put_def)

lemma put_Nil: "i \<le> length m \<Longrightarrow> put m i [] = Some m"
  by (simp add: put_def)

lemma rd8_put:
  assumes "put m i bs = Some m'"
  shows "rd8 m' j = (if i \<le> j \<and> j < i + length bs then rd8 bs (j - i) else rd8 m j)"
  using assms by (auto simp: put_def rd8_def nth_append min_def split: if_splits)

lemma mem_eqI: "length m = length m' \<Longrightarrow> (\<And>j. rd8 m j = rd8 m' j) \<Longrightarrow> m = m'"
  by (rule nth_equalityI) (simp_all add: rd8_def, metis option.inject)

text \<open>
  Two ways to write the same bytes agree: both fit, and every byte read afterwards is the same.
\<close>

lemma put_total: "i + length bs \<le> length m \<Longrightarrow> \<exists>m'. put m i bs = Some m'"
  by (simp add: put_def)

text \<open>Stores to adjacent runs are one store of the concatenated run.\<close>

lemma put_put_append:
  "Option.bind (put m i bs) (\<lambda>m'. put m' (i + length bs) cs) = put m i (bs @ cs)"
proof (cases "i + length bs + length cs \<le> length m")
  case True
  then obtain m1 where m1: "put m i bs = Some m1"
    using put_total by fastforce
  then obtain m2 where m2: "put m1 (i + length bs) cs = Some m2"
    using put_total True put_length [OF m1] by metis
  obtain m3 where m3: "put m i (bs @ cs) = Some m3"
    using put_total [of i "bs @ cs" m] True by auto
  have "m2 = m3"
    by (rule mem_eqI)
       (auto simp: put_length [OF m1] put_length [OF m2] put_length [OF m3]
          rd8_put [OF m1] rd8_put [OF m2] rd8_put [OF m3] rd8_append)
  then show ?thesis
    by (simp add: m1 m2 m3)
next
  case False
  then show ?thesis
    by (auto simp: put_def)
qed

lemma put_put_append':
  "j = i + length bs \<Longrightarrow>
   Option.bind (put m i bs) (\<lambda>m'. Option.bind (put m' j cs) f) = Option.bind (put m i (bs @ cs)) f"
  by (simp add: put_put_append [symmetric])

text \<open>Overwriting part of a run that was just written.\<close>

lemma put_inside:
  assumes m': "put m i bs = Some m'" and fits: "k + length cs \<le> length bs"
  shows "put m' (i + k) cs = put m i (take k bs @ cs @ drop (k + length cs) bs)"
proof -
  let ?bs = "take k bs @ cs @ drop (k + length cs) bs"
  have len: "length ?bs = length bs"
    using fits by simp
  have room: "i + length bs \<le> length m"
    using m' by (auto simp: put_def split: if_splits)
  obtain m1 where m1: "put m' (i + k) cs = Some m1"
    using put_total [of "i + k" cs m'] put_length [OF m'] room fits by auto
  obtain m2 where m2: "put m i ?bs = Some m2"
    using put_total [of i ?bs m] room fits by auto
  have "m1 = m2"
  proof (rule mem_eqI)
    show "length m1 = length m2"
      by (simp add: put_length [OF m1] put_length [OF m2] put_length [OF m'])
  next
    fix j
    show "rd8 m1 j = rd8 m2 j"
      unfolding rd8_put [OF m1] rd8_put [OF m2] rd8_put [OF m'] len
      using fits by (auto simp: rd8_def nth_append min_def)
  qed
  then show ?thesis
    by (simp add: m1 m2)
qed

lemma put_overwrite:
  assumes "put m i bs = Some m'" and "length cs = length bs"
  shows "put m' i cs = put m i cs"
  using put_inside [OF assms(1), of 0 cs] assms(2) by simp

lemma get_put_same:
  "put m i bs = Some m' \<Longrightarrow> get m' i (length bs) = Some bs"
  by (auto simp: put_def get_def split: if_splits)

lemma get_put_other:
  assumes "put m i bs = Some m'" and "j + n \<le> i \<or> i + length bs \<le> j"
  shows "get m' j n = get m j n"
proof -
  have len: "length m' = length m"
    using assms(1) by (rule put_length)
  show ?thesis
  proof (cases "j + n \<le> length m")
    case True
    have "take n (drop j m') = take n (drop j m)"
    proof (rule nth_equalityI)
      show "length (take n (drop j m')) = length (take n (drop j m))"
        using len by simp
    next
      fix k assume "k < length (take n (drop j m'))"
      then have k: "k < n" and bound: "j + k < length m"
        using True len by auto
      have "rd8 m' (j + k) = rd8 m (j + k)"
        using assms k by (subst rd8_put [OF assms(1)]) auto
      then show "take n (drop j m') ! k = take n (drop j m) ! k"
        using k bound len True by (simp add: rd8_def)
    qed
    then show ?thesis
      using len by (simp add: get_def)
  next
    case False
    then show ?thesis
      using len by (simp add: get_def)
  qed
qed

lemma drop_put:
  "put m i bs = Some m' \<Longrightarrow> drop i m' = bs @ drop (i + length bs) m"
  by (auto simp: put_def split: if_splits)

lemma take_put:
  "put m i bs = Some m' \<Longrightarrow> take i m' = take i m"
  by (auto simp: put_def min_def split: if_splits)

section \<open>Native little-endian accesses\<close>

definition le16 :: "u16 \<Rightarrow> u8 list" where
  "le16 v = [ucast v, ucast (drop_bit 8 v)]"

definition le32 :: "u32 \<Rightarrow> u8 list" where
  "le32 v = [ucast v, ucast (drop_bit 8 v), ucast (drop_bit 16 v), ucast (drop_bit 24 v)]"

definition ld16 :: "u8 list \<Rightarrow> nat \<Rightarrow> u16 option" where
  "ld16 p i = do { b0 \<leftarrow> rd8 p i; b1 \<leftarrow> rd8 p (i + 1);
                   Some (ucast b0 OR push_bit 8 (ucast b1)) }"

definition ld32 :: "u8 list \<Rightarrow> nat \<Rightarrow> u32 option" where
  "ld32 p i = do { b0 \<leftarrow> rd8 p i; b1 \<leftarrow> rd8 p (i + 1); b2 \<leftarrow> rd8 p (i + 2); b3 \<leftarrow> rd8 p (i + 3);
                   Some (ucast b0 OR push_bit 8 (ucast b1) OR push_bit 16 (ucast b2)
                         OR push_bit 24 (ucast b3)) }"

definition ld64 :: "u8 list \<Rightarrow> nat \<Rightarrow> u64 option" where
  "ld64 p i = do { lo \<leftarrow> ld32 p i; hi \<leftarrow> ld32 p (i + 4);
                   Some (ucast lo OR push_bit 32 (ucast hi)) }"

definition st16 :: "u8 list \<Rightarrow> nat \<Rightarrow> u16 \<Rightarrow> u8 list option" where
  "st16 m i v = put m i (le16 v)"

definition st32 :: "u8 list \<Rightarrow> nat \<Rightarrow> u32 \<Rightarrow> u8 list option" where
  "st32 m i v = put m i (le32 v)"

lemmas [mem_defs] = st8_eq_put st16_def st32_def

lemma length_le16 [simp]: "length (le16 v) = 2"
  by (simp add: le16_def)

lemma length_le32 [simp]: "length (le32 v) = 4"
  by (simp add: le32_def)

lemma ld16_le16: "ld16 (le16 v @ rest) 0 = Some v"
proof -
  have "ucast (ucast v :: u8) OR push_bit 8 (ucast (ucast (drop_bit 8 v) :: u8)) = v"
    by (rule bits16) (simp add: bit_simps bit_beyond)
  then show ?thesis
    by (simp add: ld16_def le16_def)
qed

lemma ld32_le32: "ld32 (le32 v @ rest) 0 = Some v"
proof -
  have "ucast (ucast v :: u8) OR push_bit 8 (ucast (ucast (drop_bit 8 v) :: u8))
      OR push_bit 16 (ucast (ucast (drop_bit 16 v) :: u8))
      OR push_bit 24 (ucast (ucast (drop_bit 24 v) :: u8)) = v"
    by (rule bits32) (simp add: bit_simps bit_beyond)
  then show ?thesis
    by (simp add: ld32_def le32_def numeral_eq_Suc)
qed

lemma ld_drop: "ld16 (drop n p) i = ld16 p (n + i)" "ld32 (drop n p) i = ld32 p (n + i)"
  by (simp_all add: ld16_def ld32_def add.assoc)

section \<open>\<^verbatim>\<open>memset\<close> and \<^verbatim>\<open>memcpy\<close>\<close>

text \<open>
  \<^verbatim>\<open>while (n--) *p++ = c;\<close> stores the low byte of \<open>c\<close>; \<open>memcpy\<close> copies byte by byte from the
  lowest address, from another object.
\<close>

fun memset :: "u8 list \<Rightarrow> nat \<Rightarrow> u32 \<Rightarrow> nat \<Rightarrow> u8 list option" where
  "memset m p c 0 = Some m"
| "memset m p c (Suc n) = do { m' \<leftarrow> st8 m p (ucast c); memset m' (p + 1) c n }"

fun memcpy :: "u8 list \<Rightarrow> nat \<Rightarrow> u8 list \<Rightarrow> nat \<Rightarrow> u8 list option" where
  "memcpy m d s 0 = Some m"
| "memcpy m d s (Suc n) = do { b \<leftarrow> rd8 s 0; m' \<leftarrow> st8 m d b; memcpy m' (d + 1) (drop 1 s) n }"

lemma memset_eq_put: "p + n \<le> length m \<Longrightarrow> memset m p c n = put m p (replicate n (ucast c))"
proof (induction n arbitrary: m p)
  case 0
  then show ?case by (simp add: put_Nil)
next
  case (Suc n)
  obtain m' where m': "put m p [ucast c] = Some m'"
    using Suc.prems by (simp add: put_def)
  have "memset m' (p + 1) c n = put m' (p + 1) (replicate n (ucast c))"
    using Suc put_length [OF m'] by simp
  then show ?case
    using put_put_append [of m p "[ucast c]" "replicate n (ucast c)"] m'
    by (simp add: st8_eq_put)
qed

lemma memcpy_eq_put:
  "d + n \<le> length m \<Longrightarrow> n \<le> length s \<Longrightarrow> memcpy m d s n = put m d (take n s)"
proof (induction n arbitrary: m d s)
  case 0
  then show ?case by (simp add: put_Nil)
next
  case (Suc n)
  then obtain b s' where s: "s = b # s'"
    by (cases s) auto
  obtain m' where m': "put m d [b] = Some m'"
    using Suc.prems by (simp add: put_def)
  have "memcpy m' (d + 1) s' n = put m' (d + 1) (take n s')"
    using Suc.IH [of "d + 1" m' s'] Suc.prems put_length [OF m'] s by simp
  then show ?case
    using put_put_append [of m d "[b]" "take n s'"] m' s
    by (simp add: st8_eq_put)
qed

lemma memset_fault: "length m < p + n \<Longrightarrow> 0 < n \<Longrightarrow> memset m p c n = None"
proof (induction n arbitrary: m p)
  case 0
  then show ?case by simp
next
  case (Suc n)
  show ?case
  proof (cases "p < length m")
    case True
    then have "memset (m[p := ucast c]) (p + 1) c n = None"
      using Suc by (cases n) auto
    with True show ?thesis
      by (simp add: st8_def)
  next
    case False
    then show ?thesis by (simp add: st8_def)
  qed
qed

text \<open>A loop \<^verbatim>\<open>for (i < n) { m[a+i] = xs[i]; m[b+i] = ys[i]; }\<close> over two disjoint runs.\<close>

fun copy2 :: "u8 list \<Rightarrow> nat \<Rightarrow> u8 list \<Rightarrow> nat \<Rightarrow> u8 list \<Rightarrow> nat \<Rightarrow> u8 list option" where
  "copy2 m a xs b ys 0 = Some m"
| "copy2 m a xs b ys (Suc n) = do {
     x \<leftarrow> rd8 xs 0; m1 \<leftarrow> st8 m a x;
     y \<leftarrow> rd8 ys 0; m2 \<leftarrow> st8 m1 b y;
     copy2 m2 (a + 1) (drop 1 xs) (b + 1) (drop 1 ys) n }"

lemma copy2_length: "copy2 m a xs b ys n = Some m' \<Longrightarrow> length m' = length m"
proof (induction n arbitrary: m a xs b ys)
  case (Suc n)
  then show ?case
    by (auto elim!: bind_eq_SomeE simp: st8_eq_put dest!: put_length Suc.IH)
qed simp

lemma copy2_rd8:
  assumes "copy2 m a xs b ys n = Some m'" and "a + n \<le> b"
  shows "rd8 m' j = (if a \<le> j \<and> j < a + n then rd8 xs (j - a)
                     else if b \<le> j \<and> j < b + n then rd8 ys (j - b) else rd8 m j)"
  using assms
proof (induction n arbitrary: m a xs b ys)
  case 0
  then show ?case by auto
next
  case (Suc n)
  from Suc.prems(1) obtain x m1 y m2 where
    x: "rd8 xs 0 = Some x" and m1: "put m a [x] = Some m1" and
    y: "rd8 ys 0 = Some y" and m2: "put m1 b [y] = Some m2" and
    rest: "copy2 m2 (a + 1) (drop 1 xs) (b + 1) (drop 1 ys) n = Some m'"
    by (auto elim!: bind_eq_SomeE simp: st8_eq_put)
  have IH: "rd8 m' j = (if a + 1 \<le> j \<and> j < a + 1 + n then rd8 (drop 1 xs) (j - (a + 1))
      else if b + 1 \<le> j \<and> j < b + 1 + n then rd8 (drop 1 ys) (j - (b + 1)) else rd8 m2 j)"
    using Suc.IH [OF rest] Suc.prems(2) by simp
  show ?case
    using IH Suc.prems(2) x y
    by (auto simp: rd8_put [OF m2] rd8_put [OF m1] Suc_diff_le Suc_diff_Suc not_le not_less less_Suc_eq)
qed

lemma copy2_Some:
  "a + n \<le> length m \<Longrightarrow> b + n \<le> length m \<Longrightarrow> n \<le> length xs \<Longrightarrow> n \<le> length ys \<Longrightarrow>
   \<exists>m'. copy2 m a xs b ys n = Some m'"
  by (induction n arbitrary: m a xs b ys) (auto simp: rd8_def st8_def)

section \<open>Chains of stores\<close>

text \<open>
  A structure filled field by field is one store of its image: adjacent stores merge, disjoint stores
  commute, and the interleaved loop is two stores.
\<close>

lemma put_chain_end:
  "j = i + length bs \<Longrightarrow> Option.bind (put m i bs) (\<lambda>m'. put m' j cs) = put m i (bs @ cs)"
  by (simp add: put_put_append)

lemmas put_chain = put_put_append' put_chain_end

lemma put_commute:
  assumes "i + length bs \<le> j \<or> j + length cs \<le> i"
  shows "Option.bind (put m i bs) (\<lambda>m'. put m' j cs) = Option.bind (put m j cs) (\<lambda>m'. put m' i bs)"
proof (cases "i + length bs \<le> length m \<and> j + length cs \<le> length m")
  case True
  then obtain m1 m2 where m1: "put m i bs = Some m1" and m2: "put m j cs = Some m2"
    using put_total by metis
  then obtain m3 m4 where m3: "put m1 j cs = Some m3" and m4: "put m2 i bs = Some m4"
    using True put_total put_length by metis
  have "m3 = m4"
    using assms
    by (intro mem_eqI)
       (auto simp: put_length [OF m1] put_length [OF m2] put_length [OF m3] put_length [OF m4]
          rd8_put [OF m1] rd8_put [OF m2] rd8_put [OF m3] rd8_put [OF m4])
  then show ?thesis
    by (simp add: m1 m2 m3 m4)
next
  case False
  then show ?thesis
    by (auto simp: put_def)
qed

lemma put_commute':
  assumes "i + length bs \<le> j \<or> j + length cs \<le> i"
  shows "Option.bind (put m i bs) (\<lambda>m'. Option.bind (put m' j cs) f) =
    Option.bind (put m j cs) (\<lambda>m'. Option.bind (put m' i bs) f)"
  using arg_cong [OF put_commute [OF assms, of m], of "\<lambda>x. Option.bind x f"] by simp

lemma copy2_eq_put:
  assumes "a + n \<le> b" and "a + n \<le> length m" and "b + n \<le> length m" and "n \<le> length xs" and "n \<le> length ys"
  shows "copy2 m a xs b ys n = Option.bind (put m a (take n xs)) (\<lambda>m'. put m' b (take n ys))"
proof -
  obtain m' where m': "copy2 m a xs b ys n = Some m'"
    using copy2_Some [of a n m b xs ys] assms by blast
  obtain m1 where m1: "put m a (take n xs) = Some m1"
    using put_total [of a "take n xs" m] assms by auto
  obtain m2 where m2: "put m1 b (take n ys) = Some m2"
    using put_total [of b "take n ys" m1] put_length [OF m1] assms by auto
  have "m' = m2"
  proof (rule mem_eqI)
    show "length m' = length m2"
      by (simp add: copy2_length [OF m'] put_length [OF m1] put_length [OF m2])
    show "rd8 m' j = rd8 m2 j" for j
      unfolding copy2_rd8 [OF m' assms(1)] rd8_put [OF m2] rd8_put [OF m1]
      using assms by (auto simp: rd8_def)
  qed
  then show ?thesis
    by (simp add: m' m1 m2)
qed

text \<open>A store behind a pointer, seen through the pointer.\<close>

lemma put_drop: "p \<le> length m \<Longrightarrow> put (drop p m) k bs = map_option (drop p) (put m (p + k) bs)"
  by (auto simp: put_def take_drop add.commute add.left_commute min_def)

lemma get_put_image:
  assumes "put m p bs = Some m'" and "k + n \<le> length bs"
  shows "get m' (p + k) n = Some (take n (drop k bs))"
  using assms put_length [OF assms(1)] drop_put [OF assms(1)]
  by (auto simp: get_def put_def add.commute [of p k] drop_drop [symmetric] simp del: drop_drop split: if_splits)

lemma put_frame:
  assumes "put m p bs = Some m'"
  shows "take p m' = take p m \<and> drop (p + length bs) m' = drop (p + length bs) m \<and> length m' = length m"
proof -
  have "drop (p + length bs) m' = drop (length bs) (drop p m')"
    by (simp add: add.commute)
  also have "\<dots> = drop (p + length bs) m"
    by (simp add: drop_put [OF assms])
  finally show ?thesis
    using take_put [OF assms] put_length [OF assms] by simp
qed

end
