(* ===== verification/Byteorder.thy ===== *)
theory Byteorder
  imports C_Memory
begin

text \<open>
  \<^verbatim>\<open>common/byteorder.h\<close> and \<^verbatim>\<open>common/byteorder.c\<close>: the byte order conversions of the three targets,
  modelled instruction by instruction where they are inline assembly, and the unaligned big-endian
  accesses. The interface the network code relies on is stated as two locales, \<open>net_order\<close> (what
  a conversion does to the bytes in memory) and \<open>unaligned\<close> (reads and writes of one field), and
  interpreted for every width the code uses.
\<close>

section \<open>Conversions\<close>

subsection \<open>RISC-V\<close>

text \<open>
  The 64-bit registers of the assembly: \<open>srliw\<close> and \<open>slliw\<close> work on the low word and sign-extend
  their 32-bit result; the other shifts and logical operations are on the whole register.
\<close>

definition srliw :: "u64 \<Rightarrow> nat \<Rightarrow> u64" where
  "srliw r n = scast (drop_bit n (ucast r :: u32))"

definition slliw :: "u64 \<Rightarrow> nat \<Rightarrow> u64" where
  "slliw r n = scast (push_bit n (ucast r :: u32))"

definition htonl_riscv_asm :: "u64 \<Rightarrow> u64" where
  "htonl_riscv_asm r1 =
     (let t0 = srliw r1 24;
          t1 = slliw r1 24;
          t0 = t0 OR t1;
          t1 = srliw r1 16;
          t1 = t1 AND 0xff;
          t1 = push_bit 8 t1;
          t0 = t0 OR t1;
          t1 = srliw r1 8;
          t1 = t1 AND 0xff;
          t1 = push_bit 16 t1;
          r0 = t0 OR t1;
          r0 = push_bit 32 r0;
          r0 = drop_bit 32 r0
      in r0)"

text \<open>The calling convention keeps a 32-bit value sign-extended in its register.\<close>

definition htonl_riscv :: "u32 \<Rightarrow> u32" where
  "htonl_riscv x = ucast (htonl_riscv_asm (scast x))"

definition htons_riscv :: "u16 \<Rightarrow> u16" where
  "htons_riscv x =
     (let r1 = ucast x :: u64;
          t0 = r1 AND 0xff;
          t0 = push_bit 8 t0;
          t1 = drop_bit 8 r1;
          t1 = t1 AND 0xff
      in ucast (t0 OR t1))"

subsection \<open>ARM64 and AMD64\<close>

text \<open>\<open>REV\<close> and \<open>BSWAP\<close> reverse the four bytes of a 32-bit register.\<close>

definition rev_w :: "u32 \<Rightarrow> u32" where
  "rev_w x = push_bit 24 (x AND 0xff) OR push_bit 16 (drop_bit 8 x AND 0xff)
             OR push_bit 8 (drop_bit 16 x AND 0xff) OR drop_bit 24 x AND 0xff"

text \<open>\<open>REV16\<close> reverses the bytes of each halfword of a 32-bit register.\<close>

definition rev16_w :: "u32 \<Rightarrow> u32" where
  "rev16_w x = push_bit 8 (x AND 0xff) OR drop_bit 8 x AND 0xff
             OR push_bit 24 (drop_bit 16 x AND 0xff) OR push_bit 16 (drop_bit 24 x AND 0xff)"

definition htonl_arm64 :: "u32 \<Rightarrow> u32" where
  "htonl_arm64 x = rev_w x"

definition htons_arm64 :: "u16 \<Rightarrow> u16" where
  "htons_arm64 x = ucast (rev16_w (ucast x))"

definition htonl_amd64 :: "u32 \<Rightarrow> u32" where
  "htonl_amd64 x = rev_w x"

text \<open>\<^verbatim>\<open>xchg %b0, %h0\<close> exchanges the low and the high byte of a 16-bit register.\<close>

definition htons_amd64 :: "u16 \<Rightarrow> u16" where
  "htons_amd64 x = (let lo = ucast x :: u8; hi = ucast (drop_bit 8 x) :: u8
                    in push_bit 8 (ucast lo) OR ucast hi)"

subsection \<open>Public wrappers\<close>

fun htonl :: "arch \<Rightarrow> u32 \<Rightarrow> u32" where
  "htonl RISCV x = htonl_riscv x"
| "htonl ARM64 x = htonl_arm64 x"
| "htonl AMD64 x = htonl_amd64 x"

fun htons :: "arch \<Rightarrow> u16 \<Rightarrow> u16" where
  "htons RISCV x = htons_riscv x"
| "htons ARM64 x = htons_arm64 x"
| "htons AMD64 x = htons_amd64 x"

definition ntohl :: "arch \<Rightarrow> u32 \<Rightarrow> u32" where
  "ntohl a x = htonl a x"

definition ntohs :: "arch \<Rightarrow> u16 \<Rightarrow> u16" where
  "ntohs a x = htons a x"

section \<open>Unaligned big-endian accesses\<close>

definition ntohl_unaligned :: "u8 list \<Rightarrow> u32 option" where
  "ntohl_unaligned p = do {
     b0 \<leftarrow> rd8 p 0; b1 \<leftarrow> rd8 p 1; b2 \<leftarrow> rd8 p 2; b3 \<leftarrow> rd8 p 3;
     Some (push_bit 24 (ucast b0) OR push_bit 16 (ucast b1) OR push_bit 8 (ucast b2) OR ucast b3) }"

definition htonl_unaligned :: "u8 list \<Rightarrow> u32 option" where
  "htonl_unaligned p = ntohl_unaligned p"

definition write_htonl_unaligned :: "u8 list \<Rightarrow> nat \<Rightarrow> u32 \<Rightarrow> u8 list option" where
  "write_htonl_unaligned m p value = do {
     m \<leftarrow> st8 m p (ucast (drop_bit 24 value AND 0xFF));
     m \<leftarrow> st8 m (p + 1) (ucast (drop_bit 16 value AND 0xFF));
     m \<leftarrow> st8 m (p + 2) (ucast (drop_bit 8 value AND 0xFF));
     st8 m (p + 3) (ucast (value AND 0xFF)) }"

definition write_ntohl_unaligned :: "u8 list \<Rightarrow> nat \<Rightarrow> u32 \<Rightarrow> u8 list option" where
  "write_ntohl_unaligned m p value = write_htonl_unaligned m p value"

definition ntohs_unaligned :: "u8 list \<Rightarrow> u16 option" where
  "ntohs_unaligned p = do {
     b0 \<leftarrow> rd8 p 0; b1 \<leftarrow> rd8 p 1;
     Some (push_bit 8 (ucast b0) OR ucast b1) }"

definition htons_unaligned :: "u8 list \<Rightarrow> u16 option" where
  "htons_unaligned p = ntohs_unaligned p"

definition write_htons_unaligned :: "u8 list \<Rightarrow> nat \<Rightarrow> u16 \<Rightarrow> u8 list option" where
  "write_htons_unaligned m p value = do {
     m \<leftarrow> st8 m p (ucast (drop_bit 8 value AND 0xFF));
     st8 m (p + 1) (ucast (value AND 0xFF)) }"

definition write_ntohs_unaligned :: "u8 list \<Rightarrow> nat \<Rightarrow> u16 \<Rightarrow> u8 list option" where
  "write_ntohs_unaligned m p value = write_htons_unaligned m p value"

section \<open>Network order as byte lists\<close>

text \<open>Big-endian byte images: the wire format, and what the reads and writes are measured against.\<close>

definition be16 :: "u16 \<Rightarrow> u8 list" where
  "be16 v = [ucast (drop_bit 8 v), ucast v]"

definition be32 :: "u32 \<Rightarrow> u8 list" where
  "be32 v = [ucast (drop_bit 24 v), ucast (drop_bit 16 v), ucast (drop_bit 8 v), ucast v]"

lemma length_be16 [simp]: "length (be16 v) = 2"
  by (simp add: be16_def)

lemma length_be32 [simp]: "length (be32 v) = 4"
  by (simp add: be32_def)

lemma be16_rev: "be16 v = rev (le16 v)"
  by (simp add: be16_def le16_def)

lemma be32_rev: "be32 v = rev (le32 v)"
  by (simp add: be32_def le32_def)

lemma le16_inj: "le16 v = le16 w \<Longrightarrow> v = w"
  using ld16_le16 [of v "[]"] ld16_le16 [of w "[]"] by simp

lemma le32_inj: "le32 v = le32 w \<Longrightarrow> v = w"
  using ld32_le32 [of v "[]"] ld32_le32 [of w "[]"] by simp

lemma be32_inj: "be32 v = be32 w \<Longrightarrow> v = w"
  by (rule le32_inj) (simp add: be32_rev)

lemma be16_inj: "be16 v = be16 w \<Longrightarrow> v = w"
  by (rule le16_inj) (simp add: be16_rev)

subsection \<open>What a conversion does to memory\<close>

text \<open>
  The contract of a host/network pair over a native encoding \<open>enc\<close>: a converted value, stored
  natively, lies in memory with its bytes reversed. Mutual inversion follows.
\<close>

locale net_order =
  fixes hton :: "'v \<Rightarrow> 'v"
    and ntoh :: "'v \<Rightarrow> 'v"
    and enc :: "'v \<Rightarrow> u8 list"
  assumes hton_bytes: "enc (hton v) = rev (enc v)"
    and ntoh_bytes: "enc (ntoh v) = rev (enc v)"
    and enc_inj: "enc v = enc w \<Longrightarrow> v = w"
begin

lemma ntoh_hton: "ntoh (hton v) = v"
  by (rule enc_inj) (simp add: hton_bytes ntoh_bytes)

lemma hton_ntoh: "hton (ntoh v) = v"
  by (rule enc_inj) (simp add: hton_bytes ntoh_bytes)

lemma hton_eq_ntoh: "hton v = ntoh v"
  by (rule enc_inj) (simp add: hton_bytes ntoh_bytes)

lemma hton_inj_iff: "hton v = hton w \<longleftrightarrow> v = w"
  by (metis ntoh_hton)

end

lemma htons_bytes: "le16 (htons a v) = rev (le16 v)"
proof (cases a)
  case RISCV
  then show ?thesis
    by (simp add: le16_def htons_riscv_def Let_def)
       (intro conjI; rule bits8; simp add: bit_simps bit_beyond)
next
  case ARM64
  then show ?thesis
    by (simp add: le16_def htons_arm64_def rev16_w_def)
       (intro conjI; rule bits8; simp add: bit_simps bit_beyond)
next
  case AMD64
  then show ?thesis
    by (simp add: le16_def htons_amd64_def Let_def)
       (intro conjI; rule bits8; simp add: bit_simps bit_beyond)
qed

lemma rev_w_bytes: "le32 (rev_w v) = rev (le32 v)"
  by (simp add: le32_def rev_w_def)
     (intro conjI; rule bits8; simp add: bit_simps bit_beyond)

text \<open>The RISC-V sequence reverses the low word whatever the upper half of its operand register holds.\<close>

lemma htonl_riscv_asm_rev: "(ucast (htonl_riscv_asm r) :: u32) = rev_w (ucast r)"
  unfolding htonl_riscv_asm_def srliw_def slliw_def rev_w_def Let_def
  by (rule bits32) (simp add: bit_simps bit_beyond)

lemma scast_ucast_32 [simp]: "(ucast (scast (x :: u32) :: u64) :: u32) = x"
  by (rule bit_word_eqI) (simp add: bit_simps)

lemma htonl_rev_w: "htonl a v = rev_w v"
  by (cases a) (simp_all add: htonl_riscv_def htonl_riscv_asm_rev htonl_arm64_def htonl_amd64_def)

lemma htonl_bytes: "le32 (htonl a v) = rev (le32 v)"
  by (simp add: htonl_rev_w rev_w_bytes)

interpretation order16: net_order "htons a" "ntohs a" le16 for a
  by unfold_locales (simp_all add: ntohs_def htons_bytes le16_inj)

interpretation order32: net_order "htonl a" "ntohl a" le32 for a
  by unfold_locales (simp_all add: ntohl_def htonl_bytes le32_inj)

lemma le16_htons [simp]: "le16 (htons a v) = be16 v"
  by (simp add: htons_bytes be16_rev)

lemma le32_htonl [simp]: "le32 (htonl a v) = be32 v"
  by (simp add: htonl_bytes be32_rev)

subsection \<open>One field of a structure\<close>

text \<open>
  The contract of an access pair for a field of \<open>w\<close> bytes with wire image \<open>enc\<close>: a write stores the
  image, a read recognises exactly the images. What a client needs of reads after writes is derived.
\<close>

locale unaligned =
  fixes rd :: "u8 list \<Rightarrow> 'v option"
    and wr :: "u8 list \<Rightarrow> nat \<Rightarrow> 'v \<Rightarrow> u8 list option"
    and enc :: "'v \<Rightarrow> u8 list"
    and w :: nat
  assumes wr_put: "wr m p v = put m p (enc v)"
    and len_enc: "length (enc v) = w"
    and rd_enc: "rd (enc v @ rest) = Some v"
    and rd_inv: "w \<le> length bs \<Longrightarrow> \<exists>v. take w bs = enc v"
    and rd_short: "length bs < w \<Longrightarrow> rd bs = None"
begin

lemma rd_take: "rd (take w p) = rd p"
proof (cases "w \<le> length p")
  case True
  then obtain v where v: "take w p = enc v"
    using rd_inv by blast
  have "rd p = rd (take w p @ drop w p)"
    by simp
  also have "\<dots> = Some v"
    unfolding v by (rule rd_enc)
  finally show ?thesis
    using rd_enc [of v "[]"] v by simp
qed (simp add: rd_short)

lemma rd_total: "w \<le> length p \<Longrightarrow> \<exists>v. rd p = Some v"
  using rd_inv [of p] rd_take [of p] rd_enc [of _ "[]"] by (metis append_Nil2)

lemma rd_Some_iff: "(\<exists>v. rd p = Some v) \<longleftrightarrow> w \<le> length p"
  using rd_total [of p] rd_short [of p] by (cases "w \<le> length p") auto

lemma rd_SomeD: "rd p = Some v \<Longrightarrow> take w p = enc v"
  using rd_inv [of p] rd_short [of p] rd_take [of p] rd_enc [of _ "[]"]
  by (cases "w \<le> length p") auto

lemma wr_total: "p + w \<le> length m \<Longrightarrow> \<exists>m'. wr m p v = Some m'"
  by (simp add: wr_put len_enc put_total)

lemma wr_fault: "length m < p + w \<Longrightarrow> wr m p v = None"
  by (simp add: wr_put put_None_iff len_enc)

lemma rd_wr_same: "wr m p v = Some m' \<Longrightarrow> rd (drop p m') = Some v"
  by (simp add: wr_put drop_put rd_enc)

lemma rd_put_other:
  assumes "put m i bs = Some m'" and "q + w \<le> i \<or> i + length bs \<le> q"
  shows "rd (drop q m') = rd (drop q m)"
proof (cases "q + w \<le> length m")
  case True
  then have "take w (drop q m') = take w (drop q m)"
    using get_put_other [OF assms] put_length [OF assms(1)] by (simp add: get_def)
  then show ?thesis
    using rd_take [of "drop q m'"] rd_take [of "drop q m"] by simp
next
  case False
  then show ?thesis
    using put_length [OF assms(1)] rd_short [of "drop q m"] rd_short [of "drop q m'"] by fastforce
qed

lemma rd_wr_other:
  assumes "wr m p v = Some m'" and "q + w \<le> p \<or> p + w \<le> q"
  shows "rd (drop q m') = rd (drop q m)"
  using assms rd_put_other [of m p "enc v" m' q] by (simp add: wr_put len_enc)

lemma wr_length: "wr m p v = Some m' \<Longrightarrow> length m' = length m"
  by (simp add: wr_put put_length)

lemma access_contract:
  "case wr m p v of
     None \<Rightarrow> length m < p + w
   | Some m' \<Rightarrow> rd (drop p m') = Some v \<and> length m' = length m \<and>
       (\<forall>q. q + w \<le> p \<or> p + w \<le> q \<longrightarrow> rd (drop q m') = rd (drop q m))"
proof (cases "wr m p v")
  case None
  then show ?thesis
    using wr_total [of p m v] by (cases "length m < p + w") auto
next
  case (Some m')
  then show ?thesis
    using rd_wr_same [OF Some] wr_length [OF Some] rd_wr_other [OF Some] by simp
qed

end

lemma ntohs_unaligned_be16: "ntohs_unaligned (be16 v @ rest) = Some v"
proof -
  have "push_bit 8 (ucast (ucast (drop_bit 8 v) :: u8)) OR ucast (ucast v :: u8) = v"
    by (rule bits16) (simp add: bit_simps bit_beyond)
  then show ?thesis
    by (simp add: ntohs_unaligned_def be16_def)
qed

lemma ntohl_unaligned_be32: "ntohl_unaligned (be32 v @ rest) = Some v"
proof -
  have "push_bit 24 (ucast (ucast (drop_bit 24 v) :: u8)) OR push_bit 16 (ucast (ucast (drop_bit 16 v) :: u8))
      OR push_bit 8 (ucast (ucast (drop_bit 8 v) :: u8)) OR ucast (ucast v :: u8) = v"
    by (rule bits32) (simp add: bit_simps bit_beyond)
  then show ?thesis
    by (simp add: ntohl_unaligned_def be32_def numeral_eq_Suc)
qed

lemma be16_surj: "be16 (push_bit 8 (ucast b0) OR ucast b1) = [b0, b1]"
  unfolding be16_def
  by (intro arg_cong2 [where f = Cons] refl; rule bits8) (simp_all add: bit_simps bit_beyond)

lemma be32_surj:
  "be32 (push_bit 24 (ucast b0) OR push_bit 16 (ucast b1) OR push_bit 8 (ucast b2) OR ucast b3)
   = [b0, b1, b2, b3]"
  unfolding be32_def
  by (intro arg_cong2 [where f = Cons] refl; rule bits8) (simp_all add: bit_simps bit_beyond)

lemma write_htons_put: "write_htons_unaligned m p v = put m p (be16 v)"
proof -
  have "ucast (drop_bit 8 v AND 0xFF) = (ucast (drop_bit 8 v) :: u8)" "ucast (v AND 0xFF) = (ucast v :: u8)"
    by (rule bits8, simp add: bit_simps)+
  then show ?thesis
    using put_put_append [of m p "[ucast (drop_bit 8 v)]" "[ucast v]"]
    by (simp add: write_htons_unaligned_def st8_eq_put be16_def)
qed

lemma write_htonl_put: "write_htonl_unaligned m p v = put m p (be32 v)"
proof -
  have b: "ucast (drop_bit 24 v AND 0xFF) = (ucast (drop_bit 24 v) :: u8)"
    "ucast (drop_bit 16 v AND 0xFF) = (ucast (drop_bit 16 v) :: u8)"
    "ucast (drop_bit 8 v AND 0xFF) = (ucast (drop_bit 8 v) :: u8)"
    "ucast (v AND 0xFF) = (ucast v :: u8)"
    by (rule bits8, simp add: bit_simps)+
  show ?thesis
    unfolding write_htonl_unaligned_def st8_eq_put b be32_def
    by (subst put_put_append', simp)+
       (use put_put_append [of m p "[ucast (drop_bit 24 v), ucast (drop_bit 16 v), ucast (drop_bit 8 v)]"
          "[ucast v]"] in \<open>simp add: numeral_eq_Suc\<close>)
qed

lemma list_at_least_2: "2 \<le> length p \<Longrightarrow> \<exists>a b q. p = a # b # q"
  by (cases p; cases "tl p"; auto)

lemma list_at_least_4: "4 \<le> length p \<Longrightarrow> \<exists>a b c d q. p = a # b # c # d # q"
  using list_at_least_2 [of p] list_at_least_2 [of "drop 2 p"] by (auto simp: numeral_eq_Suc)

interpretation be16f: unaligned ntohs_unaligned write_htons_unaligned be16 2
proof
  show "ntohs_unaligned p = None" if "length p < 2" for p
    using that by (auto simp: ntohs_unaligned_def rd8_def)
  show "\<exists>v. take 2 p = be16 v" if "2 \<le> length p" for p
    using list_at_least_2 [OF that] be16_surj by (auto simp: numeral_eq_Suc, metis)
qed (simp_all add: write_htons_put ntohs_unaligned_be16)

interpretation be32f: unaligned ntohl_unaligned write_htonl_unaligned be32 4
proof
  show "ntohl_unaligned p = None" if "length p < 4" for p
    using that by (auto simp: ntohl_unaligned_def rd8_def)
  show "\<exists>v. take 4 p = be32 v" if "4 \<le> length p" for p
    using list_at_least_4 [OF that] be32_surj by (auto simp: numeral_eq_Suc, metis)
qed (simp_all add: write_htonl_put ntohl_unaligned_be32)

lemma be16_at_total: "off + 2 \<le> length p \<Longrightarrow> \<exists>v. ntohs_unaligned (drop off p) = Some v"
  by (rule be16f.rd_total) simp

lemma be32_at_total: "off + 4 \<le> length p \<Longrightarrow> \<exists>v. ntohl_unaligned (drop off p) = Some v"
  by (rule be32f.rd_total) simp

text \<open>A field stored natively after conversion reads back with the unaligned big-endian read.\<close>

lemma st16_htons: "st16 m p (htons a v) = put m p (be16 v)"
  by (simp add: st16_def)

lemmas [mem_defs] = st16_htons write_htons_put write_htonl_put

lemma ntohs_pair: "ntohs a (ucast b0 OR push_bit 8 (ucast b1)) = push_bit 8 (ucast (b0 :: u8)) OR ucast (b1 :: u8)"
proof -
  let ?w = "push_bit 8 (ucast b0) OR ucast b1 :: u16"
  have "ld16 (le16 (htons a ?w)) 0 = Some (ucast b0 OR push_bit 8 (ucast b1))"
    by (simp add: be16_surj ld16_def)
  moreover have "ld16 (le16 (htons a ?w)) 0 = Some (htons a ?w)"
    using ld16_le16 [of "htons a ?w" "[]"] by simp
  ultimately have "ucast b0 OR push_bit 8 (ucast b1) = htons a ?w"
    by simp
  then show ?thesis
    by (simp add: order16.ntoh_hton)
qed

text \<open>\<^verbatim>\<open>ntohs(p->field)\<close>: a native load of a field of a packed structure, converted.\<close>

definition ntohs_at :: "arch \<Rightarrow> u8 list \<Rightarrow> nat \<Rightarrow> u16 option" where
  "ntohs_at a p off = map_option (ntohs a) (ld16 p off)"

lemma ntohs_at_be: "ntohs_at a p off = ntohs_unaligned (drop off p)"
proof (cases "off + 2 \<le> length p")
  case True
  then have "ld16 p off = Some (ucast (p ! off) OR push_bit 8 (ucast (p ! (off + 1))))"
    by (simp add: ld16_def rd8_def)
  then show ?thesis
    using True by (simp add: ntohs_at_def ntohs_unaligned_def rd8_def ntohs_pair)
next
  case False
  then have "ld16 p off = None"
    by (auto simp: ld16_def rd8_def split: bind_splits)
  then show ?thesis
    using False be16f.rd_short [of "drop off p"] by (simp add: ntohs_at_def)
qed

section \<open>Properties\<close>

text \<open>
  C1: on all three targets the conversion routines, inline assembly included, are the same function:
  a 32-bit value converted to network order and stored natively lies in memory most significant byte
  first, converting it back restores it, and likewise for 16-bit values.
\<close>

theorem byte_order_conversions:
  "le32 (htonl a x) = be32 x \<and> ntohl a (htonl a x) = x \<and> htonl a x = htonl b x \<and>
   le16 (htons a y) = be16 y \<and> ntohs a (htons a y) = y \<and> htons a y = htons b y"
proof -
  have "htons a y = htons b y" and "htonl a x = htonl b x"
    by (rule le16_inj, simp) (rule le32_inj, simp)
  then show ?thesis
    using order16.ntoh_hton [of a y] order32.ntoh_hton [of a x] le32_htonl [of a x] le16_htons [of a y]
    by simp
qed

text \<open>
  the unaligned accessors write and read one field: after \<open>write_htonl_unaligned\<close> at \<open>p\<close> succeeds,
  \<open>ntohl_unaligned\<close> at \<open>p\<close> returns the value, every field of four bytes that does not overlap
  it is unchanged, the object keeps its size, and the write fails exactly when the field does not fit;
  the 16-bit pair behaves the same.
\<close>

theorem unaligned_round_trip:
  "(case write_htonl_unaligned m p v of
      None \<Rightarrow> length m < p + 4
    | Some m' \<Rightarrow> ntohl_unaligned (drop p m') = Some v \<and> length m' = length m \<and>
        (\<forall>q. q + 4 \<le> p \<or> p + 4 \<le> q \<longrightarrow> ntohl_unaligned (drop q m') = ntohl_unaligned (drop q m))) \<and>
   (case write_htons_unaligned m p u of
      None \<Rightarrow> length m < p + 2
    | Some m' \<Rightarrow> ntohs_unaligned (drop p m') = Some u \<and> length m' = length m \<and>
        (\<forall>q. q + 2 \<le> p \<or> p + 2 \<le> q \<longrightarrow> ntohs_unaligned (drop q m') = ntohs_unaligned (drop q m)))"
  using be32f.access_contract [of m p v] be16f.access_contract [of m p u] by (rule conjI)

lemma unaligned_round_trip_witness:
  "write_htonl_unaligned [0,0,0,0,0,0,0,9] 3 0x0A00020F = Some [0,0,0,0x0A,0,2,0x0F,9] \<and>
   ntohs_unaligned (drop 1 [0,0,0,0x0A,0,2,0x0F,9]) = Some 0 \<and>
   ntohl_unaligned (drop 3 [0,0,0,0x0A,0,2,0x0F,9]) = Some 0x0A00020F"
proof -
  have w: "write_htonl_unaligned [0,0,0,0,0,0,0,9] 3 0x0A00020F = Some [0,0,0,0x0A,0,2,0x0F,9]"
    by (simp add: write_htonl_unaligned_def st8_def)
  then have "ntohl_unaligned (drop 3 [0,0,0,0x0A,0,2,0x0F,9]) = Some 0x0A00020F"
    using unaligned_round_trip [of "[0,0,0,0,0,0,0,9]" 3 "0x0A00020F"] by simp
  with w show ?thesis
    by (simp add: ntohs_unaligned_def)
qed

end
