(* ===== verification/Net_Utils.thy ===== *)
theory Net_Utils
  imports Byteorder C_String
begin

text \<open>
  The printers of \<^verbatim>\<open>apps/network/net_utils.h\<close>: MAC addresses, decimal numbers through fixed character
  buffers, and dotted quads. A printer that reads memory or fills a buffer returns \<open>None\<close> when it
  would leave its object; otherwise its value is what it prints.
\<close>

definition digit :: "nat \<Rightarrow> char" where
  "digit d = char_of (48 + d)"

text \<open>\<^verbatim>\<open>for (int i = 0; i < leftpad; i++) putchar(' ');\<close>, the indentation of every packet printer.\<close>

definition print_pad :: "int \<Rightarrow> string" where
  "print_pad leftpad = replicate (nat leftpad) CHR '' ''"

fun net_print_mac_loop :: "u8 list \<Rightarrow> nat \<Rightarrow> nat \<Rightarrow> string option" where
  "net_print_mac_loop mac i 0 = Some []"
| "net_print_mac_loop mac i (Suc n) = do {
     b \<leftarrow> rd8 mac i;
     rest \<leftarrow> net_print_mac_loop mac (i + 1) n;
     Some (put_hex8 b @ (if i < 5 then '':'' else []) @ rest) }"

definition net_print_mac :: "u8 list \<Rightarrow> string option" where
  "net_print_mac mac = net_print_mac_loop mac 0 6"

definition net_print_decimal_u8 :: "u8 \<Rightarrow> string" where
  "net_print_decimal_u8 value = (let v = unat value in
     if v \<ge> 100 then
       (let v' = v mod 100 in [digit (v div 100), digit (v' div 10), digit (v' mod 10)])
     else if v \<ge> 10 then [digit (v div 10), digit (v mod 10)]
     else [digit v])"

text \<open>
  The two loops of the wider printers: the digits are stored from the least significant one on in a
  buffer of \<open>cap\<close> characters and printed backwards.
\<close>

fun decimal_loop :: "nat \<Rightarrow> string \<Rightarrow> nat \<Rightarrow> string option" where
  "decimal_loop cap buf value =
     (if value > 0
      then if length buf < cap
        then decimal_loop cap (buf @ [digit (value mod 10)]) (value div 10) else None
      else Some (rev buf))"

declare decimal_loop.simps [simp del]

definition net_print_decimal_u16 :: "u16 \<Rightarrow> string option" where
  "net_print_decimal_u16 value =
     (if value = 0 then Some ''0'' else decimal_loop 6 [] (unat value))"

definition net_print_decimal_u32 :: "u32 \<Rightarrow> string option" where
  "net_print_decimal_u32 value =
     (if value = 0 then Some ''0'' else decimal_loop 12 [] (unat value))"

definition net_print_ip :: "u32 \<Rightarrow> string" where
  "net_print_ip ip =
     net_print_decimal_u8 (ucast (drop_bit 24 ip AND 0xFF)) @ ''.'' @
     net_print_decimal_u8 (ucast (drop_bit 16 ip AND 0xFF)) @ ''.'' @
     net_print_decimal_u8 (ucast (drop_bit 8 ip AND 0xFF)) @ ''.'' @
     net_print_decimal_u8 (ucast (ip AND 0xFF))"

section \<open>Decimal numerals\<close>

fun decimal :: "nat \<Rightarrow> string" where
  "decimal n = (if n < 10 then [digit n] else decimal (n div 10) @ [digit (n mod 10)])"

declare decimal.simps [simp del]

definition digit_value :: "char \<Rightarrow> nat" where
  "digit_value c = of_char c - 48"

definition decimal_value :: "string \<Rightarrow> nat" where
  "decimal_value s = foldl (\<lambda>n c. 10 * n + digit_value c) 0 s"

lemma digit_value_digit [simp]: "d < 10 \<Longrightarrow> digit_value (digit d) = d"
  by (simp add: digit_value_def digit_def of_char_of)

lemma digit_0 [simp]: "digit 0 = CHR ''0''"
  by (simp add: digit_def char_of_def bit_0)

lemma digit_not_dot: "d < 10 \<Longrightarrow> digit d \<noteq> CHR ''.''"
proof
  assume d: "d < 10" and "digit d = CHR ''.''"
  then have "of_char (digit d) = (46 :: nat)"
    by simp
  with d show False
    by (simp add: digit_def of_char_of)
qed

lemma decimal_value_decimal: "decimal_value (decimal n) = n"
proof (induction n rule: decimal.induct)
  case (1 n)
  then show ?case
    by (cases "n < 10") (simp_all add: decimal.simps [of n] decimal_value_def)
qed

lemma decimal_inj: "decimal m = decimal n \<longleftrightarrow> m = n"
  by (metis decimal_value_decimal)

lemma decimal_no_dot: "CHR ''.'' \<notin> set (decimal n)"
proof (induction n rule: decimal.induct)
  case (1 n)
  then show ?case
    using digit_not_dot [of n] digit_not_dot [of "n mod 10"]
    by (cases "n < 10") (auto simp: decimal.simps [of n])
qed

lemma length_decimal: "0 < k \<Longrightarrow> n < 10 ^ k \<Longrightarrow> length (decimal n) \<le> k"
proof (induction k arbitrary: n)
  case (Suc k)
  show ?case
  proof (cases "n < 10")
    case True
    then show ?thesis
      by (simp add: decimal.simps [of n])
  next
    case False
    then have "0 < k"
      using Suc.prems by (cases k) auto
    moreover have "n div 10 < 10 ^ k"
      using Suc.prems by (simp add: less_mult_imp_div_less mult.commute)
    ultimately show ?thesis
      using Suc.IH [of "n div 10"] False by (simp add: decimal.simps [of n])
  qed
qed simp

lemma decimal_loop_eq:
  "0 < n \<Longrightarrow> length buf + length (decimal n) \<le> cap \<Longrightarrow> decimal_loop cap buf n = Some (decimal n @ rev buf)"
proof (induction n arbitrary: buf rule: decimal.induct)
  case (1 n)
  show ?case
  proof (cases "n < 10")
    case True
    then show ?thesis
      using 1 by (simp add: decimal_loop.simps [of cap buf n] decimal_loop.simps [of cap _ 0] decimal.simps [of n])
  next
    case False
    then have "decimal_loop cap (buf @ [digit (n mod 10)]) (n div 10) =
        Some (decimal (n div 10) @ rev (buf @ [digit (n mod 10)]))"
      using 1 by (intro 1(1)) (auto simp: decimal.simps [of n])
    then show ?thesis
      using 1 False by (simp add: decimal_loop.simps [of cap buf n] decimal.simps [of n])
  qed
qed

section \<open>What is printed\<close>

lemma print_u8 [print_defs]: "net_print_decimal_u8 v = decimal (unat v)"
proof -
  have "unat v < 256"
    by (rule unat_lt8)
  then show ?thesis
    by (auto simp: net_print_decimal_u8_def Let_def decimal.simps [of "unat v"] decimal.simps [of "unat v div 10"]
        decimal.simps [of "unat v div 100"] div_mult2_eq [symmetric] mod_mult2_eq [of _ 10 10, simplified])
qed

lemma print_u16 [print_defs]: "net_print_decimal_u16 v = Some (decimal (unat v))"
proof (cases "v = 0")
  case False
  then have "0 < unat v"
    by (simp add: unat_gt_0)
  moreover have "length (decimal (unat v)) \<le> 5"
    using unat_lt16 [of v] by (intro length_decimal) simp_all
  ultimately show ?thesis
    using False by (simp add: net_print_decimal_u16_def decimal_loop_eq)
qed (simp add: net_print_decimal_u16_def decimal.simps [of 0])

lemma print_u32 [print_defs]: "net_print_decimal_u32 v = Some (decimal (unat v))"
proof (cases "v = 0")
  case False
  then have "0 < unat v"
    by (simp add: unat_gt_0)
  moreover have "length (decimal (unat v)) \<le> 10"
    using unat_lt32 [of v] by (intro length_decimal) simp_all
  ultimately show ?thesis
    using False by (simp add: net_print_decimal_u32_def decimal_loop_eq)
qed (simp add: net_print_decimal_u32_def decimal.simps [of 0])

lemma net_print_mac_loop_total: "i + n \<le> length mac \<Longrightarrow> \<exists>s. net_print_mac_loop mac i n = Some s"
proof (induction n arbitrary: i)
  case (Suc n)
  then obtain s where "net_print_mac_loop mac (i + 1) n = Some s"
    by fastforce
  then show ?case
    using Suc.prems by (simp add: rd8_def)
qed simp

lemma net_print_mac_total: "6 \<le> length mac \<Longrightarrow> \<exists>s. net_print_mac mac = Some s"
  by (simp add: net_print_mac_def net_print_mac_loop_total)

lemma net_print_mac_at_total: "off + 6 \<le> length p \<Longrightarrow> \<exists>s. net_print_mac (drop off p) = Some s"
  by (rule net_print_mac_total) simp

lemma net_print_mac_eq:
  "net_print_mac (b0 # b1 # b2 # b3 # b4 # b5 # rest) =
   Some (put_hex8 b0 @ '':'' @ put_hex8 b1 @ '':'' @ put_hex8 b2 @ '':'' @ put_hex8 b3 @ '':'' @
     put_hex8 b4 @ '':'' @ put_hex8 b5)"
  by (simp add: net_print_mac_def numeral_eq_Suc)

lemma split_at_dot:
  "CHR ''.'' \<notin> set a \<Longrightarrow> CHR ''.'' \<notin> set c \<Longrightarrow> a @ CHR ''.'' # b = c @ CHR ''.'' # d \<Longrightarrow> a = c \<and> b = d"
proof (induction a arbitrary: c)
  case Nil
  then show ?case by (cases c) auto
next
  case (Cons x a)
  then show ?case by (cases c) auto
qed

section \<open>Properties\<close>

text \<open>
  the decimal printers print the number's decimal numeral, and the two that go through character
  buffers of 6 and 12 bytes never leave them; the numeral has the number as its value, so no two numbers print
  alike.
\<close>

theorem decimal_printers_correct:
  "net_print_decimal_u8 a = decimal (unat a) \<and>
   net_print_decimal_u16 b = Some (decimal (unat b)) \<and>
   net_print_decimal_u32 c = Some (decimal (unat c)) \<and> decimal_value (decimal n) = n"
  by (simp add: print_defs decimal_value_decimal)

text \<open>
  a dotted quad identifies its address: \<open>net_print_ip\<close> prints the four octets, most significant
  first, and is injective.
\<close>

theorem net_print_ip_inj: "net_print_ip x = net_print_ip y \<longleftrightarrow> x = y"
proof
  assume "net_print_ip x = net_print_ip y"
  then have "be32 x = be32 y"
    unfolding net_print_ip_def print_u8 be32_def
    by (auto dest!: split_at_dot [rotated 2]
        simp: decimal_no_dot decimal_inj low_byte word_unat_eq_iff [symmetric])
  then show "x = y"
    by (rule be32_inj)
qed simp

end
