(* ===== verification/Arp.thy ===== *)
theory Arp
  imports Net_Utils
begin

text \<open>
  \<^verbatim>\<open>apps/network/arp/arp.c\<close> with the packed structures of \<^verbatim>\<open>ethernet.h\<close> and \<^verbatim>\<open>arp.h\<close>. A frame is a byte
  list; \<^verbatim>\<open>arp_hdr_t *\<close> is the suffix of the frame after the Ethernet header. The fields are accessed
  at their offsets with the same accessor (native load and \<^verbatim>\<open>ntohs\<close>, or an unaligned read) as the code.
\<close>

definition ETH_P_ARP :: u16 where "ETH_P_ARP = 0x0806"
definition ETH_P_IP :: u16 where "ETH_P_IP = 0x0800"
definition ARP_HW_ETHER :: u16 where "ARP_HW_ETHER = 1"
definition ARP_OP_REQUEST :: u16 where "ARP_OP_REQUEST = 1"
definition ARP_OP_REPLY :: u16 where "ARP_OP_REPLY = 2"
definition ARP_PACKET_SIZE :: nat where "ARP_PACKET_SIZE = 42"
definition BROADCAST_MAC :: "u8 list" where "BROADCAST_MAC = [0xFF, 0xFF, 0xFF, 0xFF, 0xFF, 0xFF]"

text \<open>The structures, decoded field by field: \<^verbatim>\<open>eth_hdr_t\<close> (14 bytes) and \<^verbatim>\<open>arp_hdr_t\<close> (28 bytes).\<close>

record eth_hdr =
  eth_dst :: "u8 list"
  eth_src :: "u8 list"
  eth_type :: u16

record arp_hdr =
  arp_hw_type :: u16
  arp_proto_type :: u16
  arp_hw_len :: u8
  arp_proto_len :: u8
  arp_opcode :: u16
  arp_sender_mac :: "u8 list"
  arp_sender_ip :: u32
  arp_target_mac :: "u8 list"
  arp_target_ip :: u32

definition eth_read :: "u8 list \<Rightarrow> eth_hdr option" where
  "eth_read frame = do {
     dst \<leftarrow> get frame 0 6; src \<leftarrow> get frame 6 6; ty \<leftarrow> ntohs_unaligned (drop 12 frame);
     Some \<lparr>eth_dst = dst, eth_src = src, eth_type = ty\<rparr> }"

definition arp_read :: "arch \<Rightarrow> u8 list \<Rightarrow> arp_hdr option" where
  "arp_read a arp = do {
     hw \<leftarrow> ntohs_at a arp 0; pr \<leftarrow> ntohs_at a arp 2; hl \<leftarrow> rd8 arp 4; pl \<leftarrow> rd8 arp 5; opc \<leftarrow> ntohs_at a arp 6;
     sm \<leftarrow> get arp 8 6; si \<leftarrow> ntohl_unaligned (drop 14 arp); tm \<leftarrow> get arp 18 6; ti \<leftarrow> ntohl_unaligned (drop 24 arp);
     Some \<lparr>arp_hw_type = hw, arp_proto_type = pr, arp_hw_len = hl, arp_proto_len = pl, arp_opcode = opc,
           arp_sender_mac = sm, arp_sender_ip = si, arp_target_mac = tm, arp_target_ip = ti\<rparr> }"

section \<open>Operations\<close>

definition arp_print :: "arch \<Rightarrow> u8 list option \<Rightarrow> int \<Rightarrow> string option" where
  "arp_print a arp_ptr leftpad = (case arp_ptr of
     None \<Rightarrow> Some []
   | Some arp \<Rightarrow> do {
       opcode \<leftarrow> ntohs_at a arp 6;
       body \<leftarrow>
         (if opcode = ARP_OP_REQUEST then do {
            tip \<leftarrow> ntohl_unaligned (drop 24 arp);
            sip \<leftarrow> ntohl_unaligned (drop 14 arp);
            mac \<leftarrow> net_print_mac (drop 8 arp);
            Some (''ARP Request: who-has '' @ net_print_ip tip @ '' tell '' @ net_print_ip sip @ '' ('' @ mac @
                  '')'' @ [CHR 0x0A]) }
          else if opcode = ARP_OP_REPLY then do {
            sip \<leftarrow> ntohl_unaligned (drop 14 arp);
            mac \<leftarrow> net_print_mac (drop 8 arp);
            Some (''ARP Reply: '' @ net_print_ip sip @ '' is-at '' @ mac @ [CHR 0x0A]) }
          else Some (''ARP opcode='' @ put_hex16 opcode @ [CHR 0x0A]));
       Some (print_pad leftpad @ body) })"

definition arp_build_request :: "arch \<Rightarrow> u8 list \<Rightarrow> u8 list \<Rightarrow> u32 \<Rightarrow> u32 \<Rightarrow> u8 list option" where
  "arp_build_request a packet sender_mac sender_ip target_ip = do {
     m \<leftarrow> copy2 packet 0 BROADCAST_MAC 6 sender_mac 6;
     m \<leftarrow> st16 m 12 (htons a ETH_P_ARP);
     m \<leftarrow> st16 m 14 (htons a ARP_HW_ETHER);
     m \<leftarrow> st16 m 16 (htons a ETH_P_IP);
     m \<leftarrow> st8 m 18 6;
     m \<leftarrow> st8 m 19 4;
     m \<leftarrow> st16 m 20 (htons a ARP_OP_REQUEST);
     m \<leftarrow> copy2 m 22 sender_mac 32 (replicate 6 0) 6;
     m \<leftarrow> write_htonl_unaligned m 28 sender_ip;
     write_htonl_unaligned m 38 target_ip }"

definition arp_build_reply :: "arch \<Rightarrow> u8 list \<Rightarrow> u8 list \<Rightarrow> u32 \<Rightarrow> u8 list \<Rightarrow> u32 \<Rightarrow> u8 list option" where
  "arp_build_reply a packet sender_mac sender_ip target_mac target_ip = do {
     m \<leftarrow> copy2 packet 0 target_mac 6 sender_mac 6;
     m \<leftarrow> st16 m 12 (htons a ETH_P_ARP);
     m \<leftarrow> st16 m 14 (htons a ARP_HW_ETHER);
     m \<leftarrow> st16 m 16 (htons a ETH_P_IP);
     m \<leftarrow> st8 m 18 6;
     m \<leftarrow> st8 m 19 4;
     m \<leftarrow> st16 m 20 (htons a ARP_OP_REPLY);
     m \<leftarrow> copy2 m 22 sender_mac 32 target_mac 6;
     m \<leftarrow> write_htonl_unaligned m 28 sender_ip;
     write_htonl_unaligned m 38 target_ip }"

text \<open>
  \<open>arp_parse\<close> returns the header pointer (\<open>None\<close>: NULL) and the contents of \<^verbatim>\<open>*out_arp\<close> afterwards, where
  \<open>out_arp = None\<close> is a NULL argument.
\<close>

definition arp_parse ::
  "u8 list \<Rightarrow> nat \<Rightarrow> u8 list option \<Rightarrow> (u8 list option \<times> u8 list option) option" where
  "arp_parse packet len out_arp =
     (if len < ARP_PACKET_SIZE then Some (None, out_arp)
      else case out_arp of
        None \<Rightarrow> Some (Some (drop 14 packet), None)
      | Some _ \<Rightarrow> do { hdr \<leftarrow> get packet 14 28; Some (Some (drop 14 packet), Some hdr) })"

section \<open>The image of a frame\<close>

definition arp_image :: "u8 list \<Rightarrow> u16 \<Rightarrow> u8 list \<Rightarrow> u32 \<Rightarrow> u8 list \<Rightarrow> u32 \<Rightarrow> u8 list" where
  "arp_image dst opc sm si tm ti =
     dst @ sm @ be16 ETH_P_ARP @ be16 ARP_HW_ETHER @ be16 ETH_P_IP @ [6, 4] @ be16 opc @ sm @ be32 si @ tm @ be32 ti"

lemma arp_fill_eq:
  assumes "42 \<le> length m" and "6 \<le> length d" and "6 \<le> length s" and "6 \<le> length t"
  shows "do {
     m \<leftarrow> copy2 m 0 d 6 s 6;
     m \<leftarrow> st16 m 12 (htons a ETH_P_ARP);
     m \<leftarrow> st16 m 14 (htons a ARP_HW_ETHER);
     m \<leftarrow> st16 m 16 (htons a ETH_P_IP);
     m \<leftarrow> st8 m 18 6;
     m \<leftarrow> st8 m 19 4;
     m \<leftarrow> st16 m 20 (htons a opc);
     m \<leftarrow> copy2 m 22 s 32 t 6;
     m \<leftarrow> write_htonl_unaligned m 28 si;
     write_htonl_unaligned m 38 ti } = put m 0 (arp_image (take 6 d) opc (take 6 s) si (take 6 t) ti)"
proof -
  have c1: "copy2 m 0 d 6 s 6 = put m 0 (take 6 d @ take 6 s)"
    using assms by (simp add: copy2_eq_put put_chain)
  obtain m1 where m1: "put m 0 (take 6 d @ take 6 s @ be16 ETH_P_ARP @ be16 ARP_HW_ETHER @ be16 ETH_P_IP @ [6, 4] @ be16 opc)
      = Some m1"
    using put_total [of 0 "take 6 d @ take 6 s @ be16 ETH_P_ARP @ be16 ARP_HW_ETHER @ be16 ETH_P_IP @ [6, 4] @ be16 opc" m]
      assms by auto
  have c2: "copy2 m1 22 s 32 t 6 = Option.bind (put m1 22 (take 6 s)) (\<lambda>m'. put m' 32 (take 6 t))"
    using assms put_length [OF m1] by (simp add: copy2_eq_put)
  have "Option.bind (put m1 22 (take 6 s)) (\<lambda>m. Option.bind (put m 32 (take 6 t)) (\<lambda>m.
      Option.bind (put m 28 (be32 si)) (\<lambda>m. put m 38 (be32 ti)))) = put m1 22 (take 6 s @ be32 si @ take 6 t @ be32 ti)"
    using assms by (simp add: put_commute' [of 32 _ 28] put_chain)
  also have "\<dots> = put m 0 (arp_image (take 6 d) opc (take 6 s) si (take 6 t) ti)"
    using assms put_put_append [of m 0 "take 6 d @ take 6 s @ be16 ETH_P_ARP @ be16 ARP_HW_ETHER @ be16 ETH_P_IP @
        [6, 4] @ be16 opc" "take 6 s @ be32 si @ take 6 t @ be32 ti"] m1
    by (simp add: arp_image_def)
  finally show ?thesis
    using assms m1 unfolding c1 mem_defs by (simp add: put_chain c2)
qed

lemma arp_build_reply_eq:
  "42 \<le> length m \<Longrightarrow> 6 \<le> length s \<Longrightarrow> 6 \<le> length t \<Longrightarrow>
   arp_build_reply a m s si t ti = put m 0 (arp_image (take 6 t) ARP_OP_REPLY (take 6 s) si (take 6 t) ti)"
  unfolding arp_build_reply_def by (rule arp_fill_eq)

lemma arp_build_request_eq:
  "42 \<le> length m \<Longrightarrow> 6 \<le> length s \<Longrightarrow>
   arp_build_request a m s si ti = put m 0 (arp_image BROADCAST_MAC ARP_OP_REQUEST (take 6 s) si (replicate 6 0) ti)"
  using arp_fill_eq [of m BROADCAST_MAC s "replicate 6 0" a ARP_OP_REQUEST si ti]
  by (simp add: arp_build_request_def BROADCAST_MAC_def)

lemma length_arp_image: "length d = 6 \<Longrightarrow> length s = 6 \<Longrightarrow> length t = 6 \<Longrightarrow> length (arp_image d opc s si t ti) = 42"
  by (simp add: arp_image_def)

lemma arp_image_read:
  assumes "length d = 6" and "length s = 6" and "length t = 6"
  shows "eth_read (arp_image d opc s si t ti @ rest) = Some \<lparr>eth_dst = d, eth_src = s, eth_type = ETH_P_ARP\<rparr>"
    and "arp_read a (drop 14 (arp_image d opc s si t ti @ rest)) = Some
      \<lparr>arp_hw_type = ARP_HW_ETHER, arp_proto_type = ETH_P_IP, arp_hw_len = 6, arp_proto_len = 4, arp_opcode = opc,
       arp_sender_mac = s, arp_sender_ip = si, arp_target_mac = t, arp_target_ip = ti\<rparr>"
  using assms
  by (simp_all add: eth_read_def arp_read_def arp_image_def get_def ntohs_at_be be16f.rd_enc be32f.rd_enc rd8_append)

text \<open>A frame carries an ARP message when a receiver reads it back through \<open>arp_parse\<close>.\<close>

definition arp_message :: "u16 \<Rightarrow> u8 list \<Rightarrow> u32 \<Rightarrow> u8 list \<Rightarrow> u32 \<Rightarrow> arp_hdr" where
  "arp_message opc sm si tm ti = \<lparr>arp_hw_type = ARP_HW_ETHER, arp_proto_type = ETH_P_IP, arp_hw_len = 6,
     arp_proto_len = 4, arp_opcode = opc, arp_sender_mac = sm, arp_sender_ip = si, arp_target_mac = tm,
     arp_target_ip = ti\<rparr>"

definition carries_arp :: "arch \<Rightarrow> u8 list \<Rightarrow> u8 list \<Rightarrow> arp_hdr \<Rightarrow> bool" where
  "carries_arp a frame dst msg \<longleftrightarrow>
     eth_read frame = Some \<lparr>eth_dst = dst, eth_src = arp_sender_mac msg, eth_type = ETH_P_ARP\<rparr> \<and>
     (\<exists>r. arp_parse frame (length frame) None = Some (Some r, None) \<and> arp_read a r = Some msg)"

lemma arp_image_carries:
  assumes "ARP_PACKET_SIZE \<le> length packet" and "length d = 6" and "length s = 6" and "length t = 6"
  shows "\<exists>m. put packet 0 (arp_image d opc s si t ti) = Some m \<and> length m = length packet \<and>
    drop ARP_PACKET_SIZE m = drop ARP_PACKET_SIZE packet \<and> carries_arp b m d (arp_message opc s si t ti)"
proof -
  let ?im = "arp_image d opc s si t ti"
  have len: "length ?im = 42"
    using assms by (simp add: length_arp_image)
  then obtain m where m: "put packet 0 ?im = Some m"
    using put_total [of 0 ?im packet] assms(1) by (auto simp: ARP_PACKET_SIZE_def)
  then have "m = ?im @ drop 42 packet"
    using len by (simp add: put_def split: if_splits)
  moreover have "length m = length packet"
    using m by (rule put_length)
  ultimately show ?thesis
    using m arp_image_read(1) [OF assms(2-4), of opc si ti "drop 42 packet"]
      arp_image_read(2) [OF assms(2-4), of b opc si ti "drop 42 packet"] len assms(1)
    by (simp add: carries_arp_def arp_message_def arp_parse_def ARP_PACKET_SIZE_def)
qed

section \<open>Properties\<close>

text \<open>
  C3: \<open>arp_build_reply\<close> and \<open>arp_build_request\<close> succeed on every buffer of at least
  \<open>ARP_PACKET_SIZE\<close> bytes, change its first 42 bytes only, and what a receiver (on any target) reads
  back through \<open>arp_parse\<close> is exactly the message: the Ethernet header with the right addresses and
  type, and the ARP header with every field.
\<close>

theorem arp_build_round_trip:
  assumes "ARP_PACKET_SIZE \<le> length packet" and "length smac = 6" and "length tmac = 6"
  shows "(\<exists>m. arp_build_reply a packet smac sip tmac tip = Some m \<and> length m = length packet \<and>
      drop ARP_PACKET_SIZE m = drop ARP_PACKET_SIZE packet \<and>
      carries_arp b m tmac (arp_message ARP_OP_REPLY smac sip tmac tip)) \<and>
    (\<exists>m. arp_build_request a packet smac sip tip = Some m \<and> length m = length packet \<and>
      drop ARP_PACKET_SIZE m = drop ARP_PACKET_SIZE packet \<and>
      carries_arp b m BROADCAST_MAC (arp_message ARP_OP_REQUEST smac sip (replicate 6 0) tip))"
  using assms arp_image_carries [OF assms(1,3,2,3), of ARP_OP_REPLY sip tip b]
    arp_image_carries [OF assms(1) _ assms(2), of BROADCAST_MAC "replicate 6 0" ARP_OP_REQUEST sip tip b]
  by (simp add: arp_build_reply_eq arp_build_request_eq ARP_PACKET_SIZE_def BROADCAST_MAC_def)

lemma arp_build_round_trip_witness:
  "\<exists>m. arp_build_reply RISCV (replicate 64 0) [0x52,0x54,0,0x12,0x34,0x56] 0x0A00020F [1,2,3,4,5,6] 0x0A000202 = Some m \<and>
     carries_arp ARM64 m [1,2,3,4,5,6]
       (arp_message ARP_OP_REPLY [0x52,0x54,0,0x12,0x34,0x56] 0x0A00020F [1,2,3,4,5,6] 0x0A000202)"
  using arp_build_round_trip [of "replicate 64 0" "[0x52,0x54,0,0x12,0x34,0x56]" "[1,2,3,4,5,6]" RISCV "0x0A00020F"
      "0x0A000202" ARM64]
  by (auto simp: ARP_PACKET_SIZE_def)

text \<open>
  \<open>arp_parse\<close> rejects exactly the frames shorter than 42 bytes, and on the others the header it
  returns is inside the frame: printing it, whatever its contents, reads no byte outside.
\<close>

theorem arp_parse_print_safe:
  "case arp_parse frame (length frame) out of
     None \<Rightarrow> False
   | Some (None, out') \<Rightarrow> length frame < ARP_PACKET_SIZE \<and> out' = out \<and> arp_print a None leftpad = Some []
   | Some (Some r, out') \<Rightarrow> ARP_PACKET_SIZE \<le> length frame \<and> r = drop 14 frame \<and>
       out' = map_option (\<lambda>_. take 28 r) out \<and> (\<exists>s. arp_print a (Some r) leftpad = Some s)"
proof (cases "length frame < ARP_PACKET_SIZE")
  case False
  then have long: "42 \<le> length frame"
    by (simp add: ARP_PACKET_SIZE_def)
  moreover have "6 \<le> length (drop 22 frame)"
    using long by simp
  ultimately obtain opc tip sip mac where "ntohs_at a (drop 14 frame) 6 = Some opc"
    "ntohl_unaligned (drop 24 (drop 14 frame)) = Some tip" "ntohl_unaligned (drop 14 (drop 14 frame)) = Some sip"
    "net_print_mac (drop 8 (drop 14 frame)) = Some mac"
    using be16_at_total [of 20 frame] be32_at_total [of 38 frame] be32_at_total [of 28 frame]
      net_print_mac_total [of "drop 22 frame"] by (auto simp: ntohs_at_be)
  then have "\<exists>s. arp_print a (Some (drop 14 frame)) leftpad = Some s"
    by (simp add: arp_print_def)
  then show ?thesis
    using False long by (simp add: arp_parse_def get_def split: option.splits)
qed (simp add: arp_parse_def arp_print_def)

end
