(* ===== verification/Net_Checksum.thy ===== *)
theory Net_Checksum
  imports Byteorder
begin

text \<open>
  The Internet checksum as \<^verbatim>\<open>ipv4.c\<close>, \<^verbatim>\<open>icmp.c\<close> and \<^verbatim>\<open>tcp.c\<close> compute it: a 32-bit sum of 16-bit words in
  network order, folded to 16 bits. The loops are shared by the three protocols; the locale states
  what a summation must do for a checksum field, and proves once that a field filled with the
  complement of the sum makes the whole object sum to \<open>0xFFFF\<close>.
\<close>

text \<open>\<^verbatim>\<open>while (sum >> 16) sum = (sum & 0xFFFF) + (sum >> 16);\<close>\<close>

lemma fold_step_unat: "unat ((s AND 0xFFFF) + drop_bit 16 (s :: u32)) = unat s mod 65536 + unat s div 65536"
proof -
  have "unat s div 65536 < 65536"
    using unat_lt32 [of s] by simp
  then show ?thesis
    by (simp add: unat_word_ariths unat_shr)
qed

lemma fold_test_unat: "drop_bit 16 (s :: u32) = 0 \<longleftrightarrow> unat s < 65536"
proof -
  have "drop_bit 16 s = 0 \<longleftrightarrow> unat (drop_bit 16 s) = 0"
    by (simp only: unat_eq_zero)
  also have "\<dots> \<longleftrightarrow> unat s < 65536"
    by (simp add: unat_shr div_eq_0_iff)
  finally show ?thesis .
qed

lemma split_65536: "n = n div 65536 * 65536 + n mod (65536 :: nat)"
  by (rule div_mult_mod_eq [symmetric])

lemma div_65536_pos: "65536 \<le> n \<Longrightarrow> 1 \<le> n div (65536 :: nat)"
  by (simp add: Suc_le_eq div_greater_zero_iff)

lemma fold_less: "65536 \<le> n \<Longrightarrow> n mod 65536 + n div 65536 < (n :: nat)"
  using split_65536 [of n] div_65536_pos [of n] by linarith

function cksum_fold :: "u32 \<Rightarrow> u32" where
  "cksum_fold s = (if drop_bit 16 s \<noteq> 0 then cksum_fold ((s AND 0xFFFF) + drop_bit 16 s) else s)"
  by pat_completeness auto
termination
  by (relation "measure unat") (simp_all add: fold_test_unat fold_step_unat fold_less)

declare cksum_fold.simps [simp del]

text \<open>The value of the fold: the sum modulo \<open>0xFFFF\<close>, represented in \<open>1 \<dots> 0xFFFF\<close> unless it is 0.\<close>

lemma fold_mod: "65536 \<le> n \<Longrightarrow> (n mod 65536 + n div 65536 - 1) mod 65535 = (n - 1) mod (65535 :: nat)"
proof -
  assume n: "65536 \<le> n"
  have "n = n div 65536 * 65535 + (n mod 65536 + n div 65536)"
    using split_65536 [of n] by linarith
  moreover have "1 \<le> n mod 65536 + n div 65536"
    using div_65536_pos [OF n] by linarith
  ultimately have "n - 1 = n div 65536 * 65535 + (n mod 65536 + n div 65536 - 1)"
    by linarith
  then have "(n - 1) mod 65535 = (n div 65536 * 65535 + (n mod 65536 + n div 65536 - 1)) mod 65535"
    by (rule arg_cong)
  then show ?thesis
    by simp
qed

lemma cksum_fold_value:
  "unat (cksum_fold s) = (if s = 0 then 0 else (unat s - 1) mod 65535 + 1)"
proof (induction s rule: cksum_fold.induct)
  case (1 s)
  show ?case
  proof (cases "unat s < 65536")
    case True
    moreover have "0 < unat s" if "s \<noteq> 0"
      using that by (simp add: unat_gt_0)
    ultimately show ?thesis
      by (auto simp: cksum_fold.simps [of s] fold_test_unat)
  next
    case False
    let ?t = "(s AND 0xFFFF) + drop_bit 16 s"
    have t: "unat ?t = unat s mod 65536 + unat s div 65536"
      by (rule fold_step_unat)
    have "0 < unat s mod 65536 + unat s div 65536"
      using False div_65536_pos [of "unat s"] by linarith
    then have "?t \<noteq> 0"
      using t by (metis less_irrefl unat_0)
    moreover have "s \<noteq> 0"
      using False by auto
    ultimately show ?thesis
      using 1 False t fold_mod [of "unat s"]
      by (simp add: cksum_fold.simps [of s] fold_test_unat)
  qed
qed

lemma cksum_fold_lt: "unat (cksum_fold s) \<le> 65535"
  using cksum_fold_value [of s] by (auto simp: less_Suc_eq_le [symmetric])

text \<open>\<^verbatim>\<open>(uint16_t)~sum\<close> after the fold.\<close>

definition cksum_not :: "u32 \<Rightarrow> u16" where
  "cksum_not s = ucast (NOT (cksum_fold s))"

lemma unat_cksum_not: "unat (cksum_not s) = 65535 - unat (cksum_fold s)"
proof -
  have "NOT (cksum_fold s) = 0xFFFFFFFF - cksum_fold s"
    by (simp add: not_eq_complement)
  moreover have "unat (0xFFFFFFFF - cksum_fold s) = unat (0xFFFFFFFF :: u32) - unat (cksum_fold s)"
    using cksum_fold_lt [of s] by (intro unat_sub) (simp add: word_le_nat_alt)
  ultimately have "unat (NOT (cksum_fold s)) = 4294967295 - unat (cksum_fold s)"
    by simp
  also have "\<dots> = (65535 - unat (cksum_fold s)) + 65535 * 65536"
    using cksum_fold_lt [of s] by simp
  finally have "unat (NOT (cksum_fold s)) mod 65536 = 65535 - unat (cksum_fold s)"
    by (simp only: mod_mult_self1) simp
  then show ?thesis
    by (simp add: cksum_not_def unat_ucast_mod)
qed

lemma cksum_complete:
  assumes "unat s + 65535 < 4294967296"
  shows "cksum_fold (s + ucast (cksum_not s)) = 0xFFFF"
proof -
  have u: "unat (s + ucast (cksum_not s)) = unat s + (65535 - unat (cksum_fold s))"
    using assms cksum_fold_lt [of s]
    by (simp add: unat_word_ariths unat_ucast_up unat_cksum_not)
  have "unat (cksum_fold (s + ucast (cksum_not s))) = 65535"
  proof (cases "s = 0")
    case True
    then have "unat (0xFFFF :: u32) = unat (s + ucast (cksum_not s))"
      using u by (simp add: cksum_fold_value)
    then have "s + ucast (cksum_not s) = 0xFFFF"
      by (simp only: word_unat_eq_iff)
    then show ?thesis
      by (simp add: cksum_fold_value)
  next
    case False
    then have pos: "0 < unat s"
      by (simp add: unat_gt_0)
    have f: "unat (cksum_fold s) = (unat s - 1) mod 65535 + 1"
      using False by (simp add: cksum_fold_value)
    have "unat s - 1 = (unat s - 1) div 65535 * 65535 + (unat s - 1) mod 65535"
      by (rule div_mult_mod_eq [symmetric])
    then have total: "unat s + (65535 - unat (cksum_fold s)) = (unat s - 1) div 65535 * 65535 + 65535"
      using f pos mod_less_divisor [of 65535 "unat s - 1"] by linarith
    have "(unat s + (65535 - unat (cksum_fold s)) - 1) mod 65535 = 65534"
    proof -
      have "unat s + (65535 - unat (cksum_fold s)) - 1 = 65534 + (unat s - 1) div 65535 * 65535"
        using total by simp
      then show ?thesis
        by (simp only: mod_mult_self1) simp
    qed
    moreover have "s + ucast (cksum_not s) \<noteq> 0"
      using u pos by (metis add_is_0 less_irrefl unat_0)
    ultimately show ?thesis
      using u by (simp add: cksum_fold_value)
  qed
  then show ?thesis
    by (simp add: word_unat_eq_iff)
qed

section \<open>Sums of words\<close>

text \<open>\<^verbatim>\<open>for (i = 0; i < n; i++) sum += ntohs(ptr[i]);\<close> over \<open>ptr\<close> as an array of native 16-bit words.\<close>

fun sum16 :: "arch \<Rightarrow> u8 list \<Rightarrow> nat \<Rightarrow> nat \<Rightarrow> u32 \<Rightarrow> u32 option" where
  "sum16 a p i 0 s = Some s"
| "sum16 a p i (Suc n) s = do { w \<leftarrow> ld16 p (2 * i); sum16 a p (i + 1) n (s + ucast (ntohs a w)) }"

definition word16 :: "u8 list \<Rightarrow> nat \<Rightarrow> u16" where
  "word16 m j = push_bit 8 (ucast (m ! j)) OR ucast (m ! (j + 1))"

lemma sum16_eq:
  "2 * (i + n) \<le> length p \<Longrightarrow> sum16 a p i n s = Some (s + (\<Sum>k = i..<i + n. ucast (word16 p (2 * k))))"
proof (induction n arbitrary: i s)
  case (Suc n)
  have "ld16 p (2 * i) = Some (ucast (p ! (2 * i)) OR push_bit 8 (ucast (p ! (2 * i + 1))))"
    using Suc.prems by (simp add: ld16_def rd8_def)
  then have "sum16 a p i (Suc n) s = sum16 a p (i + 1) n (s + ucast (word16 p (2 * i)))"
    by (simp add: ntohs_pair word16_def)
  also have "\<dots> = Some (s + ucast (word16 p (2 * i)) + (\<Sum>k = i + 1..<i + 1 + n. ucast (word16 p (2 * k))))"
    using Suc.prems by (intro Suc.IH) simp
  also have "\<dots> = Some (s + (\<Sum>k = i..<i + Suc n. ucast (word16 p (2 * k))))"
    by (simp add: sum.atLeast_Suc_lessThan add.assoc)
  finally show ?case .
qed simp

lemma sum16_fault: "length p < 2 * (i + n) \<Longrightarrow> 0 < n \<Longrightarrow> sum16 a p i n s = None"
proof (induction n arbitrary: i s)
  case (Suc n)
  show ?case
  proof (cases "2 * i + 1 < length p")
    case True
    then have "0 < n"
      using Suc.prems by (cases n) auto
    then show ?thesis
      using Suc.IH [of "i + 1"] Suc.prems by (cases "ld16 p (2 * i)") auto
  next
    case False
    then show ?thesis
      by (auto simp: ld16_def rd8_def split: bind_splits)
  qed
qed simp

lemma unat_sum_words: "unat (\<Sum>k\<in>A. ucast (f k :: u16) :: u32) \<le> card A * 65535" if "finite A"
  using that
proof (induction rule: finite_induct)
  case (insert x A)
  have "unat (\<Sum>k\<in>insert x A. ucast (f k) :: u32) \<le> unat (ucast (f x) :: u32) + unat (\<Sum>k\<in>A. ucast (f k) :: u32)"
    using insert(1,2) by (simp add: unat_word_ariths)
  also have "\<dots> \<le> 65535 + card A * 65535"
    using insert(3) unat_lt16 [of "f x"] by (simp add: unat_ucast_up)
  finally show ?case
    using insert(1,2) by simp
qed simp

text \<open>Filling one word that was zero adds it to the sum.\<close>

lemma word16_put_same:
  assumes "put m j (be16 c) = Some m'"
  shows "word16 m' j = c"
proof -
  have b: "j + 2 \<le> length m'"
    using assms put_length [OF assms] by (auto simp: put_def split: if_splits)
  then have "[m' ! j, m' ! (j + 1)] = take 2 (drop j m')"
    by (simp add: numeral_2_eq_2 take_Suc_conv_app_nth)
  also have "\<dots> = be16 c"
    using drop_put [OF assms] by simp
  finally have "be16 (word16 m' j) = be16 c"
    by (simp add: word16_def be16_surj)
  then show ?thesis
    by (rule be16_inj)
qed

lemma word16_put_other:
  assumes "put m j bs = Some m'" and "i + 2 \<le> j \<or> j + length bs \<le> i" and "i + 2 \<le> length m"
  shows "word16 m' i = word16 m i"
proof -
  have "rd8 m' i = rd8 m i" and "rd8 m' (i + 1) = rd8 m (i + 1)"
    using assms by (auto simp: rd8_put [OF assms(1)])
  then show ?thesis
    using assms(3) put_length [OF assms(1)] by (simp add: word16_def rd8_def)
qed

lemma sum_words_put:
  assumes zero: "word16 m (2 * k) = 0" and put: "put m (2 * k) (be16 c) = Some m'"
    and k: "k < n" and len: "2 * n \<le> length m"
  shows "(\<Sum>i = 0..<n. ucast (word16 m' (2 * i)) :: u32) = (\<Sum>i = 0..<n. ucast (word16 m (2 * i))) + ucast c"
proof -
  have other: "word16 m' (2 * i) = word16 m (2 * i)" if "i \<in> {0..<n} - {k}" for i
    using that len by (intro word16_put_other [OF put]) auto
  have "(\<Sum>i = 0..<n. ucast (word16 m' (2 * i)) :: u32) =
      ucast c + (\<Sum>i \<in> {0..<n} - {k}. ucast (word16 m (2 * i)))"
    using k word16_put_same [OF put] other by (simp add: sum.remove [of _ k])
  moreover have "(\<Sum>i = 0..<n. ucast (word16 m (2 * i)) :: u32) = (\<Sum>i \<in> {0..<n} - {k}. ucast (word16 m (2 * i)))"
    using k zero by (simp add: sum.remove [of _ k])
  ultimately show ?thesis
    by (simp add: add.commute)
qed

lemma le16_0 [simp]: "le16 0 = be16 0"
  by (simp add: le16_def be16_def)

lemma htons_0 [simp]: "htons a 0 = 0"
  by (rule le16_inj) simp

section \<open>The contract of a checksum field\<close>

text \<open>
  \<open>sum_of\<close> is the 32-bit sum a protocol folds, \<open>off\<close> the offset of its checksum field: the field
  contributes its value, and the sum is far enough from \<open>2 ^ 32\<close>.
\<close>

locale checksum_field =
  fixes sum_of :: "u8 list \<Rightarrow> u32 option" and off :: nat
  assumes field_adds:
      "word16 m off = 0 \<Longrightarrow> sum_of m = Some s \<Longrightarrow> put m off (be16 c) = Some m' \<Longrightarrow> sum_of m' = Some (s + ucast c)"
    and sum_small: "sum_of m = Some s \<Longrightarrow> unat s + 65535 < 4294967296"
begin

lemma filled_sums_to_ones:
  assumes "word16 m off = 0" and "sum_of m = Some s" and "put m off (be16 (cksum_not s)) = Some m'"
  shows "map_option cksum_fold (sum_of m') = Some 0xFFFF"
  using field_adds [OF assms] cksum_complete [OF sum_small [OF assms(2)]] by simp

lemma filled_checks_to_zero:
  assumes "word16 m off = 0" and "sum_of m = Some s" and "put m off (be16 (cksum_not s)) = Some m'"
  shows "map_option cksum_not (sum_of m') = Some 0"
  using field_adds [OF assms] cksum_complete [OF sum_small [OF assms(2)]]
  by (simp add: cksum_not_def)

text \<open>
  A builder's last step: the image with a zero field is at \<open>p\<close>, the complement of its sum goes into
  the field. The result is the image with the field filled in, and it checks.
\<close>

lemma filled_in_place:
  assumes m1: "put m p im = Some m1" and zero: "take 2 (drop off im) = [0, 0]" and s: "sum_of (drop p m1) = Some s"
  shows "\<exists>m2. put m1 (p + off) (be16 (cksum_not s)) = Some m2 \<and>
    put m p (take off im @ be16 (cksum_not s) @ drop (off + 2) im) = Some m2 \<and>
    map_option cksum_not (sum_of (drop p m2)) = Some 0 \<and> map_option cksum_fold (sum_of (drop p m2)) = Some 0xFFFF"
proof -
  have off: "off + 2 \<le> length im"
    using take_eq_length_le [OF zero] by simp
  have len: "length m1 = length m" and fits: "p + length im \<le> length m"
    using m1 by (auto simp: put_def split: if_splits)
  obtain m2 where m2: "put m1 (p + off) (be16 (cksum_not s)) = Some m2"
    using put_total [of "p + off" "be16 (cksum_not s)" m1] off fits len by auto
  have "drop p m1 = im @ drop (p + length im) m"
    by (rule drop_put [OF m1])
  then have "drop p m1 ! off = im ! off" and "drop p m1 ! (off + 1) = im ! (off + 1)"
    using off by (simp_all add: nth_append)
  moreover have "im ! off = take 2 (drop off im) ! 0" and "im ! (off + 1) = take 2 (drop off im) ! 1"
    using off by simp_all
  ultimately have z: "word16 (drop p m1) off = 0"
    by (simp add: word16_def zero)
  have "put (drop p m1) off (be16 (cksum_not s)) = Some (drop p m2)"
    using put_drop [of p m1 off "be16 (cksum_not s)"] m2 fits len by simp
  then show ?thesis
    using m2 put_inside [OF m1, of off "be16 (cksum_not s)"] off
      filled_checks_to_zero [OF z s] filled_sums_to_ones [OF z s] by simp
qed

end

text \<open>The word array of a header is such a sum.\<close>

lemma sum16_checksum_field:
  assumes "k < n" and "n \<le> 32000"
  shows "checksum_field (\<lambda>m. sum16 a m 0 n 0) (2 * k)"
proof
  fix m s c m'
  assume z: "word16 m (2 * k) = 0" and s: "sum16 a m 0 n 0 = Some s" and p: "put m (2 * k) (be16 c) = Some m'"
  have len: "2 * n \<le> length m"
    using s sum16_fault [of m 0 n a 0] assms(1) by (metis add_0 not_le option.distinct(1) gr_implies_not0 neq0_conv)
  then show "sum16 a m' 0 n 0 = Some (s + ucast c)"
    using sum16_eq [of 0 n m a 0] sum16_eq [of 0 n m' a 0] s put_length [OF p]
      sum_words_put [OF z p assms(1) len] by simp
next
  fix m s
  assume s: "sum16 a m 0 n 0 = Some s"
  have len: "2 * n \<le> length m"
    using s sum16_fault [of m 0 n a 0] assms(1) by (metis add_0 not_le option.distinct(1) gr_implies_not0 neq0_conv)
  then show "unat s + 65535 < 4294967296"
    using sum16_eq [of 0 n m a 0] s unat_sum_words [of "{0..<n}" "\<lambda>k. word16 m (2 * k)"] assms(2)
    by simp
qed

end
