(* ===== verification/Icmp.thy ===== *)
theory Icmp
  imports Net_Utils Net_Checksum
begin

text \<open>
  \<^verbatim>\<open>apps/network/icmp/icmp.c\<close>. An \<^verbatim>\<open>icmp_hdr_t *\<close> that is written is an object with an offset; the
  packed header has \<^verbatim>\<open>type\<close> at 0, \<^verbatim>\<open>code\<close> at 1, \<^verbatim>\<open>checksum\<close> at 2, \<^verbatim>\<open>id\<close> at 4, \<^verbatim>\<open>sequence\<close> at 6, in 8 bytes.
\<close>

definition ICMP_ECHO_REPLY :: u8 where "ICMP_ECHO_REPLY = 0"
definition ICMP_ECHO_REQUEST :: u8 where "ICMP_ECHO_REQUEST = 8"

definition icmp_checksum :: "arch \<Rightarrow> u8 list \<Rightarrow> u64 \<Rightarrow> u16 option" where
  "icmp_checksum a header len =
     (if len < 8 then Some 0
      else do { s \<leftarrow> sum16 a header 0 4 0; Some (htons a (cksum_not s)) })"

definition icmp_print :: "u8 list option \<Rightarrow> u64 \<Rightarrow> int \<Rightarrow> string option" where
  "icmp_print packet len leftpad = (case packet of
     None \<Rightarrow> Some (''[ICMP] Packet too small'' @ [CHR 0x0A])
   | Some icmp \<Rightarrow>
       if len < 8 then Some (''[ICMP] Packet too small'' @ [CHR 0x0A])
       else do {
         id \<leftarrow> ntohs_unaligned (drop 4 icmp);
         sq \<leftarrow> ntohs_unaligned (drop 6 icmp);
         ty \<leftarrow> rd8 icmp 0;
         code \<leftarrow> rd8 icmp 1;
         id_s \<leftarrow> net_print_decimal_u16 id;
         sq_s \<leftarrow> net_print_decimal_u16 sq;
         Some (print_pad leftpad @ ''[ICMP] type='' @ net_print_decimal_u8 ty @ '' code='' @ net_print_decimal_u8 code @
               '' id='' @ id_s @ '' seq='' @ sq_s @ '' len='' @ net_print_decimal_u8 (ucast len) @ [CHR 0x0A]) })"

definition icmp_build_request :: "arch \<Rightarrow> u8 list \<Rightarrow> nat \<Rightarrow> u16 \<Rightarrow> u16 \<Rightarrow> u8 list option" where
  "icmp_build_request a m p ident sequence = do {
     m \<leftarrow> st8 m p ICMP_ECHO_REQUEST;
     m \<leftarrow> st8 m (p + 1) 0;
     m \<leftarrow> st16 m (p + 2) 0;
     m \<leftarrow> st16 m (p + 4) (htons a ident);
     m \<leftarrow> st16 m (p + 6) (htons a sequence);
     ck \<leftarrow> icmp_checksum a (drop p m) 8;
     st16 m (p + 2) ck }"

definition icmp_build_response :: "arch \<Rightarrow> u8 list \<Rightarrow> nat \<Rightarrow> u16 \<Rightarrow> u16 \<Rightarrow> u8 list option" where
  "icmp_build_response a m p ident sequence = do {
     m \<leftarrow> st8 m p ICMP_ECHO_REPLY;
     m \<leftarrow> st8 m (p + 1) 0;
     m \<leftarrow> st16 m (p + 2) 0;
     m \<leftarrow> st16 m (p + 4) (htons a ident);
     m \<leftarrow> st16 m (p + 6) (htons a sequence);
     ck \<leftarrow> icmp_checksum a (drop p m) 8;
     st16 m (p + 2) ck }"

text \<open>
  The output parameters of \<^verbatim>\<open>icmp_parse\<close>: a NULL pointer is \<open>None\<close>, otherwise the contents of the
  variable it points to.
\<close>

record icmp_out =
  out_type :: "u8 option"
  out_code :: "u8 option"
  out_id :: "u16 option"
  out_sequence :: "u16 option"

definition store_out :: "'v option \<Rightarrow> 'v option \<Rightarrow> 'v option option" where
  "store_out cell v = (case cell of None \<Rightarrow> Some None | Some _ \<Rightarrow> map_option Some v)"

definition icmp_parse :: "u8 list option \<Rightarrow> u64 \<Rightarrow> icmp_out \<Rightarrow> (bool \<times> icmp_out) option" where
  "icmp_parse packet len out = (case packet of
     None \<Rightarrow> Some (False, out)
   | Some icmp \<Rightarrow>
       if len < 8 then Some (False, out)
       else do {
         ty \<leftarrow> store_out (out_type out) (rd8 icmp 0);
         co \<leftarrow> store_out (out_code out) (rd8 icmp 1);
         id \<leftarrow> store_out (out_id out) (ntohs_unaligned (drop 4 icmp));
         sq \<leftarrow> store_out (out_sequence out) (ntohs_unaligned (drop 6 icmp));
         Some (True, \<lparr>out_type = ty, out_code = co, out_id = id, out_sequence = sq\<rparr>) })"

section \<open>The image of a message\<close>

interpretation icmp_ck: checksum_field "\<lambda>m. sum16 a m 0 4 0" 2 for a
  using sum16_checksum_field [of 1 4 a] by simp

definition icmp_image :: "u8 \<Rightarrow> u16 \<Rightarrow> u16 \<Rightarrow> u16 \<Rightarrow> u8 list" where
  "icmp_image ty ck ident sq = [ty, 0] @ be16 ck @ be16 ident @ be16 sq"

lemma icmp_fill_eq:
  assumes "p + 8 \<le> length m"
  shows "\<exists>ck m'. do {
     m \<leftarrow> st8 m p ty;
     m \<leftarrow> st8 m (p + 1) 0;
     m \<leftarrow> st16 m (p + 2) 0;
     m \<leftarrow> st16 m (p + 4) (htons a ident);
     m \<leftarrow> st16 m (p + 6) (htons a sq);
     c \<leftarrow> icmp_checksum a (drop p m) 8;
     st16 m (p + 2) c } = Some m' \<and> put m p (icmp_image ty ck ident sq) = Some m' \<and> icmp_checksum a (drop p m') 8 = Some 0"
proof -
  obtain m1 where m1: "put m p (icmp_image ty 0 ident sq) = Some m1"
    using put_total [of p "icmp_image ty 0 ident sq" m] assms by (auto simp: icmp_image_def)
  obtain s where s: "sum16 a (drop p m1) 0 4 0 = Some s"
    using assms put_length [OF m1] by (simp add: sum16_eq)
  have "take 2 (drop 2 (icmp_image ty 0 ident sq)) = [0, 0]"
    by (simp add: icmp_image_def be16_def)
  then obtain m2 where m2: "put m1 (p + 2) (be16 (cksum_not s)) = Some m2"
    "put m p (icmp_image ty (cksum_not s) ident sq) = Some m2"
    "map_option cksum_not (sum16 a (drop p m2) 0 4 0) = Some 0"
    using icmp_ck.filled_in_place [OF m1 _ s] by (auto simp: icmp_image_def)
  have "icmp_checksum a (drop p m2) 8 = Some 0"
    using m2(3) by (auto simp: icmp_checksum_def)
  moreover have "do {
     m \<leftarrow> st8 m p ty;
     m \<leftarrow> st8 m (p + 1) 0;
     m \<leftarrow> st16 m (p + 2) 0;
     m \<leftarrow> st16 m (p + 4) (htons a ident);
     m \<leftarrow> st16 m (p + 6) (htons a sq);
     c \<leftarrow> icmp_checksum a (drop p m) 8;
     st16 m (p + 2) c } = Some m2"
    using m1 s m2(1) unfolding mem_defs
    by (simp add: put_chain icmp_image_def icmp_checksum_def)
  ultimately show ?thesis
    using m2(2) by blast
qed

lemma icmp_image_parse:
  "icmp_parse (Some (icmp_image ty ck ident sq @ rest)) 8 \<lparr>out_type = Some t0, out_code = Some c0, out_id = Some i0, out_sequence = Some s0\<rparr>
   = Some (True, \<lparr>out_type = Some ty, out_code = Some 0, out_id = Some ident, out_sequence = Some sq\<rparr>)"
  by (simp add: icmp_parse_def icmp_image_def store_out_def be16f.rd_enc)

definition carries_icmp :: "arch \<Rightarrow> u8 list \<Rightarrow> u8 \<Rightarrow> u16 \<Rightarrow> u16 \<Rightarrow> bool" where
  "carries_icmp a icmp ty ident sq \<longleftrightarrow> icmp_checksum a icmp 8 = Some 0 \<and>
     (\<forall>t0 c0 i0 s0. icmp_parse (Some icmp) 8
        \<lparr>out_type = Some t0, out_code = Some c0, out_id = Some i0, out_sequence = Some s0\<rparr> =
        Some (True, \<lparr>out_type = Some ty, out_code = Some 0, out_id = Some ident, out_sequence = Some sq\<rparr>))"

lemma icmp_image_carries:
  assumes "put m p (icmp_image ty ck ident sq) = Some m'" and "icmp_checksum a (drop p m') 8 = Some 0"
  shows "take p m' = take p m \<and> drop (p + 8) m' = drop (p + 8) m \<and> carries_icmp a (drop p m') ty ident sq"
  using put_frame [OF assms(1)] drop_put [OF assms(1)] assms(2)
  by (simp add: carries_icmp_def icmp_image_parse) (simp add: icmp_image_def)

section \<open>Properties\<close>

text \<open>
  both ICMP builders fill the eight bytes of the header and nothing else, the header they build
  checks (its own checksum routine gives 0 on it), and \<open>icmp_parse\<close> returns the type, code, identifier
  and sequence number that were built in.
\<close>

theorem icmp_build_round_trip:
  assumes "p + 8 \<le> length m"
  shows "(\<exists>m'. icmp_build_request a m p ident sq = Some m' \<and> take p m' = take p m \<and> drop (p + 8) m' = drop (p + 8) m \<and>
      carries_icmp a (drop p m') ICMP_ECHO_REQUEST ident sq) \<and>
    (\<exists>m'. icmp_build_response a m p ident sq = Some m' \<and> take p m' = take p m \<and> drop (p + 8) m' = drop (p + 8) m \<and>
      carries_icmp a (drop p m') ICMP_ECHO_REPLY ident sq)"
proof
  show "\<exists>m'. icmp_build_request a m p ident sq = Some m' \<and> take p m' = take p m \<and> drop (p + 8) m' = drop (p + 8) m \<and>
      carries_icmp a (drop p m') ICMP_ECHO_REQUEST ident sq"
    unfolding icmp_build_request_def
    using icmp_fill_eq [OF assms, of ICMP_ECHO_REQUEST a ident sq] by (auto dest!: icmp_image_carries)
  show "\<exists>m'. icmp_build_response a m p ident sq = Some m' \<and> take p m' = take p m \<and> drop (p + 8) m' = drop (p + 8) m \<and>
      carries_icmp a (drop p m') ICMP_ECHO_REPLY ident sq"
    unfolding icmp_build_response_def
    using icmp_fill_eq [OF assms, of ICMP_ECHO_REPLY a ident sq] by (auto dest!: icmp_image_carries)
qed

lemma icmp_build_round_trip_witness:
  "\<exists>m'. icmp_build_response AMD64 (replicate 12 7) 4 0x1234 1 = Some m' \<and> take 4 m' = [7, 7, 7, 7] \<and>
     carries_icmp AMD64 (drop 4 m') ICMP_ECHO_REPLY 0x1234 1"
  using icmp_build_round_trip [of 4 "replicate 12 7" AMD64 "0x1234" 1] by (auto simp: numeral_eq_Suc)

end
