(* ===== verification/Udp.thy ===== *)
theory Udp
  imports Net_Utils Net_Checksum
begin

text \<open>
  \<^verbatim>\<open>apps/network/udp/udp.c\<close>: the header builder (\<^verbatim>\<open>src_port\<close> at 0, \<^verbatim>\<open>dst_port\<close> at 2, \<^verbatim>\<open>length\<close> at 4,
  \<^verbatim>\<open>checksum\<close> at 6) and the printer with its hexdump of the whole IP packet. \<^verbatim>\<open>size_t\<close> arguments are 64-bit
  words; the running offset of the dump is a natural number below the length.
\<close>

text \<open>The header length in bytes of an IPv4 packet, \<^verbatim>\<open>(ip->version_ihl & 0x0F) * 4\<close> as a \<^verbatim>\<open>uint8_t\<close>.\<close>

definition ihl_bytes :: "u8 \<Rightarrow> u8" where
  "ihl_bytes version_ihl = (version_ihl AND 0x0F) * 4"

lemma unat_ihl: "unat (ihl_bytes v) = unat v mod 16 * 4"
proof -
  have "unat v mod 16 * 4 < 256"
    using mod_less_divisor [of 16 "unat v"] by linarith
  then show ?thesis
    by (simp add: ihl_bytes_def unat_word_ariths)
qed

lemma unat_ihl_le: "unat (ihl_bytes v) \<le> 60"
proof -
  have "unat v mod 16 \<le> 15"
    using mod_less_divisor [of 16 "unat v"] by linarith
  then show ?thesis
    by (simp add: unat_ihl)
qed

section \<open>Operations\<close>

text \<open>One line of the dump: sixteen cells, blank past the end of the packet, then the printable characters.\<close>

fun hex_cells :: "u8 list \<Rightarrow> nat \<Rightarrow> nat \<Rightarrow> nat \<Rightarrow> nat \<Rightarrow> string option" where
  "hex_cells p offset line_len i 0 = Some []"
| "hex_cells p offset line_len i (Suc n) = do {
     cell \<leftarrow> (if i < line_len then map_option put_hex8 (rd8 p (offset + i)) else Some ''  '');
     rest \<leftarrow> hex_cells p offset line_len (i + 1) n;
     Some (cell @ '' '' @ (if i = 7 then '' '' else []) @ rest) }"

fun ascii_cells :: "u8 list \<Rightarrow> nat \<Rightarrow> nat \<Rightarrow> string option" where
  "ascii_cells p i 0 = Some []"
| "ascii_cells p i (Suc n) = do {
     c \<leftarrow> rd8 p i;
     rest \<leftarrow> ascii_cells p (i + 1) n;
     Some ((if c \<ge> 32 \<and> c \<le> 126 then char_of (unat c) else CHR ''.'') # rest) }"

function hexdump :: "u8 list \<Rightarrow> nat \<Rightarrow> int \<Rightarrow> nat \<Rightarrow> string option" where
  "hexdump p len leftpad offset =
     (if offset < len then
        (let line_len = (if len - offset > 16 then 16 else len - offset) in do {
           cells \<leftarrow> hex_cells p offset line_len 0 16;
           chars \<leftarrow> ascii_cells p offset line_len;
           rest \<leftarrow> hexdump p len leftpad (offset + 16);
           Some (print_pad (leftpad + 4) @ ''0x'' @ put_hex16 (of_nat offset) @ '':  '' @ cells @ '' '' @ chars @
                 [CHR 0x0A] @ rest) })
      else Some [])"
  by pat_completeness auto
termination by (relation "measure (\<lambda>(p, len, leftpad, offset). len - offset)") auto

declare hexdump.simps [simp del]

definition udp_print :: "u8 list option \<Rightarrow> u64 \<Rightarrow> int \<Rightarrow> string option" where
  "udp_print ip_packet len leftpad = (case ip_packet of
     None \<Rightarrow> Some (''  [UDP] Packet too small'' @ [CHR 0x0A])
   | Some ip \<Rightarrow>
       if len < 20 + 8 then Some (''  [UDP] Packet too small'' @ [CHR 0x0A])
       else do {
         version_ihl \<leftarrow> rd8 ip 0;
         (let ihl = ihl_bytes version_ihl in
          if len < ucast ihl + 8 then Some (''  [UDP] Packet too small for UDP header'' @ [CHR 0x0A])
          else (let udp = drop (unat ihl) ip in do {
            src_port \<leftarrow> ntohs_unaligned (drop 0 udp);
            dst_port \<leftarrow> ntohs_unaligned (drop 2 udp);
            ulen \<leftarrow> ntohs_unaligned (drop 4 udp);
            src_s \<leftarrow> net_print_decimal_u16 src_port;
            dst_s \<leftarrow> net_print_decimal_u16 dst_port;
            len_s \<leftarrow> net_print_decimal_u16 ulen;
            dump \<leftarrow> hexdump ip (unat len) leftpad 0;
            Some (print_pad leftpad @ ''[UDP] '' @ src_s @ '' -> '' @ dst_s @ '' len='' @ len_s @ [CHR 0x0A] @ dump) })) })"

definition udp_build_header :: "arch \<Rightarrow> u8 list \<Rightarrow> nat \<Rightarrow> u16 \<Rightarrow> u16 \<Rightarrow> u16 \<Rightarrow> u8 list option" where
  "udp_build_header a m p src_port dst_port payload_length = do {
     m \<leftarrow> st16 m p (htons a src_port);
     m \<leftarrow> st16 m (p + 2) (htons a dst_port);
     m \<leftarrow> st16 m (p + 4) (htons a (8 + payload_length));
     st16 m (p + 6) 0 }"

section \<open>Lemmas\<close>

lemma hex_cells_total: "offset + line_len \<le> length p \<Longrightarrow> \<exists>s. hex_cells p offset line_len i n = Some s"
proof (induction n arbitrary: i)
  case (Suc n)
  then obtain s where "hex_cells p offset line_len (i + 1) n = Some s"
    by auto
  then show ?case
    using Suc.prems by (simp add: rd8_def)
qed simp

lemma ascii_cells_total: "i + n \<le> length p \<Longrightarrow> \<exists>s. ascii_cells p i n = Some s"
proof (induction n arbitrary: i)
  case (Suc n)
  then obtain s where "ascii_cells p (i + 1) n = Some s"
    by fastforce
  then show ?case
    using Suc.prems by (simp add: rd8_def)
qed simp

lemma hexdump_total: "len \<le> length p \<Longrightarrow> \<exists>s. hexdump p len leftpad offset = Some s"
proof (induction p len leftpad offset rule: hexdump.induct)
  case (1 p len leftpad offset)
  show ?case
  proof (cases "offset < len")
    case True
    define ll where "ll = (if len - offset > 16 then 16 else len - offset)"
    have ll: "offset + ll \<le> length p"
      using True 1 by (auto simp: ll_def)
    obtain cells chars where cells: "hex_cells p offset ll 0 16 = Some cells"
      and chars: "ascii_cells p offset ll = Some chars"
      using hex_cells_total [OF ll] ascii_cells_total [OF ll] by blast
    moreover obtain rest where "hexdump p len leftpad (offset + 16) = Some rest"
      using 1(1) [OF True ll_def cells chars 1(2)] by blast
    ultimately show ?thesis
      using True by (simp add: hexdump.simps [of p len leftpad offset] ll_def [symmetric])
  qed (simp add: hexdump.simps [of p len leftpad offset])
qed

lemma udp_print_total:
  assumes "unat len \<le> length ip"
  shows "\<exists>s. udp_print (Some ip) len leftpad = Some s"
proof (cases "len < 28")
  case True
  then show ?thesis by (simp add: udp_print_def)
next
  case False
  then have "28 \<le> length ip"
    using assms by (simp add: word_less_nat_alt)
  then obtain v where v: "rd8 ip 0 = Some v"
    using rd8_Some_iff [of ip 0] by fastforce
  show ?thesis
  proof (cases "len < ucast (ihl_bytes v) + 8")
    case True
    then show ?thesis
      using False v by (simp add: udp_print_def Let_def)
  next
    case ok: False
    have "unat (ucast (ihl_bytes v) + 8 :: u64) = unat (ihl_bytes v) + 8"
      using unat_ihl_le [of v] by (simp add: unat_word_ariths unat_ucast_up)
    then have fits: "unat (ihl_bytes v) + 8 \<le> length ip"
      using ok assms by (simp add: word_less_nat_alt)
    then obtain a b c where "ntohs_unaligned (drop (unat (ihl_bytes v)) ip) = Some a"
      "ntohs_unaligned (drop (unat (ihl_bytes v) + 2) ip) = Some b"
      "ntohs_unaligned (drop (unat (ihl_bytes v) + 4) ip) = Some c"
      using be16_at_total [of "unat (ihl_bytes v)" ip] be16_at_total [of "unat (ihl_bytes v) + 2" ip]
        be16_at_total [of "unat (ihl_bytes v) + 4" ip] by auto
    moreover obtain d where "hexdump ip (unat len) leftpad 0 = Some d"
      using hexdump_total [OF assms] by blast
    ultimately show ?thesis
      using False ok v by (simp add: udp_print_def Let_def print_defs add.commute)
  qed
qed

definition udp_image :: "u16 \<Rightarrow> u16 \<Rightarrow> u16 \<Rightarrow> u8 list" where
  "udp_image sport dport len = be16 sport @ be16 dport @ be16 len @ be16 0"

lemma udp_build_header_eq: "udp_build_header a m p sport dport n = put m p (udp_image sport dport (8 + n))"
  unfolding udp_build_header_def mem_defs
  by (simp add: put_chain udp_image_def)

section \<open>Properties\<close>

text \<open>
  \<open>udp_build_header\<close> succeeds exactly when the eight header bytes are inside the object, changes
  nothing else, and stores ports, length (header included, modulo \<open>2 ^ 16\<close>) and a zero checksum where
  the reader finds them.
\<close>

theorem udp_build_round_trip:
  "case udp_build_header a m p sport dport n of
     None \<Rightarrow> length m < p + 8
   | Some m' \<Rightarrow> take p m' = take p m \<and> drop (p + 8) m' = drop (p + 8) m \<and>
       ntohs_unaligned (drop p m') = Some sport \<and> ntohs_unaligned (drop (p + 2) m') = Some dport \<and>
       ntohs_unaligned (drop (p + 4) m') = Some (8 + n) \<and> ntohs_unaligned (drop (p + 6) m') = Some 0"
proof (cases "put m p (udp_image sport dport (8 + n))")
  case None
  moreover have "length m < p + 8"
    using None by (simp add: put_None_iff udp_image_def)
  ultimately show ?thesis
    by (simp add: udp_build_header_eq)
next
  case (Some m')
  have d: "drop (p + k) m' = drop k (udp_image sport dport (8 + n) @ drop (p + 8) m)" for k
    using drop_put [OF Some] by (simp add: udp_image_def add.commute [of p k] drop_drop [symmetric] del: drop_drop)
  show ?thesis
    using put_frame [OF Some] Some d [of 0] d [of 2] d [of 4] d [of 6]
    by (simp add: udp_build_header_eq be16f.rd_enc) (simp add: udp_image_def be16f.rd_enc)
qed

end
