(* ===== verification/Tcp.thy ===== *)
theory Tcp
  imports Net_Utils Net_Checksum
begin

text \<open>
  \<^verbatim>\<open>apps/network/tcp/tcp.c\<close>: the printer, the checksum over pseudo-header and segment, and the header
  builder. The packed header has \<^verbatim>\<open>src_port\<close> 0, \<^verbatim>\<open>dst_port\<close> 2, \<^verbatim>\<open>seq_num\<close> 4, \<^verbatim>\<open>ack_num\<close> 8, \<^verbatim>\<open>data_offset\<close> 12,
  \<^verbatim>\<open>flags\<close> 13, \<^verbatim>\<open>window\<close> 14, \<^verbatim>\<open>checksum\<close> 16, \<^verbatim>\<open>urgent_ptr\<close> 18, in 20 bytes.
\<close>

definition TCP_FLAG_FIN :: u8 where "TCP_FLAG_FIN = 0x01"
definition TCP_FLAG_SYN :: u8 where "TCP_FLAG_SYN = 0x02"
definition TCP_FLAG_RST :: u8 where "TCP_FLAG_RST = 0x04"
definition TCP_FLAG_PSH :: u8 where "TCP_FLAG_PSH = 0x08"
definition TCP_FLAG_ACK :: u8 where "TCP_FLAG_ACK = 0x10"
definition TCP_FLAG_URG :: u8 where "TCP_FLAG_URG = 0x20"
definition IPPROTO_TCP :: u8 where "IPPROTO_TCP = 6"

record tcp_hdr =
  tcp_src_port :: u16
  tcp_dst_port :: u16
  tcp_seq_num :: u32
  tcp_ack_num :: u32
  tcp_data_offset :: u8
  tcp_flags :: u8
  tcp_window :: u16

definition tcp_read :: "u8 list \<Rightarrow> tcp_hdr option" where
  "tcp_read tcp = do {
     sp \<leftarrow> ntohs_unaligned (drop 0 tcp); dp \<leftarrow> ntohs_unaligned (drop 2 tcp);
     sq \<leftarrow> ntohl_unaligned (drop 4 tcp); ac \<leftarrow> ntohl_unaligned (drop 8 tcp);
     d \<leftarrow> rd8 tcp 12; fl \<leftarrow> rd8 tcp 13; win \<leftarrow> ntohs_unaligned (drop 14 tcp);
     Some \<lparr>tcp_src_port = sp, tcp_dst_port = dp, tcp_seq_num = sq, tcp_ack_num = ac, tcp_data_offset = d,
           tcp_flags = fl, tcp_window = win\<rparr> }"

section \<open>Operations\<close>

text \<open>The six flag tests with the \<^verbatim>\<open>first_flag\<close> variable: each prints a comma unless it is the first.\<close>

definition print_flag :: "u8 \<Rightarrow> u8 \<Rightarrow> string \<Rightarrow> string \<times> bool \<Rightarrow> string \<times> bool" where
  "print_flag flags bit_mask name st = (case st of (out, first_flag) \<Rightarrow>
     if flags AND bit_mask \<noteq> 0 then (out @ (if \<not> first_flag then '','' else []) @ name, False)
     else (out, first_flag))"

definition tcp_print_flags :: "u8 \<Rightarrow> string" where
  "tcp_print_flags flags =
     fst (print_flag flags TCP_FLAG_URG ''URG'' (print_flag flags TCP_FLAG_PSH ''PSH''
       (print_flag flags TCP_FLAG_RST ''RST'' (print_flag flags TCP_FLAG_FIN ''FIN''
         (print_flag flags TCP_FLAG_ACK ''ACK'' (print_flag flags TCP_FLAG_SYN ''SYN'' ([], True)))))))"

definition tcp_print :: "u8 list option \<Rightarrow> u64 \<Rightarrow> int \<Rightarrow> string option" where
  "tcp_print tcp_segment len leftpad = (case tcp_segment of
     None \<Rightarrow> Some (''  [TCP] Segment too small'' @ [CHR 0x0A])
   | Some tcp \<Rightarrow>
       if len < 20 then Some (''  [TCP] Segment too small'' @ [CHR 0x0A])
       else do {
         h \<leftarrow> tcp_read tcp;
         (let data_offset = drop_bit 4 (tcp_data_offset h) * 4 in do {
         sp \<leftarrow> net_print_decimal_u16 (tcp_src_port h);
         dp \<leftarrow> net_print_decimal_u16 (tcp_dst_port h);
         sq \<leftarrow> net_print_decimal_u32 (tcp_seq_num h);
         ac \<leftarrow> net_print_decimal_u32 (tcp_ack_num h);
         win \<leftarrow> net_print_decimal_u16 (tcp_window h);
         off \<leftarrow> net_print_decimal_u16 (ucast data_offset);
         Some (print_pad leftpad @ ''[TCP] '' @ sp @ '' -> '' @ dp @ '' seq='' @ sq @ '' ack='' @ ac @ '' flags=['' @
               tcp_print_flags (tcp_flags h) @ ''] win='' @ win @ '' len='' @ off @ [CHR 0x0A]) }) })"

text \<open>
  The sum before folding: the pseudo-header (the addresses are in network order, so their halves are
  converted), then the segment in big-endian words, then an odd last byte.
\<close>

definition tcp_pseudo :: "arch \<Rightarrow> u32 \<Rightarrow> u32 \<Rightarrow> u16 \<Rightarrow> u32" where
  "tcp_pseudo a src_ip dst_ip tcp_length =
     ucast (ntohs a (ucast (src_ip AND 0xFFFF))) + ucast (ntohs a (ucast (drop_bit 16 src_ip))) +
     ucast (ntohs a (ucast (dst_ip AND 0xFFFF))) + ucast (ntohs a (ucast (drop_bit 16 dst_ip))) +
     ucast IPPROTO_TCP + ucast tcp_length"

fun tcp_sum_loop :: "u8 list \<Rightarrow> nat \<Rightarrow> nat \<Rightarrow> u32 \<Rightarrow> (u32 \<times> nat) option" where
  "tcp_sum_loop seg offset remaining s =
     (if remaining > 1 then do {
        b0 \<leftarrow> rd8 seg offset;
        b1 \<leftarrow> rd8 seg (offset + 1);
        tcp_sum_loop seg (offset + 2) (remaining - 2) (s + ucast (push_bit 8 (ucast b0) OR ucast b1 :: u16)) }
      else Some (s, remaining))"

declare tcp_sum_loop.simps [simp del]

definition tcp_sum :: "arch \<Rightarrow> u32 \<Rightarrow> u32 \<Rightarrow> u8 list \<Rightarrow> u16 \<Rightarrow> u32 option" where
  "tcp_sum a src_ip dst_ip seg tcp_length = do {
     (s, remaining) \<leftarrow> tcp_sum_loop seg 0 (unat tcp_length) (tcp_pseudo a src_ip dst_ip tcp_length);
     (if remaining = 1 then do {
        b \<leftarrow> rd8 seg (unat tcp_length - 1);
        Some (s + push_bit 8 (ucast b)) }
      else Some s) }"

definition tcp_checksum :: "arch \<Rightarrow> u32 \<Rightarrow> u32 \<Rightarrow> u8 list \<Rightarrow> u16 \<Rightarrow> u16 option" where
  "tcp_checksum a src_ip dst_ip seg tcp_length = do {
     s \<leftarrow> tcp_sum a src_ip dst_ip seg tcp_length;
     Some (htons a (cksum_not s)) }"

definition tcp_build_header ::
  "arch \<Rightarrow> u8 list \<Rightarrow> nat \<Rightarrow> u16 \<Rightarrow> u16 \<Rightarrow> u32 \<Rightarrow> u32 \<Rightarrow> u8 \<Rightarrow> u16 \<Rightarrow> u32 \<Rightarrow> u32 \<Rightarrow> u16 \<Rightarrow> u8 list option" where
  "tcp_build_header a m p src_port dst_port sq ack flags window src_ip dst_ip payload_length = do {
     m \<leftarrow> write_htons_unaligned m p src_port;
     m \<leftarrow> write_htons_unaligned m (p + 2) dst_port;
     m \<leftarrow> write_htonl_unaligned m (p + 4) sq;
     m \<leftarrow> write_htonl_unaligned m (p + 8) ack;
     m \<leftarrow> st8 m (p + 12) (push_bit 4 5);
     m \<leftarrow> st8 m (p + 13) flags;
     m \<leftarrow> write_htons_unaligned m (p + 14) window;
     m \<leftarrow> st16 m (p + 16) 0;
     m \<leftarrow> st16 m (p + 18) 0;
     (let tcp_length = 20 + payload_length in do {
        cksum \<leftarrow> tcp_checksum a src_ip dst_ip (drop p m) tcp_length;
        st16 m (p + 16) cksum }) }"

section \<open>The sum\<close>

lemma tcp_sum_loop_eq:
  "2 * (i + n) \<le> length p \<Longrightarrow> r < 2 \<Longrightarrow>
   tcp_sum_loop p (2 * i) (2 * n + r) s = Some (s + (\<Sum>k = i..<i + n. ucast (word16 p (2 * k))), r)"
proof (induction n arbitrary: i s)
  case (Suc n)
  have "tcp_sum_loop p (2 * i) (2 * Suc n + r) s =
      tcp_sum_loop p (2 * (i + 1)) (2 * n + r) (s + ucast (word16 p (2 * i)))"
    using Suc.prems by (simp add: tcp_sum_loop.simps [of p "2 * i"] rd8_def word16_def)
  also have "\<dots> = Some (s + ucast (word16 p (2 * i)) + (\<Sum>k = i + 1..<i + 1 + n. ucast (word16 p (2 * k))), r)"
    using Suc.prems by (intro Suc.IH) simp_all
  also have "\<dots> = Some (s + (\<Sum>k = i..<i + Suc n. ucast (word16 p (2 * k))), r)"
    by (simp add: sum.atLeast_Suc_lessThan add.assoc)
  finally show ?case .
qed (simp add: tcp_sum_loop.simps)

definition odd_byte :: "u8 list \<Rightarrow> nat \<Rightarrow> u32" where
  "odd_byte seg n = (if odd n then push_bit 8 (ucast (seg ! (n - 1))) else 0)"

lemma tcp_sum_eq:
  assumes "unat len \<le> length seg"
  shows "tcp_sum a src dst seg len = Some (tcp_pseudo a src dst len +
    (\<Sum>k = 0..<unat len div 2. ucast (word16 seg (2 * k))) + odd_byte seg (unat len))"
proof -
  have "unat len = 2 * (unat len div 2) + unat len mod 2"
    by simp
  then have "tcp_sum_loop seg 0 (unat len) (tcp_pseudo a src dst len) =
      Some (tcp_pseudo a src dst len + (\<Sum>k = 0..<unat len div 2. ucast (word16 seg (2 * k))), unat len mod 2)"
    using tcp_sum_loop_eq [of 0 "unat len div 2" seg "unat len mod 2" "tcp_pseudo a src dst len"] assms by simp
  moreover have "rd8 seg (unat len - 1) = Some (seg ! (unat len - 1))" if "odd (unat len)"
    using that assms by (cases "unat len") (simp_all add: rd8_def)
  ultimately show ?thesis
    by (auto simp: tcp_sum_def odd_byte_def odd_iff_mod_2_eq_one even_iff_mod_2_eq_zero)
qed

lemma tcp_sum_loop_bound:
  "tcp_sum_loop p off r s = Some (x, q) \<Longrightarrow> off \<le> length p \<Longrightarrow> off + r \<le> length p + q \<and> q < 2 \<and> (q = 1 \<longleftrightarrow> odd r)"
proof (induction p off r s rule: tcp_sum_loop.induct)
  case (1 p off r s)
  show ?case
  proof (cases "r > 1")
    case True
    then obtain b0 b1 where b: "rd8 p off = Some b0" "rd8 p (off + 1) = Some b1"
      and rest: "tcp_sum_loop p (off + 2) (r - 2) (s + ucast (push_bit 8 (ucast b0) OR ucast b1 :: u16)) = Some (x, q)"
      using 1(2) by (auto simp: tcp_sum_loop.simps [of p off r s] elim!: bind_eq_SomeE)
    have "off + 2 \<le> length p"
      using b(2) by (simp add: rd8_def split: if_splits)
    then show ?thesis
      using 1(1) [OF True b rest] True by auto
  next
    case False
    then have "q = r" and "r = 0 \<or> r = 1"
      using 1(2) by (auto simp: tcp_sum_loop.simps [of p off r s])
    then show ?thesis
      using 1(3) by auto
  qed
qed

lemma tcp_sum_inside:
  assumes "tcp_sum a src dst seg len = Some s"
  shows "unat len \<le> length seg"
proof -
  obtain x q where loop: "tcp_sum_loop seg 0 (unat len) (tcp_pseudo a src dst len) = Some (x, q)"
    and last: "(if q = 1 then do { b \<leftarrow> rd8 seg (unat len - 1); Some (x + push_bit 8 (ucast b)) } else Some x) = Some s"
    using assms by (auto simp: tcp_sum_def elim!: bind_eq_SomeE)
  have q: "unat len \<le> length seg + q" "q < 2" "q = 1 \<longleftrightarrow> odd (unat len)"
    using tcp_sum_loop_bound [OF loop] by auto
  show ?thesis
  proof (cases "q = 1")
    case True
    then have "unat len - 1 < length seg" and "0 < unat len"
      using last q(3) by (auto simp: rd8_def odd_pos split: if_splits)
    then show ?thesis by linarith
  next
    case False
    then show ?thesis using q by linarith
  qed
qed

lemma unat_add_bound: "unat x \<le> b \<Longrightarrow> unat y \<le> c \<Longrightarrow> unat (x + y :: 'a::len word) \<le> b + c"
  by (rule order_trans [of _ "unat x + unat y"]) (simp_all add: unat_word_ariths)

lemma unat_ucast16: "unat (ucast (x :: u16) :: u32) \<le> 65535"
  using unat_lt16 [of x] by (simp add: unat_ucast_up)

lemma tcp_sum_small:
  assumes "tcp_sum a src dst seg len = Some s"
  shows "unat s + 65535 < 4294967296"
proof -
  have "unat (ucast IPPROTO_TCP :: u32) \<le> 6"
    by (simp add: IPPROTO_TCP_def)
  then have pseudo: "unat (tcp_pseudo a src dst len) \<le> 65535 + 65535 + 65535 + 65535 + 6 + 65535"
    unfolding tcp_pseudo_def by (intro unat_add_bound unat_ucast16)
  have half: "unat len div 2 \<le> 32767"
    using unat_lt16 [of len] by simp
  have words: "unat (\<Sum>k = 0..<unat len div 2. ucast (word16 seg (2 * k)) :: u32) \<le> 32767 * 65535"
    using unat_sum_words [of "{0..<unat len div 2}" "\<lambda>k. word16 seg (2 * k)"] mult_le_mono1 [OF half, of 65535]
    by simp
  have odd: "unat (odd_byte seg (unat len)) \<le> 65280"
  proof -
    have "unat (push_bit 8 (ucast (b :: u8)) :: u32) = unat b * 256" for b
      using unat_lt8 [of b] by (simp add: push_bit_eq_mult unat_word_ariths unat_ucast_up)
    then show ?thesis
      using unat_lt8 [of "seg ! (unat len - 1)"] by (simp add: odd_byte_def)
  qed
  have "s = tcp_pseudo a src dst len + (\<Sum>k = 0..<unat len div 2. ucast (word16 seg (2 * k))) + odd_byte seg (unat len)"
    using assms tcp_sum_eq [OF tcp_sum_inside [OF assms], of a src dst] by simp
  then have "unat s \<le> (65535 + 65535 + 65535 + 65535 + 6 + 65535) + 32767 * 65535 + 65280"
    using unat_add_bound [OF unat_add_bound [OF pseudo words] odd] by simp
  then show ?thesis by linarith
qed

lemma tcp_checksum_field:
  assumes "18 \<le> unat len"
  shows "checksum_field (\<lambda>m. tcp_sum a src dst m len) 16"
proof
  fix m s c m'
  assume z: "word16 m 16 = 0" and s: "tcp_sum a src dst m len = Some s" and p: "put m 16 (be16 c) = Some m'"
  have len: "unat len \<le> length m"
    using s by (rule tcp_sum_inside)
  have words: "(\<Sum>k = 0..<unat len div 2. ucast (word16 m' (2 * k)) :: u32) =
      (\<Sum>k = 0..<unat len div 2. ucast (word16 m (2 * k))) + ucast c"
    using z p len assms by (intro sum_words_put [where k = 8]) auto
  have "odd_byte m' (unat len) = odd_byte m (unat len)"
  proof (cases "odd (unat len)")
    case True
    then have "18 \<le> unat len - 1"
      using assms by (cases "unat len = 18") auto
    then have "rd8 m' (unat len - 1) = rd8 m (unat len - 1)"
      by (simp add: rd8_put [OF p])
    then show ?thesis
      using len assms put_length [OF p] by (simp add: odd_byte_def rd8_def split: if_splits)
  qed (simp add: odd_byte_def)
  then show "tcp_sum a src dst m' len = Some (s + ucast c)"
    using s tcp_sum_eq [OF len, of a src dst] tcp_sum_eq [of len m' a src dst] put_length [OF p] len words
    by (simp add: algebra_simps)
qed (rule tcp_sum_small)

section \<open>The image of a header\<close>

definition tcp_image :: "u16 \<Rightarrow> u16 \<Rightarrow> u32 \<Rightarrow> u32 \<Rightarrow> u8 \<Rightarrow> u16 \<Rightarrow> u16 \<Rightarrow> u8 list" where
  "tcp_image sport dport sq ack flags win ck =
     be16 sport @ be16 dport @ be32 sq @ be32 ack @ [0x50, flags] @ be16 win @ be16 ck @ be16 0"

lemma length_tcp_image [simp]: "length (tcp_image sport dport sq ack flags win ck) = 20"
  by (simp add: tcp_image_def)

lemma tcp_image_read:
  "tcp_read (tcp_image sport dport sq ack flags win ck @ rest) = Some
     \<lparr>tcp_src_port = sport, tcp_dst_port = dport, tcp_seq_num = sq, tcp_ack_num = ack, tcp_data_offset = 0x50,
      tcp_flags = flags, tcp_window = win\<rparr>"
  by (simp add: tcp_read_def tcp_image_def be16f.rd_enc be32f.rd_enc rd8_append)

lemma tcp_build_header_eq:
  assumes fits: "p + 20 + unat n \<le> length m" and small: "20 + unat n < 65536"
  shows "\<exists>ck m'. tcp_build_header a m p sport dport sq ack flags win src dst n = Some m' \<and>
    put m p (tcp_image sport dport sq ack flags win ck) = Some m' \<and>
    tcp_checksum a src dst (drop p m') (20 + n) = Some 0"
proof -
  let ?im = "tcp_image sport dport sq ack flags win 0"
  have len: "unat (20 + n) = 20 + unat n"
    using small by (simp add: unat_word_ariths)
  obtain m1 where m1: "put m p ?im = Some m1"
    using put_total [of p ?im m] fits by auto
  obtain s where s: "tcp_sum a src dst (drop p m1) (20 + n) = Some s"
    using tcp_sum_eq [of "20 + n" "drop p m1" a src dst] fits len put_length [OF m1] by simp
  have "take 2 (drop 16 ?im) = [0, 0]"
    by (simp add: tcp_image_def be16_def be32_def)
  then obtain m2 where m2: "put m1 (p + 16) (be16 (cksum_not s)) = Some m2"
    "put m p (tcp_image sport dport sq ack flags win (cksum_not s)) = Some m2"
    "map_option cksum_not (tcp_sum a src dst (drop p m2) (20 + n)) = Some 0"
    using checksum_field.filled_in_place [OF tcp_checksum_field m1 _ s] len
    by (auto simp: tcp_image_def)
  have "tcp_checksum a src dst (drop p m2) (20 + n) = Some 0"
    using m2(3) by (auto simp: tcp_checksum_def)
  moreover have "tcp_build_header a m p sport dport sq ack flags win src dst n = Some m2"
    using m1 s m2(1) unfolding tcp_build_header_def mem_defs
    by (simp add: put_chain tcp_image_def tcp_checksum_def Let_def)
  ultimately show ?thesis
    using m2(2) by blast
qed

lemma tcp_print_total:
  assumes "20 \<le> length tcp"
  shows "\<exists>s. tcp_print (Some tcp) len leftpad = Some s"
proof -
  obtain h where "tcp_read tcp = Some h"
    using be16_at_total [of 0 tcp] be16_at_total [of 2 tcp] be32_at_total [of 4 tcp] be32_at_total [of 8 tcp]
      be16_at_total [of 14 tcp] rd8_Some_iff [of tcp 12] rd8_Some_iff [of tcp 13] assms
    by (auto simp: tcp_read_def)
  then show ?thesis
    by (simp add: tcp_print_def print_defs Let_def)
qed

section \<open>Properties\<close>

text \<open>
  C4: \<open>tcp_build_header\<close> on a buffer that holds header and payload, with a segment that fits a 16-bit
  length, succeeds and changes the twenty header bytes only; the fields read back as given with a data
  offset of five words, and the segment checks: the checksum over pseudo-header, header and payload
  (of even or odd length) is 0.
\<close>

theorem tcp_build_round_trip:
  assumes "p + 20 + unat n \<le> length m" and "20 + unat n < 65536"
  shows "\<exists>m'. tcp_build_header a m p sport dport sq ack flags win src dst n = Some m' \<and>
    take p m' = take p m \<and> drop (p + 20) m' = drop (p + 20) m \<and>
    tcp_read (drop p m') = Some \<lparr>tcp_src_port = sport, tcp_dst_port = dport, tcp_seq_num = sq, tcp_ack_num = ack,
      tcp_data_offset = 0x50, tcp_flags = flags, tcp_window = win\<rparr> \<and>
    tcp_checksum a src dst (drop p m') (20 + n) = Some 0"
proof -
  obtain ck m' where "tcp_build_header a m p sport dport sq ack flags win src dst n = Some m'"
    and m': "put m p (tcp_image sport dport sq ack flags win ck) = Some m'"
    and "tcp_checksum a src dst (drop p m') (20 + n) = Some 0"
    using tcp_build_header_eq [OF assms] by blast
  then show ?thesis
    using put_frame [OF m'] drop_put [OF m'] by (simp add: tcp_image_read)
qed

lemma tcp_build_round_trip_witness:
  "\<exists>m'. tcp_build_header RISCV (replicate 5 1 @ replicate 20 0 @ [72, 105, 33]) 5 80 40000 1000 7 TCP_FLAG_ACK 8192
      0x0F02000A 0x0202000A 3 = Some m' \<and>
    tcp_checksum RISCV 0x0F02000A 0x0202000A (drop 5 m') 23 = Some 0"
  using tcp_build_round_trip [of 5 3 "replicate 5 1 @ replicate 20 0 @ [72, 105, 33]" RISCV 80 40000 1000 7
      TCP_FLAG_ACK 8192 "0x0F02000A" "0x0202000A"] by auto

end
