(* ===== verification/Ipv4.thy ===== *)
theory Ipv4
  imports Icmp Udp Tcp
begin

text \<open>
  \<^verbatim>\<open>apps/network/ipv4/ipv4.c\<close>. The packed header has \<^verbatim>\<open>version_ihl\<close> 0, \<^verbatim>\<open>tos\<close> 1, \<^verbatim>\<open>total_length\<close> 2,
  \<^verbatim>\<open>identification\<close> 4, \<^verbatim>\<open>flags_fragment\<close> 6, \<^verbatim>\<open>ttl\<close> 8, \<^verbatim>\<open>protocol\<close> 9, \<^verbatim>\<open>checksum\<close> 10, \<^verbatim>\<open>src_ip\<close> 12,
  \<^verbatim>\<open>dst_ip\<close> 16, in 20 bytes; addresses are kept in network order, as the code keeps them.
\<close>

definition IPPROTO_ICMP :: u8 where "IPPROTO_ICMP = 1"
definition IPPROTO_UDP :: u8 where "IPPROTO_UDP = 17"

definition IPV4 :: "u32 \<Rightarrow> u32 \<Rightarrow> u32 \<Rightarrow> u32 \<Rightarrow> u32" where
  "IPV4 a b c d = push_bit 24 a OR push_bit 16 b OR push_bit 8 c OR d"

record ipv4_hdr =
  ip_version_ihl :: u8
  ip_tos :: u8
  ip_total_length :: u16
  ip_identification :: u16
  ip_flags_fragment :: u16
  ip_ttl :: u8
  ip_protocol :: u8
  ip_src_ip :: u32
  ip_dst_ip :: u32

definition ipv4_read :: "u8 list \<Rightarrow> ipv4_hdr option" where
  "ipv4_read ip = do {
     v \<leftarrow> rd8 ip 0; t \<leftarrow> rd8 ip 1; len \<leftarrow> ntohs_unaligned (drop 2 ip); ident \<leftarrow> ntohs_unaligned (drop 4 ip);
     fl \<leftarrow> ntohs_unaligned (drop 6 ip); ttl \<leftarrow> rd8 ip 8; pr \<leftarrow> rd8 ip 9; si \<leftarrow> ld32 ip 12; di \<leftarrow> ld32 ip 16;
     Some \<lparr>ip_version_ihl = v, ip_tos = t, ip_total_length = len, ip_identification = ident,
           ip_flags_fragment = fl, ip_ttl = ttl, ip_protocol = pr, ip_src_ip = si, ip_dst_ip = di\<rparr> }"

section \<open>Operations\<close>

definition ipv4_print :: "u8 list option \<Rightarrow> u64 \<Rightarrow> int \<Rightarrow> string option" where
  "ipv4_print packet_ptr len leftpad = (case packet_ptr of
     None \<Rightarrow> Some (''[IPv4] Packet too small'' @ [CHR 0x0A])
   | Some packet \<Rightarrow>
       if len < 20 then Some (''[IPv4] Packet too small'' @ [CHR 0x0A])
       else do {
         total_len \<leftarrow> ntohs_unaligned (drop 2 packet);
         src_ip \<leftarrow> ntohl_unaligned (drop 12 packet);
         dst_ip \<leftarrow> ntohl_unaligned (drop 16 packet);
         protocol \<leftarrow> rd8 packet 9;
         ttl \<leftarrow> rd8 packet 8;
         len_s \<leftarrow> net_print_decimal_u16 total_len;
         version_ihl \<leftarrow> rd8 packet 0;
         (let line = print_pad leftpad @ ''[IPv4] '' @ net_print_ip src_ip @ '' -> '' @ net_print_ip dst_ip @
                '' proto='' @ net_print_decimal_u8 protocol @ '' ttl='' @ net_print_decimal_u8 ttl @
                '' len='' @ len_s @ [CHR 0x0A];
              ihl = ihl_bytes version_ihl in
          if len < ucast ihl then Some line
          else (let payload = drop (unat ihl) packet;
                    payload_len = (if len > ucast total_len then ucast total_len - ucast ihl else len - ucast ihl) in do {
            body \<leftarrow> (if protocol = IPPROTO_TCP then tcp_print (Some payload) payload_len (leftpad + 2)
                     else if protocol = IPPROTO_UDP then udp_print (Some packet) len (leftpad + 2)
                     else if protocol = IPPROTO_ICMP then icmp_print (Some payload) payload_len (leftpad + 2)
                     else Some []);
            Some (line @ body) })) })"

definition ipv4_checksum :: "arch \<Rightarrow> u8 list \<Rightarrow> u16 option" where
  "ipv4_checksum a header = do { s \<leftarrow> sum16 a header 0 10 0; Some (htons a (cksum_not s)) }"

definition ipv4_verify_checksum :: "arch \<Rightarrow> u8 list \<Rightarrow> bool option" where
  "ipv4_verify_checksum a header = do {
     s \<leftarrow> sum16 a header 0 10 0;
     Some (cksum_fold s AND 0xFFFF = 0xFFFF) }"

definition ipv4_build_header :: "arch \<Rightarrow> u8 list \<Rightarrow> nat \<Rightarrow> u32 \<Rightarrow> u32 \<Rightarrow> u8 \<Rightarrow> u16 \<Rightarrow> u8 \<Rightarrow> u8 list option" where
  "ipv4_build_header a m p src_ip dst_ip protocol payload_length ttl = do {
     m \<leftarrow> st8 m p 0x45;
     m \<leftarrow> st8 m (p + 1) 0;
     m \<leftarrow> st16 m (p + 2) (htons a (20 + payload_length));
     m \<leftarrow> st16 m (p + 4) (htons a 1);
     m \<leftarrow> st16 m (p + 6) 0;
     m \<leftarrow> st8 m (p + 8) ttl;
     m \<leftarrow> st8 m (p + 9) protocol;
     m \<leftarrow> st16 m (p + 10) 0;
     m \<leftarrow> st32 m (p + 12) src_ip;
     m \<leftarrow> st32 m (p + 16) dst_ip;
     ck \<leftarrow> ipv4_checksum a (drop p m);
     st16 m (p + 10) ck }"

section \<open>The image of a header\<close>

interpretation ipv4_ck: checksum_field "\<lambda>m. sum16 a m 0 10 0" 10 for a
  using sum16_checksum_field [of 5 10 a] by simp

definition ipv4_image :: "u16 \<Rightarrow> u8 \<Rightarrow> u8 \<Rightarrow> u16 \<Rightarrow> u32 \<Rightarrow> u32 \<Rightarrow> u8 list" where
  "ipv4_image len ttl proto ck src dst =
     [0x45, 0] @ be16 len @ be16 1 @ be16 0 @ [ttl, proto] @ be16 ck @ le32 src @ le32 dst"

lemma length_ipv4_image [simp]: "length (ipv4_image len ttl proto ck src dst) = 20"
  by (simp add: ipv4_image_def)

lemma ld32_at: "ld32 (drop n p) 0 = ld32 p n"
  by (simp add: ld_drop)

lemma ipv4_image_read:
  "ipv4_read (ipv4_image len ttl proto ck src dst @ rest) = Some
     \<lparr>ip_version_ihl = 0x45, ip_tos = 0, ip_total_length = len, ip_identification = 1, ip_flags_fragment = 0,
      ip_ttl = ttl, ip_protocol = proto, ip_src_ip = src, ip_dst_ip = dst\<rparr>"
proof -
  let ?p = "ipv4_image len ttl proto ck src dst @ rest"
  have "drop 12 ?p = le32 src @ le32 dst @ rest" and "drop 16 ?p = le32 dst @ rest"
    by (simp_all add: ipv4_image_def)
  then have "ld32 ?p 12 = Some src" and "ld32 ?p 16 = Some dst"
    by (simp_all only: ld32_at [of 12 ?p, symmetric] ld32_at [of 16 ?p, symmetric] ld32_le32)
  then show ?thesis
    by (simp add: ipv4_read_def) (simp add: ipv4_image_def be16f.rd_enc rd8_append)
qed

lemma ipv4_build_header_eq:
  assumes fits: "p + 20 \<le> length m"
  shows "\<exists>ck m'. ipv4_build_header a m p src dst proto n ttl = Some m' \<and>
    put m p (ipv4_image (20 + n) ttl proto ck src dst) = Some m' \<and>
    ipv4_verify_checksum a (drop p m') = Some True"
proof -
  let ?im = "ipv4_image (20 + n) ttl proto 0 src dst"
  obtain m1 where m1: "put m p ?im = Some m1"
    using put_total [of p ?im m] fits by auto
  obtain s where s: "sum16 a (drop p m1) 0 10 0 = Some s"
    using fits put_length [OF m1] by (simp add: sum16_eq)
  have "take 2 (drop 10 ?im) = [0, 0]"
    by (simp add: ipv4_image_def be16_def)
  then obtain m2 where m2: "put m1 (p + 10) (be16 (cksum_not s)) = Some m2"
    "put m p (ipv4_image (20 + n) ttl proto (cksum_not s) src dst) = Some m2"
    "map_option cksum_fold (sum16 a (drop p m2) 0 10 0) = Some 0xFFFF"
    using ipv4_ck.filled_in_place [OF m1 _ s] by (auto simp: ipv4_image_def)
  have "ipv4_verify_checksum a (drop p m2) = Some True"
    using m2(3) by (auto simp: ipv4_verify_checksum_def)
  moreover have "ipv4_build_header a m p src dst proto n ttl = Some m2"
    using m1 s m2(1) unfolding ipv4_build_header_def mem_defs
    by (simp add: put_chain ipv4_image_def ipv4_checksum_def)
  ultimately show ?thesis
    using m2(2) by blast
qed

lemma icmp_print_total:
  assumes "8 \<le> length icmp"
  shows "\<exists>s. icmp_print (Some icmp) len leftpad = Some s"
  using be16_at_total [of 4 icmp] be16_at_total [of 6 icmp] rd8_Some_iff [of icmp 0] rd8_Some_iff [of icmp 1] assms
  by (auto simp: icmp_print_def print_defs)

text \<open>
  The printer stays inside a packet of the given length when the header's lengths are consistent:
  the total length is at least the header length.
\<close>

definition ipv4_lengths_ok :: "u8 list \<Rightarrow> bool" where
  "ipv4_lengths_ok packet = (case (ntohs_unaligned (drop 2 packet), rd8 packet 0) of
     (Some total_len, Some v) \<Rightarrow> unat (ihl_bytes v) \<le> unat total_len
   | _ \<Rightarrow> True)"

lemma ipv4_payload_len:
  assumes "\<not> len < (ucast ihl :: u64)" and "unat (ihl :: u8) \<le> unat (t :: u16)"
  shows "unat (if len > ucast t then ucast t - ucast ihl else len - ucast ihl) \<le> unat len - unat ihl"
proof -
  have i: "unat (ucast ihl :: u64) = unat ihl" and t: "unat (ucast t :: u64) = unat t"
    by (simp_all add: unat_ucast_up)
  have "unat (len - ucast ihl) = unat len - unat ihl"
    using assms(1) i by (subst unat_sub) (simp_all add: not_less)
  moreover have "unat (ucast t - ucast ihl :: u64) = unat t - unat ihl"
    using assms(2) i t by (subst unat_sub) (simp_all add: word_le_nat_alt)
  ultimately show ?thesis
    using t by (auto simp: word_less_nat_alt)
qed

lemma ipv4_body_total:
  assumes "unat n \<le> length payload" and "unat len \<le> length packet"
  shows "\<exists>s. (if protocol = IPPROTO_TCP then tcp_print (Some payload) n pad
    else if protocol = IPPROTO_UDP then udp_print (Some packet) len pad
    else if protocol = IPPROTO_ICMP then icmp_print (Some payload) n pad else Some []) = Some s"
proof -
  have "\<exists>s. tcp_print (Some payload) n pad = Some s"
  proof (cases "n < 20")
    case False
    then show ?thesis
      using assms by (intro tcp_print_total) (simp add: word_less_nat_alt)
  qed (simp add: tcp_print_def)
  moreover have "\<exists>s. icmp_print (Some payload) n pad = Some s"
  proof (cases "n < 8")
    case False
    then show ?thesis
      using assms by (intro icmp_print_total) (simp add: word_less_nat_alt)
  qed (simp add: icmp_print_def)
  ultimately show ?thesis
    using udp_print_total [OF assms(2), of pad] by simp
qed

lemma ipv4_print_total:
  assumes len: "unat len \<le> length packet" and ok: "ipv4_lengths_ok packet"
  shows "\<exists>s. ipv4_print (Some packet) len leftpad = Some s"
proof (cases "len < 20")
  case False
  then have "20 \<le> length packet"
    using len by (simp add: word_less_nat_alt)
  then obtain t si di pr ttl v where rd: "ntohs_unaligned (drop 2 packet) = Some t"
    "ntohl_unaligned (drop 12 packet) = Some si" "ntohl_unaligned (drop 16 packet) = Some di"
    "rd8 packet 9 = Some pr" "rd8 packet 8 = Some ttl" "rd8 packet 0 = Some v"
    using be16_at_total [of 2 packet] be32_at_total [of 12 packet] be32_at_total [of 16 packet]
      rd8_Some_iff [of packet 9] rd8_Some_iff [of packet 8] rd8_Some_iff [of packet 0] by auto
  show ?thesis
  proof (cases "len < ucast (ihl_bytes v)")
    case True
    then show ?thesis
      using rd False by (simp add: ipv4_print_def print_defs Let_def)
  next
    case in_len: False
    let ?n = "if len > ucast t then ucast t - ucast (ihl_bytes v) else len - ucast (ihl_bytes v)"
    have "unat ?n \<le> unat len - unat (ihl_bytes v)"
      using in_len ok rd by (intro ipv4_payload_len) (simp_all add: ipv4_lengths_ok_def)
    then have "unat ?n \<le> length (drop (unat (ihl_bytes v)) packet)"
      using len by simp
    from ipv4_body_total [OF this len, of pr "leftpad + 2"]
    obtain body where "(if pr = IPPROTO_TCP then tcp_print (Some (drop (unat (ihl_bytes v)) packet)) ?n (leftpad + 2)
        else if pr = IPPROTO_UDP then udp_print (Some packet) len (leftpad + 2)
        else if pr = IPPROTO_ICMP then icmp_print (Some (drop (unat (ihl_bytes v)) packet)) ?n (leftpad + 2)
        else Some []) = Some body" by blast
    then show ?thesis
      using rd False in_len unfolding ipv4_print_def print_defs Let_def by simp
  qed
qed (simp add: ipv4_print_def)

section \<open>What the verification decides\<close>

definition ipv4_word_sum :: "u8 list \<Rightarrow> nat" where
  "ipv4_word_sum h = (\<Sum>k = 0..<10. unat (word16 h (2 * k)))"

lemma unat_sum_exact:
  "finite A \<Longrightarrow> card A \<le> 65536 \<Longrightarrow> unat (\<Sum>k\<in>A. ucast (f k :: u16) :: u32) = (\<Sum>k\<in>A. unat (f k))"
proof (induction rule: finite_induct)
  case (insert x A)
  have "unat (ucast (f x) :: u32) + unat (\<Sum>k\<in>A. ucast (f k) :: u32) \<le> 65535 + card A * 65535"
    using unat_sum_words [OF insert(1), of f] unat_ucast16 [of "f x"] by linarith
  also have "\<dots> < 4294967296"
    using insert by simp
  finally show ?case
    using insert by (simp add: unat_word_ariths unat_ucast_up)
qed simp

lemma ipv4_verify_iff:
  assumes "20 \<le> length h"
  shows "ipv4_verify_checksum a h = Some (0 < ipv4_word_sum h \<and> ipv4_word_sum h mod 65535 = 0)"
proof -
  let ?s = "\<Sum>k = 0..<10. ucast (word16 h (2 * k)) :: u32"
  have sum: "sum16 a h 0 10 0 = Some ?s"
    using assms by (simp add: sum16_eq)
  have u: "unat ?s = ipv4_word_sum h"
    by (simp add: unat_sum_exact ipv4_word_sum_def)
  have "cksum_fold ?s AND 0xFFFF = 0xFFFF \<longleftrightarrow> unat (cksum_fold ?s) = 65535"
  proof -
    have "cksum_fold ?s AND 0xFFFF = 0xFFFF \<longleftrightarrow> unat (cksum_fold ?s AND 0xFFFF) = unat (0xFFFF :: u32)"
      by (simp only: word_unat_eq_iff)
    then show ?thesis
      using cksum_fold_lt [of ?s] by simp
  qed
  also have "\<dots> \<longleftrightarrow> ?s \<noteq> 0 \<and> (unat ?s - 1) mod 65535 = 65534"
    by (simp add: cksum_fold_value)
  also have "\<dots> \<longleftrightarrow> 0 < ipv4_word_sum h \<and> ipv4_word_sum h mod 65535 = 0"
  proof (cases "unat ?s")
    case (Suc n)
    then have "?s \<noteq> 0"
      by (metis unat_0 nat.distinct(1))
    then show ?thesis
      using Suc u mod_Suc [of n 65535] by simp
  qed (use u in \<open>simp add: unat_eq_0\<close>)
  finally show ?thesis
    by (simp add: ipv4_verify_checksum_def sum)
qed

lemma ipv4_word_sum_put:
  assumes put: "put h (2 * k) (be16 w) = Some h'" and k: "k < 10" and len: "20 \<le> length h"
  shows "ipv4_word_sum h' + unat (word16 h (2 * k)) = ipv4_word_sum h + unat w"
proof -
  have other: "word16 h' (2 * i) = word16 h (2 * i)" if "i \<in> {0..<10} - {k}" for i
    using that len by (intro word16_put_other [OF put]) auto
  then show ?thesis
    using k word16_put_same [OF put] by (simp add: ipv4_word_sum_def sum.remove [of _ k])
qed

section \<open>Properties\<close>

text \<open>
  C5: \<open>ipv4_build_header\<close> on a buffer with room for the header succeeds, changes the twenty header
  bytes only, every field reads back as given (the total length is header plus payload modulo
  \<open>2 ^ 16\<close>), and \<open>ipv4_verify_checksum\<close> accepts the header.
\<close>

theorem ipv4_build_round_trip:
  assumes "p + 20 \<le> length m"
  shows "\<exists>m'. ipv4_build_header a m p src dst proto n ttl = Some m' \<and>
    take p m' = take p m \<and> drop (p + 20) m' = drop (p + 20) m \<and>
    ipv4_read (drop p m') = Some \<lparr>ip_version_ihl = 0x45, ip_tos = 0, ip_total_length = 20 + n, ip_identification = 1,
      ip_flags_fragment = 0, ip_ttl = ttl, ip_protocol = proto, ip_src_ip = src, ip_dst_ip = dst\<rparr> \<and>
    ipv4_verify_checksum a (drop p m') = Some True"
proof -
  obtain ck m' where "ipv4_build_header a m p src dst proto n ttl = Some m'"
    and m': "put m p (ipv4_image (20 + n) ttl proto ck src dst) = Some m'"
    and "ipv4_verify_checksum a (drop p m') = Some True"
    using ipv4_build_header_eq [OF assms] by blast
  then show ?thesis
    using put_frame [OF m'] drop_put [OF m'] by (simp add: ipv4_image_read)
qed

lemma ipv4_build_round_trip_witness:
  "\<exists>m'. ipv4_build_header ARM64 (replicate 54 0) 14 0x0F02000A 0x0202000A IPPROTO_TCP 20 64 = Some m' \<and>
    ipv4_verify_checksum ARM64 (drop 14 m') = Some True"
  using ipv4_build_round_trip [of 14 "replicate 54 0" ARM64 "0x0F02000A" "0x0202000A" IPPROTO_TCP 20 64] by auto

text \<open>
  C6: the verification detects every corruption of a single header word: if a header is accepted, the
  header with one 16-bit word replaced by another value is rejected, unless the two values are the two
  representations \<open>0\<close> and \<open>0xFFFF\<close> of zero.
\<close>

theorem ipv4_detects_word_errors:
  assumes "20 \<le> length h" and "ipv4_verify_checksum a h = Some True"
    and "k < 10" and "put h (2 * k) (be16 w) = Some h'"
    and "w \<noteq> word16 h (2 * k)" and "{w, word16 h (2 * k)} \<noteq> {0, 0xFFFF}"
  shows "ipv4_verify_checksum a h' = Some False"
proof -
  let ?v = "word16 h (2 * k)"
  have len': "20 \<le> length h'"
    using assms(1) put_length [OF assms(4)] by simp
  have ok: "ipv4_word_sum h mod 65535 = 0"
    using assms(2) ipv4_verify_iff [OF assms(1), of a] by simp
  have sum: "ipv4_word_sum h' + unat ?v = ipv4_word_sum h + unat w"
    using ipv4_word_sum_put [OF assms(4,3,1)] .
  have "ipv4_word_sum h' mod 65535 \<noteq> 0"
  proof
    assume "ipv4_word_sum h' mod 65535 = 0"
    then have "unat ?v mod 65535 = unat w mod 65535"
      using ok sum by (metis mod_add_left_eq add_0)
    moreover have "unat ?v < 65536" "unat w < 65536"
      by (rule unat_lt16)+
    moreover have "unat ?v \<noteq> unat w"
      using assms(5) by (simp add: word_unat_eq_iff eq_commute)
    ultimately have "{unat w, unat ?v} = {0, 65535}"
      by (cases "unat ?v = 65535"; cases "unat w = 65535") auto
    then have "{w, ?v} = {0, 0xFFFF}"
      by (auto simp: doubleton_eq_iff word_unat_eq_iff)
    with assms(6) show False
      by contradiction
  qed
  then show ?thesis
    using ipv4_verify_iff [OF len', of a] by simp
qed

lemma ipv4_detects_word_errors_witness:
  "ipv4_verify_checksum RISCV (replicate 20 0xFF) = Some True \<and>
   ipv4_verify_checksum RISCV (0 # 1 # replicate 18 0xFF) = Some False"
proof -
  have w: "word16 (replicate 20 0xFF) (2 * k) = 0xFFFF" if "k < 10" for k
    using that by (simp add: word16_def)
  then have "ipv4_word_sum (replicate 20 0xFF) = 655350"
    by (simp add: ipv4_word_sum_def)
  then have ok: "ipv4_verify_checksum RISCV (replicate 20 0xFF) = Some True"
    by (simp add: ipv4_verify_iff)
  have "put (replicate 20 0xFF) (2 * 0) (be16 1) = Some (0 # 1 # replicate 18 0xFF)"
    by (simp add: put_def be16_def numeral_eq_Suc)
  then show ?thesis
    using ok ipv4_detects_word_errors [of "replicate 20 0xFF" RISCV 0 1] w [of 0] by (simp add: doubleton_eq_iff)
qed

end
