(* ===== verification/Ethernet.thy ===== *)
theory Ethernet
  imports Arp Ipv4
begin

text \<open>
  \<^verbatim>\<open>apps/network/ethernet/ethernet.c\<close>: the printer of a received frame, which dispatches to the ARP and
  IPv4 printers. The optional resource argument is what \<^verbatim>\<open>resource_print_tag\<close> prints for it (\<open>None\<close>: a
  NULL resource).
\<close>

definition ethernet_print :: "arch \<Rightarrow> u8 list option \<Rightarrow> u64 \<Rightarrow> string option \<Rightarrow> int \<Rightarrow> string option" where
  "ethernet_print a frame_ptr len resource_tag leftpad = (case frame_ptr of
     None \<Rightarrow> Some (''Ethernet frame too small'' @ [CHR 0x0A])
   | Some frame \<Rightarrow>
       if len < 14 then Some (''Ethernet frame too small'' @ [CHR 0x0A])
       else do {
         eth_type \<leftarrow> ntohs_unaligned (drop 12 frame);
         src_s \<leftarrow> net_print_mac (drop 6 frame);
         dst_s \<leftarrow> net_print_mac frame;
         (let line = (case resource_tag of None \<Rightarrow> [] | Some tag \<Rightarrow> tag @ '' '') @ print_pad leftpad @
                ''Ethernet '' @ src_s @ '' -> '' @ dst_s @ '' type=0x'' @ put_hex16 eth_type @
                '' len='' @ net_print_decimal_u8 (ucast len) @ [CHR 0x0A];
              payload = drop 14 frame;
              payload_len = len - 14 in do {
         body \<leftarrow> (if eth_type = ETH_P_ARP then arp_print a (Some payload) (leftpad + 2)
                  else if eth_type = ETH_P_IP then ipv4_print (Some payload) payload_len (leftpad + 2)
                  else Some []);
         Some (line @ body) }) })"

text \<open>What the header of a frame must satisfy for the printers to stay inside it.\<close>

definition printable_frame :: "u8 list \<Rightarrow> bool" where
  "printable_frame frame = (case ntohs_unaligned (drop 12 frame) of
     None \<Rightarrow> True
   | Some ty \<Rightarrow>
       if ty = ETH_P_ARP then ARP_PACKET_SIZE \<le> length frame
       else if ty = ETH_P_IP then ipv4_lengths_ok (drop 14 frame)
       else True)"

lemma arp_print_total:
  assumes "28 \<le> length arp"
  shows "\<exists>s. arp_print a (Some arp) leftpad = Some s"
  using be16_at_total [of 6 arp] be32_at_total [of 24 arp] be32_at_total [of 14 arp]
    net_print_mac_at_total [of 8 arp] assms
  by (auto simp: arp_print_def ntohs_at_be)

section \<open>Properties\<close>

text \<open>
  C7: printing a received frame of any contents and any length reads only bytes of the frame, provided
  an ARP frame has the 42 bytes of an ARP packet and an IPv4 header's total length covers the header;
  the printer then always returns.
\<close>

theorem ethernet_print_safe:
  assumes "unat len = length frame" and "printable_frame frame"
  shows "\<exists>s. ethernet_print a (Some frame) len tag leftpad = Some s"
proof (cases "len < 14")
  case False
  then have long: "14 \<le> length frame"
    using assms(1) by (simp add: word_less_nat_alt)
  obtain ty where ty: "ntohs_unaligned (drop 12 frame) = Some ty"
    using be16_at_total [of 12 frame] long by auto
  obtain s1 s2 where mac: "net_print_mac (drop 6 frame) = Some s1" "net_print_mac frame = Some s2"
    using net_print_mac_at_total [of 6 frame] net_print_mac_at_total [of 0 frame] long by auto
  have plen: "unat (len - 14) = length (drop 14 frame)"
    using False assms(1) by (subst unat_sub) (simp_all add: not_less)
  have "\<exists>s. (if ty = ETH_P_ARP then arp_print a (Some (drop 14 frame)) (leftpad + 2)
      else if ty = ETH_P_IP then ipv4_print (Some (drop 14 frame)) (len - 14) (leftpad + 2) else Some []) = Some s"
    using assms(2) ty plen arp_print_total [of "drop 14 frame" a "leftpad + 2"]
      ipv4_print_total [of "len - 14" "drop 14 frame" "leftpad + 2"]
    by (auto simp: printable_frame_def ARP_PACKET_SIZE_def)
  then show ?thesis
    using False ty mac by (auto simp: ethernet_print_def Let_def)
qed (simp add: ethernet_print_def)

lemma ethernet_print_safe_witness:
  "\<exists>s. ethernet_print RISCV (Some (replicate 12 1 @ [8, 6] @ replicate 46 0)) 60 None 0 = Some s"
  by (rule ethernet_print_safe)
     (simp_all add: printable_frame_def ntohs_unaligned_def ETH_P_ARP_def ARP_PACKET_SIZE_def rd8_append)

text \<open>
  both provisos are needed, because the code does not check them: an ARP frame too short for the
  opcode field, and an IPv4 packet whose total length is below its header length, make the printer read
  past the end of the frame.
\<close>

theorem ethernet_print_overread:
  "(14 \<le> length frame \<and> length frame < 22 \<and> unat len = length frame \<and>
     ntohs_unaligned (drop 12 frame) = Some ETH_P_ARP \<longrightarrow> ethernet_print a (Some frame) len tag leftpad = None) \<and>
   ethernet_print a (Some (replicate 12 0 @ [8, 0] @ [0x45, 0, 0, 0, 0, 0, 0, 0, 64, 6] @ replicate 10 0)) 34 tag leftpad = None"
proof
  have "ntohs_unaligned (drop 20 frame) = None" if "length frame < 22"
    using that by (intro be16f.rd_short) simp
  then show "14 \<le> length frame \<and> length frame < 22 \<and> unat len = length frame \<and>
     ntohs_unaligned (drop 12 frame) = Some ETH_P_ARP \<longrightarrow> ethernet_print a (Some frame) len tag leftpad = None"
    by (auto simp: ethernet_print_def word_less_nat_alt arp_print_def ntohs_at_be Let_def)
  let ?f = "replicate 12 0 @ [8, 0] @ [0x45, 0, 0, 0, 0, 0, 0, 0, 64, 6] @ replicate 10 0 :: u8 list"
  have "ipv4_print (Some (drop 14 ?f)) 20 (leftpad + 2) = None"
    by (simp add: ipv4_print_def ntohs_unaligned_def ntohl_unaligned_def print_defs Let_def ihl_bytes_def
        tcp_print_def tcp_read_def IPPROTO_TCP_def)
  moreover have "ntohs_unaligned (drop 12 ?f) = Some ETH_P_IP"
    by (simp add: ntohs_unaligned_def ETH_P_IP_def)
  ultimately show "ethernet_print a (Some ?f) 34 tag leftpad = None"
    by (simp add: ethernet_print_def Let_def ETH_P_IP_def ETH_P_ARP_def)
qed

lemma ethernet_print_overread_witness:
  "ethernet_print AMD64 (Some (replicate 12 1 @ [8, 6])) 14 None 0 = None"
proof -
  have "ntohs_unaligned (drop 12 (replicate 12 1 @ [8, 6])) = Some ETH_P_ARP"
    by (simp add: ntohs_unaligned_def ETH_P_ARP_def)
  then show ?thesis
    using ethernet_print_overread [of "replicate 12 1 @ [8, 6]" 14 AMD64 None 0] by simp
qed

end
