(* ===== verification/Linked_List.thy ===== *)
theory Linked_List
  imports Prelude
begin

text \<open>
  Singly linked lists threaded through static arrays, as \<^verbatim>\<open>kernel/devices/devices.c\<close> and
  \<^verbatim>\<open>kernel/resources/resources.c\<close> keep them: a node is its index in the array, a pointer is an optional
  index, and \<open>nxt\<close> reads the link of a node. \<open>linked nxt p xs\<close> says that following the links from \<open>p\<close>
  visits exactly the nodes \<open>xs\<close> and ends at NULL.
\<close>

fun linked :: "('n \<Rightarrow> 'n option) \<Rightarrow> 'n option \<Rightarrow> 'n list \<Rightarrow> bool" where
  "linked nxt p [] \<longleftrightarrow> p = None"
| "linked nxt p (x # xs) \<longleftrightarrow> p = Some x \<and> linked nxt (nxt x) xs"

lemma linked_cong:
  "(\<And>x. x \<in> set xs \<Longrightarrow> nxt x = nxt' x) \<Longrightarrow> linked nxt p xs \<longleftrightarrow> linked nxt' p xs"
  by (induction xs arbitrary: p) simp_all

lemma linked_congD: "linked nxt p xs \<Longrightarrow> (\<And>x. x \<in> set xs \<Longrightarrow> nxt' x = nxt x) \<Longrightarrow> linked nxt' p xs"
  using linked_cong [of xs nxt' nxt p] by blast

text \<open>
  The search loop \<^verbatim>\<open>for (x = p; x != NULL; x = x->next) if (P(x)) return x; return NULL;\<close>. A cyclic list
  would make it run forever, which is the value \<open>None\<close>.
\<close>

partial_function (option) walk_find :: "('n \<Rightarrow> 'n option) \<Rightarrow> ('n \<Rightarrow> bool) \<Rightarrow> 'n option \<Rightarrow> 'n option option" where
  "walk_find nxt P p = (case p of
     None \<Rightarrow> Some None
   | Some x \<Rightarrow> if P x then Some (Some x) else walk_find nxt P (nxt x))"

lemma walk_find_None [simp]: "walk_find nxt P None = Some None"
  by (simp add: walk_find.simps)

lemma walk_find_Some:
  "walk_find nxt P (Some x) = (if P x then Some (Some x) else walk_find nxt P (nxt x))"
  by (simp add: walk_find.simps [of nxt P "Some x"])

lemma walk_find_linked: "linked nxt p xs \<Longrightarrow> walk_find nxt P p = Some (find P xs)"
  by (induction xs arbitrary: p) (simp_all add: walk_find_Some)

lemma find_not_None: "find P xs \<noteq> None \<longleftrightarrow> (\<exists>x \<in> set xs. P x)"
  by (metis find_None_iff)

text \<open>The output loop \<^verbatim>\<open>while (x) { print(x); x = x->next; }\<close>.\<close>

partial_function (option) walk_print :: "('n \<Rightarrow> 'n option) \<Rightarrow> ('n \<Rightarrow> string option) \<Rightarrow> 'n option \<Rightarrow> string option" where
  "walk_print nxt item p = (case p of
     None \<Rightarrow> Some []
   | Some x \<Rightarrow> do { s \<leftarrow> item x; rest \<leftarrow> walk_print nxt item (nxt x); Some (s @ rest) })"

lemma walk_print_linked:
  "linked nxt p xs \<Longrightarrow> (\<And>x. x \<in> set xs \<Longrightarrow> item x = Some (out x)) \<Longrightarrow>
   walk_print nxt item p = Some (concat (map out xs))"
  by (induction xs arbitrary: p) (simp_all add: walk_print.simps)

text \<open>
  A loop over a list with a state and an early return: \<open>Inl\<close> is a \<^verbatim>\<open>return\<close> from the body, \<open>Inr\<close> the
  state for the next node, whose link is read in that state; at the end of the list the state is returned.
\<close>

partial_function (option) walk_loop ::
  "('n \<Rightarrow> 's \<Rightarrow> ('r + 's) option) \<Rightarrow> ('s \<Rightarrow> 'n \<Rightarrow> 'n option) \<Rightarrow> 'n option \<Rightarrow> 's \<Rightarrow> ('r + 's) option" where
  "walk_loop body nxt p s = (case p of
     None \<Rightarrow> Some (Inr s)
   | Some x \<Rightarrow> Option.bind (body x s) (\<lambda>r.
       case r of Inl v \<Rightarrow> Some (Inl v) | Inr s' \<Rightarrow> walk_loop body nxt (nxt s' x) s'))"

text \<open>The same loop over the list of the nodes.\<close>

fun list_loop :: "('n \<Rightarrow> 's \<Rightarrow> ('r + 's) option) \<Rightarrow> 'n list \<Rightarrow> 's \<Rightarrow> ('r + 's) option" where
  "list_loop body [] s = Some (Inr s)"
| "list_loop body (x # xs) s = Option.bind (body x s) (\<lambda>r.
     case r of Inl v \<Rightarrow> Some (Inl v) | Inr s' \<Rightarrow> list_loop body xs s')"

lemma walk_loop_linked:
  assumes "linked (nxt s) p xs" and "I s"
    and "\<And>x s s'. x \<in> set xs \<Longrightarrow> I s \<Longrightarrow> body x s = Some (Inr s') \<Longrightarrow> I s'"
    and "\<And>s s' y. y \<in> set xs \<Longrightarrow> I s \<Longrightarrow> I s' \<Longrightarrow> nxt s y = nxt s' y"
  shows "walk_loop body nxt p s = list_loop body xs s"
  using assms
proof (induction xs arbitrary: p s)
  case Nil
  then show ?case
    by (simp add: walk_loop.simps)
next
  case (Cons x xs)
  show ?case
  proof (cases "body x s")
    case None
    then show ?thesis
      using Cons.prems(1) by (simp add: walk_loop.simps [of body nxt "Some x" s])
  next
    case (Some r)
    show ?thesis
    proof (cases r)
      case (Inl v)
      then show ?thesis
        using Some Cons.prems(1) by (simp add: walk_loop.simps [of body nxt "Some x" s])
    next
      case (Inr s')
      have I': "I s'"
        using Cons.prems(2,3) Some Inr by auto
      have "linked (nxt s) (nxt s x) xs"
        using Cons.prems(1) by simp
      then have "linked (nxt s') (nxt s x) xs"
        by (rule linked_congD) (rule Cons.prems(4) [OF _ I' Cons.prems(2)], simp)
      moreover have "nxt s x = nxt s' x"
        by (rule Cons.prems(4) [OF _ Cons.prems(2) I']) simp
      ultimately have "linked (nxt s') (nxt s' x) xs"
        by simp
      then have "walk_loop body nxt (nxt s' x) s' = list_loop body xs s'"
      proof (rule Cons.IH [OF _ I'])
        show "I v" if "y \<in> set xs" "I u" "body y u = Some (Inr v)" for y u v
          using Cons.prems(3) [of y u v] that by simp
        show "nxt u y = nxt v y" if "y \<in> set xs" "I u" "I v" for u v y
          by (rule Cons.prems(4)) (use that in simp_all)
      qed
      then show ?thesis
        using Some Inr Cons.prems(1) by (simp add: walk_loop.simps [of body nxt "Some x" s])
    qed
  qed
qed

lemma linked_unique: "linked nxt p xs \<Longrightarrow> linked nxt p ys \<Longrightarrow> xs = ys"
proof (induction xs arbitrary: p ys)
  case Nil
  then show ?case by (cases ys) auto
next
  case (Cons x xs)
  then show ?case by (cases ys) auto
qed

text \<open>A linked list without a NULL in between does not repeat a node.\<close>

lemma linked_distinct: "linked nxt p xs \<Longrightarrow> distinct xs"
proof (induction "length xs" arbitrary: p xs rule: less_induct)
  case less
  show ?case
  proof (rule ccontr)
    assume "\<not> distinct xs"
    then obtain us y vs ws where xs: "xs = us @ y # vs @ y # ws"
      using not_distinct_decomp [of xs] by auto
    have suffix: "linked nxt (Some y) (y # zs)" if "linked nxt q (rs @ y # zs)" for q rs zs
      using that by (induction rs arbitrary: q) auto
    have "linked nxt (Some y) (y # vs @ y # ws)" and "linked nxt (Some y) (y # ws)"
      using less.prems suffix [of p us] suffix [of p "us @ y # vs" ws] by (simp_all add: xs)
    then have "y # vs @ y # ws = y # ws"
      by (rule linked_unique)
    then have "length (vs @ y # ws) = length ws"
      by simp
    then show False
      by simp
  qed
qed

text \<open>Appending a node at the tail, prepending one at the head, and unlinking one.\<close>

lemma linked_snoc:
  assumes "linked nxt p xs" and "x \<notin> set xs" and "xs \<noteq> []"
  shows "linked (nxt(last xs := Some x, x := None)) p (xs @ [x])"
  using assms
proof (induction xs arbitrary: p)
  case (Cons y ys)
  show ?case
  proof (cases "ys = []")
    case True
    then show ?thesis using Cons.prems by auto
  next
    case False
    have "y \<noteq> last ys" and "y \<noteq> x"
      using linked_distinct [OF Cons.prems(1)] False Cons.prems(2) by auto
    then show ?thesis
      using Cons False by auto
  qed
qed simp

lemma linked_last: "linked nxt p xs \<Longrightarrow> xs \<noteq> [] \<Longrightarrow> nxt (last xs) = None"
proof (induction xs arbitrary: p)
  case (Cons x xs)
  then show ?case by (cases xs) auto
qed simp

lemma linked_next:
  assumes "linked nxt p (us @ x # vs)"
  shows "nxt x = (case vs of [] \<Rightarrow> None | y # _ \<Rightarrow> Some y)" and "linked nxt (nxt x) vs"
proof -
  show l: "linked nxt (nxt x) vs"
    using assms by (induction us arbitrary: p) auto
  then show "nxt x = (case vs of [] \<Rightarrow> None | y # _ \<Rightarrow> Some y)"
    by (cases vs) auto
qed

lemma linked_remove:
  assumes "linked nxt p (us @ y # x # vs)"
  shows "linked (nxt(y := nxt x)) p (us @ y # vs)"
  using assms linked_distinct [OF assms]
proof (induction us arbitrary: p)
  case Nil
  then have "linked (nxt(y := nxt x)) (nxt x) vs \<longleftrightarrow> linked nxt (nxt x) vs"
    by (intro linked_cong) auto
  then show ?case using Nil by (simp del: fun_upd_apply) (simp add: fun_upd_same)
next
  case (Cons u us)
  then show ?case by simp
qed

end
