(* ===== verification/Devices.thy ===== *)
theory Devices
  imports Linked_List Logging "HOL-Library.Multiset"
begin

text \<open>
  The device registry of \<^verbatim>\<open>kernel/devices/devices.c\<close>. The static array \<^verbatim>\<open>device_storage[128]\<close> with its counter is
  the list of entries in use; a \<^verbatim>\<open>device_t *\<close> is an index into it. String pointers are optional strings, a
  driver is identified by its address (a number).
\<close>

datatype device_lifecycle =
  DEVICE_STATE_DISCOVERED | DEVICE_STATE_BOUND | DEVICE_STATE_ACTIVE | DEVICE_STATE_REMOVED

record device =
  dev_compatible :: "string option"
  dev_name :: "string option"
  reg_base :: u64
  reg_size :: u64
  vendor_id :: u16
  device_id :: u16
  dev_bus :: u8
  device_num :: u8
  dev_function :: u8
  dev_driver :: "nat option"
  dev_state :: device_lifecycle
  mmio_virt :: u64
  driver_data :: u64
  dev_parent :: "nat option"
  first_child :: "nat option"
  next_sibling :: "nat option"
  dev_depth :: int
  dev_next :: "nat option"

record registry =
  device_storage :: "device list"
  device_list_head :: "nat option"
  device_tree_root :: "nat option"
  fdt_address :: u64
  devices_log :: "nat option"

definition registry_boot :: registry where
  "registry_boot = \<lparr>device_storage = [], device_list_head = None, device_tree_root = None, fdt_address = 0,
     devices_log = None\<rparr>"

definition MAX_DEVICES :: nat where
  "MAX_DEVICES = 128"

section \<open>Operations\<close>

text \<open>The copy of the reported device, with the links and the driver state cleared.\<close>

definition fresh_entry :: "device \<Rightarrow> device" where
  "fresh_entry d = d\<lparr>dev_state := DEVICE_STATE_DISCOVERED, dev_driver := None, mmio_virt := 0, driver_data := 0,
     dev_parent := None, first_child := None, next_sibling := None, dev_next := None\<rparr>"

abbreviation next_of :: "registry \<Rightarrow> nat \<Rightarrow> nat option" where
  "next_of st i \<equiv> dev_next (device_storage st ! i)"

definition upd_device :: "nat \<Rightarrow> (device \<Rightarrow> device) \<Rightarrow> registry \<Rightarrow> registry" where
  "upd_device i f st = st\<lparr>device_storage := (device_storage st)[i := f (device_storage st ! i)]\<rparr>"

definition add_device_to_registry :: "device \<Rightarrow> registry \<Rightarrow> registry option" where
  "add_device_to_registry d st =
     (let n = length (device_storage st) in
      if n \<ge> MAX_DEVICES then Some st
      else (let st1 = st\<lparr>device_storage := device_storage st @ [fresh_entry d]\<rparr> in
        case device_list_head st1 of
          None \<Rightarrow> Some (st1\<lparr>device_list_head := Some n\<rparr>)
        | Some h \<Rightarrow> do {
            t \<leftarrow> walk_find (next_of st1) (\<lambda>i. next_of st1 i = None) (Some h);
            (case t of None \<Rightarrow> None | Some cur \<Rightarrow> Some (upd_device cur (dev_next_update (\<lambda>_. Some n)) st1)) }))"

text \<open>
  The second loop of \<^verbatim>\<open>build_tree_hierarchy\<close>, from \<open>current\<close> on, with \<^verbatim>\<open>last_child\<close>.
\<close>

partial_function (option) link_children :: "nat \<Rightarrow> nat option \<Rightarrow> nat option \<Rightarrow> registry \<Rightarrow> registry option" where
  "link_children root current last_child st = (case current of
     None \<Rightarrow> Some st
   | Some c \<Rightarrow>
       if dev_depth (device_storage st ! c) = 1 \<and> c \<noteq> root then
         (let st1 = upd_device c (dev_parent_update (\<lambda>_. Some root)) st in
          if first_child (device_storage st1 ! root) = None
          then (let st2 = upd_device root (first_child_update (\<lambda>_. Some c)) st1 in
            link_children root (next_of st2 c) (Some c) st2)
          else (case last_child of
              Some l \<Rightarrow> (let st2 = upd_device l (next_sibling_update (\<lambda>_. Some c)) st1 in
                link_children root (next_of st2 c) (Some c) st2)
            | None \<Rightarrow> link_children root (next_of st1 c) None st1))
       else link_children root (next_of st c) last_child st)"

definition build_tree_hierarchy :: "registry \<Rightarrow> registry option" where
  "build_tree_hierarchy st = do {
     root \<leftarrow> walk_find (next_of st) (\<lambda>i. dev_depth (device_storage st ! i) = 0) (device_list_head st);
     (case root of
        None \<Rightarrow> Some st
      | Some r \<Rightarrow> link_children r (device_list_head st) None (st\<lparr>device_tree_root := Some r\<rparr>)) }"

text \<open>
  \<^verbatim>\<open>devices_enumerate\<close> of the target calls the callback on each device it finds: it is represented by the
  list of these devices and the count it returns.
\<close>

fun add_all :: "device list \<Rightarrow> registry \<Rightarrow> registry option" where
  "add_all [] st = Some st"
| "add_all (d # ds) st = do { st' \<leftarrow> add_device_to_registry d st; add_all ds st' }"

definition devices_scan :: "device list \<times> int \<Rightarrow> log_state \<Rightarrow> registry \<Rightarrow> (int \<times> string \<times> log_state \<times> registry) option" where
  "devices_scan enum lg st = (case enum of (reported, device_count) \<Rightarrow>
     let (tag, lg) = (case devices_log st of None \<Rightarrow> log_register lg ''devices'' LOG_INFO | Some t \<Rightarrow> (Some t, lg));
         out1 = log_info (log_deref lg tag) (''Scanning device tree...'' @ [CHR 0x0A]);
         out2 = (if log_enabled (log_deref lg tag) LOG_INFO
                 then log_prefix (log_deref lg tag) LOG_INFO @ ''Found '' @ put_hex16 (word_of_int device_count) @
                      '' device(s)'' @ [CHR 0x0A] else []) in do {
       st \<leftarrow> add_all reported (st\<lparr>devices_log := tag\<rparr>);
       st \<leftarrow> build_tree_hierarchy st;
       Some (device_count, out1 @ out2, lg, st) })"

definition devices_get_first :: "registry \<Rightarrow> nat option" where
  "devices_get_first st = device_list_head st"

definition devices_get_next :: "registry \<Rightarrow> nat option \<Rightarrow> nat option" where
  "devices_get_next st current = (case current of None \<Rightarrow> None | Some i \<Rightarrow> next_of st i)"

definition device_get_driver :: "registry \<Rightarrow> nat option \<Rightarrow> nat option" where
  "device_get_driver st d = (case d of None \<Rightarrow> None | Some i \<Rightarrow> dev_driver (device_storage st ! i))"

definition device_set_driver :: "nat option \<Rightarrow> nat option \<Rightarrow> registry \<Rightarrow> registry" where
  "device_set_driver d drv st = (case d of None \<Rightarrow> st | Some i \<Rightarrow> upd_device i (dev_driver_update (\<lambda>_. drv)) st)"

definition device_map_mmio :: "nat option \<Rightarrow> registry \<Rightarrow> u64 \<times> registry" where
  "device_map_mmio d st = (case d of
     None \<Rightarrow> (0, st)
   | Some i \<Rightarrow> (let st' = upd_device i (\<lambda>v. v\<lparr>mmio_virt := reg_base v\<rparr>) st in (mmio_virt (device_storage st' ! i), st')))"

definition device_unmap_mmio :: "nat option \<Rightarrow> registry \<Rightarrow> registry" where
  "device_unmap_mmio d st = (case d of None \<Rightarrow> st | Some i \<Rightarrow> upd_device i (mmio_virt_update (\<lambda>_. 0)) st)"

definition device_get_parent :: "registry \<Rightarrow> nat option \<Rightarrow> nat option" where
  "device_get_parent st d = (case d of None \<Rightarrow> None | Some i \<Rightarrow> dev_parent (device_storage st ! i))"

definition device_get_first_child :: "registry \<Rightarrow> nat option \<Rightarrow> nat option" where
  "device_get_first_child st d = (case d of None \<Rightarrow> None | Some i \<Rightarrow> first_child (device_storage st ! i))"

definition device_get_next_sibling :: "registry \<Rightarrow> nat option \<Rightarrow> nat option" where
  "device_get_next_sibling st d = (case d of None \<Rightarrow> None | Some i \<Rightarrow> next_sibling (device_storage st ! i))"

definition device_find_by_name :: "registry \<Rightarrow> string option \<Rightarrow> nat option option" where
  "device_find_by_name st name = (case name of
     None \<Rightarrow> Some None
   | Some n \<Rightarrow> walk_find (next_of st)
       (\<lambda>i. case dev_name (device_storage st ! i) of None \<Rightarrow> False | Some s \<Rightarrow> strcmp s n = 0) (device_list_head st))"

definition device_set_fdt :: "u64 \<Rightarrow> registry \<Rightarrow> registry" where
  "device_set_fdt a st = st\<lparr>fdt_address := a\<rparr>"

definition device_get_fdt :: "registry \<Rightarrow> u64" where
  "device_get_fdt st = fdt_address st"






section \<open>The registry is a list of devices\<close>

text \<open>
  The invariant: the links run through the entries in the order of their storage. The contents of the
  registry are its entries without the links.
\<close>

definition reg_inv :: "registry \<Rightarrow> bool" where
  "reg_inv st \<longleftrightarrow> length (device_storage st) \<le> MAX_DEVICES \<and>
     linked (next_of st) (device_list_head st) [0..<length (device_storage st)]"

definition unlinked :: "device \<Rightarrow> device" where
  "unlinked d = d\<lparr>dev_next := None\<rparr>"

definition contents :: "registry \<Rightarrow> device list" where
  "contents st = map unlinked (device_storage st)"

lemma unlinked_fresh [simp]: "unlinked (fresh_entry d) = fresh_entry d"
  by (simp add: unlinked_def fresh_entry_def)

lemma reg_inv_boot: "reg_inv registry_boot"
  by (simp add: reg_inv_def registry_boot_def)

lemma find_last: "xs \<noteq> [] \<Longrightarrow> (\<And>x. x \<in> set xs \<Longrightarrow> P x \<longleftrightarrow> x = last xs) \<Longrightarrow> find P xs = Some (last xs)"
proof (induction xs)
  case (Cons x xs)
  then show ?case
    by (cases "xs = []") auto
qed simp

lemma linked_tail:
  assumes "linked nxt p xs" and "xs \<noteq> []"
  shows "walk_find nxt (\<lambda>i. nxt i = None) p = Some (Some (last xs))"
proof -
  have "nxt x = None \<longleftrightarrow> x = last xs" if "x \<in> set xs" for x
  proof -
    from that obtain us vs where xs: "xs = us @ x # vs"
      by (meson split_list)
    show ?thesis
    proof (cases vs)
      case Nil
      then show ?thesis
        using linked_next(1) [of nxt p us x vs] assms(1) by (simp add: xs)
    next
      case (Cons y ys)
      then have "nxt x \<noteq> None" and "x \<noteq> last xs"
        using linked_next(1) [of nxt p us x vs] assms(1) linked_distinct [OF assms(1)] by (auto simp: xs)
      then show ?thesis by simp
    qed
  qed
  then have "find (\<lambda>i. nxt i = None) xs = Some (last xs)"
    using find_last [OF assms(2), of "\<lambda>i. nxt i = None"] by blast
  then show ?thesis
    using walk_find_linked [OF assms(1)] by simp
qed

lemma upd_device_sel [simp]:
  "device_list_head (upd_device i f st) = device_list_head st"
  "device_tree_root (upd_device i f st) = device_tree_root st"
  "fdt_address (upd_device i f st) = fdt_address st"
  "devices_log (upd_device i f st) = devices_log st"
  "length (device_storage (upd_device i f st)) = length (device_storage st)"
  by (simp_all add: upd_device_def)

lemma upd_device_nth:
  "j < length (device_storage st) \<Longrightarrow>
   device_storage (upd_device i f st) ! j = (if i = j then f (device_storage st ! j) else device_storage st ! j)"
  by (simp add: upd_device_def nth_list_update)

lemma add_device_spec:
  assumes "reg_inv st"
  shows "\<exists>st'. add_device_to_registry d st = Some st' \<and> reg_inv st' \<and>
    contents st' = take MAX_DEVICES (contents st @ [fresh_entry d]) \<and>
    device_tree_root st' = device_tree_root st \<and> fdt_address st' = fdt_address st \<and> devices_log st' = devices_log st"
proof (cases "length (device_storage st) < MAX_DEVICES")
  case False
  then show ?thesis
    using assms by (auto simp: add_device_to_registry_def Let_def contents_def reg_inv_def)
next
  case True
  define n where "n = length (device_storage st)"
  define st1 where "st1 = st\<lparr>device_storage := device_storage st @ [fresh_entry d]\<rparr>"
  have l: "linked (next_of st) (device_list_head st) [0..<n]"
    using assms by (simp add: reg_inv_def n_def)
  have old: "next_of st1 i = next_of st i" if "i < n" for i
    using that by (simp add: st1_def n_def nth_append)
  have new: "next_of st1 n = None"
    by (simp add: st1_def n_def fresh_entry_def)
  have l1: "linked (next_of st1) (device_list_head st) [0..<n]"
    using l old linked_cong [of "[0..<n]" "next_of st1" "next_of st"] by simp
  show ?thesis
  proof (cases "n = 0")
    case True
    then have "device_list_head st = None"
      using l by simp
    then show ?thesis
      using True \<open>length (device_storage st) < MAX_DEVICES\<close>
      by (auto simp: add_device_to_registry_def Let_def n_def reg_inv_def contents_def fresh_entry_def unlinked_def)
  next
    case False
    then obtain h where h: "device_list_head st = Some h"
      using l by (cases "device_list_head st") (auto simp: upt_conv_Cons)
    have h1: "device_list_head st1 = Some h"
      using h by (simp add: st1_def)
    have lst: "last [0..<n] = n - 1" and ne: "[0..<n] \<noteq> []"
      using False by simp_all
    have walk: "walk_find (next_of st1) (\<lambda>i. next_of st1 i = None) (Some h) = Some (Some (n - 1))"
      using linked_tail [OF l1 ne] h lst by simp
    define st2 where "st2 = upd_device (n - 1) (dev_next_update (\<lambda>_. Some n)) st1"
    have add: "add_device_to_registry d st = Some st2"
      unfolding add_device_to_registry_def Let_def n_def [symmetric] st1_def [symmetric]
      using True h1 walk by (simp add: st2_def n_def)
    have len: "length (device_storage st1) = n + 1"
      by (simp add: st1_def n_def)
    have "linked ((next_of st1)(n - 1 := Some n, n := None)) (device_list_head st) ([0..<n] @ [n])"
      using linked_snoc [OF l1 _ ne, of n] lst by simp
    moreover have "next_of st2 i = ((next_of st1)(n - 1 := Some n, n := None)) i" if "i \<in> set ([0..<n] @ [n])" for i
      using that len new False by (auto simp: st2_def upd_device_nth)
    ultimately have "linked (next_of st2) (device_list_head st) ([0..<n] @ [n])"
      using linked_cong [of "[0..<n] @ [n]" "next_of st2" "(next_of st1)(n - 1 := Some n, n := None)"] by blast
    then have "reg_inv st2"
      using True len by (simp add: reg_inv_def st2_def n_def st1_def)
    moreover have "contents st2 = contents st @ [fresh_entry d]"
      using False len by (auto simp: contents_def st2_def upd_device_def st1_def n_def unlinked_def
          list_update_append map_update fresh_entry_def nth_append intro!: nth_equalityI simp: nth_list_update)
    ultimately show ?thesis
      using add True by (auto simp: st2_def st1_def contents_def)
  qed
qed

lemma add_all_spec:
  assumes "reg_inv st"
  shows "\<exists>st'. add_all ds st = Some st' \<and> reg_inv st' \<and> contents st' = take MAX_DEVICES (contents st @ map fresh_entry ds) \<and>
    device_tree_root st' = device_tree_root st \<and> fdt_address st' = fdt_address st \<and> devices_log st' = devices_log st"
  using assms
proof (induction ds arbitrary: st)
  case Nil
  then show ?case
    by (simp add: reg_inv_def contents_def)
next
  case (Cons d ds)
  obtain st1 where st1: "add_device_to_registry d st = Some st1" "reg_inv st1"
    "contents st1 = take MAX_DEVICES (contents st @ [fresh_entry d])"
    "device_tree_root st1 = device_tree_root st" "fdt_address st1 = fdt_address st" "devices_log st1 = devices_log st"
    using add_device_spec [OF Cons.prems, of d] by blast
  have "take MAX_DEVICES (contents st1 @ map fresh_entry ds) = take MAX_DEVICES (contents st @ map fresh_entry (d # ds))"
    unfolding st1(3) by (cases "length (contents st) < MAX_DEVICES") (simp_all add: take_Cons')
  then show ?case
    using Cons.IH [OF st1(2)] st1 by simp
qed

section \<open>The tree hierarchy\<close>

text \<open>An entry without its tree links.\<close>

definition untreed :: "device \<Rightarrow> device" where
  "untreed d = d\<lparr>dev_parent := None, first_child := None, next_sibling := None\<rparr>"

text \<open>
  The state of the linking loop: \<open>cs\<close> are the children of \<open>r\<close> linked so far, and apart from the tree
  links nothing has changed since \<open>st0\<close>.
\<close>

definition tree_inv :: "registry \<Rightarrow> nat \<Rightarrow> nat list \<Rightarrow> registry \<Rightarrow> bool" where
  "tree_inv st0 r cs st \<longleftrightarrow>
     map untreed (device_storage st) = map untreed (device_storage st0) \<and>
     device_list_head st = device_list_head st0 \<and> device_tree_root st = device_tree_root st0 \<and>
     fdt_address st = fdt_address st0 \<and> devices_log st = devices_log st0 \<and>
     (\<forall>i < length (device_storage st). dev_parent (device_storage st ! i) = (if i \<in> set cs then Some r else None)) \<and>
     (\<forall>i < length (device_storage st). first_child (device_storage st ! i) =
        (if i = r \<and> cs \<noteq> [] then Some (hd cs) else None)) \<and>
     (\<forall>i < length (device_storage st). i \<notin> set cs \<longrightarrow> next_sibling (device_storage st ! i) = None) \<and>
     linked (\<lambda>i. next_sibling (device_storage st ! i)) (if cs = [] then None else Some (hd cs)) cs \<and>
     set cs \<subseteq> {..<length (device_storage st)} \<and> distinct cs"

lemma tree_inv_length: "tree_inv st0 r cs st \<Longrightarrow> length (device_storage st) = length (device_storage st0)"
  unfolding tree_inv_def by (metis length_map)

lemma tree_inv_nth:
  assumes "tree_inv st0 r cs st" and "i < length (device_storage st)"
  shows "next_of st i = next_of st0 i" and "dev_depth (device_storage st ! i) = dev_depth (device_storage st0 ! i)"
proof -
  have "untreed (device_storage st ! i) = untreed (device_storage st0 ! i)"
    using assms tree_inv_length [OF assms(1)] unfolding tree_inv_def by (metis nth_map)
  then have "dev_next (untreed (device_storage st ! i)) = dev_next (untreed (device_storage st0 ! i))"
    and "dev_depth (untreed (device_storage st ! i)) = dev_depth (untreed (device_storage st0 ! i))"
    by simp_all
  then show "next_of st i = next_of st0 i" and "dev_depth (device_storage st ! i) = dev_depth (device_storage st0 ! i)"
    by (simp_all add: untreed_def)
qed

text \<open>Linking one more child keeps the state of the loop.\<close>

definition link_child :: "nat \<Rightarrow> nat list \<Rightarrow> nat \<Rightarrow> registry \<Rightarrow> registry" where
  "link_child r cs c st =
     (let st1 = upd_device c (dev_parent_update (\<lambda>_. Some r)) st in
      if cs = [] then upd_device r (first_child_update (\<lambda>_. Some c)) st1
      else upd_device (last cs) (next_sibling_update (\<lambda>_. Some c)) st1)"

lemma map_untreed_upd:
  "(\<And>d. untreed (f d) = untreed d) \<Longrightarrow> map untreed (device_storage (upd_device i f st)) = map untreed (device_storage st)"
  by (simp add: upd_device_def map_update)
     (metis list_update_beyond list_update_id length_map linorder_not_less nth_map)

lemma link_child_inv:
  assumes inv: "tree_inv st0 r cs st" and c: "c < length (device_storage st)" "c \<notin> set cs" "c \<noteq> r"
    and r: "r < length (device_storage st)" "r \<notin> set cs"
  shows "tree_inv st0 r (cs @ [c]) (link_child r cs c st)"
proof -
  let ?n = "length (device_storage st)" and ?st = "link_child r cs c st"
  have sub: "set cs \<subseteq> {..<?n}"
    using inv by (simp add: tree_inv_def)
  then have last: "cs \<noteq> [] \<Longrightarrow> last cs \<in> set cs" "cs \<noteq> [] \<Longrightarrow> last cs < ?n"
    by (simp, metis lessThan_iff subsetD last_in_set)
  have nth: "device_storage ?st ! i =
      (let d = device_storage st ! i; d1 = (if i = c then d\<lparr>dev_parent := Some r\<rparr> else d) in
       if cs = [] \<and> i = r then d1\<lparr>first_child := Some c\<rparr>
       else if cs \<noteq> [] \<and> i = last cs then d1\<lparr>next_sibling := Some c\<rparr> else d1)" if "i < ?n" for i
    using that c r by (auto simp: link_child_def Let_def upd_device_nth)
  have len: "length (device_storage ?st) = ?n"
    by (simp add: link_child_def Let_def)
  have un: "map untreed (device_storage ?st) = map untreed (device_storage st)"
    by (simp add: link_child_def Let_def map_untreed_upd untreed_def)
  have sib: "linked (\<lambda>i. next_sibling (device_storage ?st ! i)) (Some (hd (cs @ [c]))) (cs @ [c])"
  proof (cases "cs = []")
    case True
    then show ?thesis
      using inv c r nth [of c] by (auto simp: tree_inv_def Let_def)
  next
    case False
    have "linked (\<lambda>i. next_sibling (device_storage st ! i)) (Some (hd cs)) cs"
      using inv False by (simp add: tree_inv_def)
    from linked_snoc [OF this c(2) False]
    have "linked ((\<lambda>i. next_sibling (device_storage st ! i))(last cs := Some c, c := None)) (Some (hd cs)) (cs @ [c])" .
    moreover have "next_sibling (device_storage ?st ! i) =
        ((\<lambda>i. next_sibling (device_storage st ! i))(last cs := Some c, c := None)) i" if "i \<in> set (cs @ [c])" for i
    proof -
      have "i < ?n"
        using that inv c by (auto simp: tree_inv_def)
      then show ?thesis
        using nth [of i] False c inv last by (auto simp: Let_def tree_inv_def)
    qed
    ultimately have "linked (\<lambda>i. next_sibling (device_storage ?st ! i)) (Some (hd cs)) (cs @ [c])"
      by (rule linked_congD)
    then show ?thesis
      using False by simp
  qed
  show ?thesis
    unfolding tree_inv_def len un
    using inv sib nth c r last
    by (auto simp: tree_inv_def Let_def link_child_def)
qed

definition is_child :: "registry \<Rightarrow> nat \<Rightarrow> nat \<Rightarrow> bool" where
  "is_child st r i \<longleftrightarrow> dev_depth (device_storage st ! i) = 1 \<and> i \<noteq> r"

lemma link_children_step:
  assumes inv: "tree_inv st0 r cs st" and c: "c < length (device_storage st)" "c \<notin> set cs"
    and r: "r < length (device_storage st)"
  shows "link_children r (Some c) (if cs = [] then None else Some (last cs)) st =
    (if is_child st0 r c then link_children r (next_of st0 c) (Some c) (link_child r cs c st)
     else link_children r (next_of st0 c) (if cs = [] then None else Some (last cs)) st)"
proof (cases "is_child st0 r c")
  case False
  then show ?thesis
    using tree_inv_nth [OF inv c(1)]
    by (subst link_children.simps) (auto simp: is_child_def)
next
  case True
  let ?st1 = "upd_device c (dev_parent_update (\<lambda>_. Some r)) st"
  have "first_child (device_storage ?st1 ! r) = (if cs = [] then None else Some (hd cs))"
    using inv r c True by (auto simp: upd_device_nth tree_inv_def is_child_def)
  moreover have nxt: "next_of (link_child r cs c st) c = next_of st0 c"
    using tree_inv_nth(1) [OF inv c(1)] c r True by (auto simp: link_child_def Let_def upd_device_nth)
  moreover have "next_of (upd_device r (first_child_update (\<lambda>_. Some c)) ?st1) c = next_of st0 c"
    using tree_inv_nth(1) [OF inv c(1)] c r True by (auto simp: upd_device_nth)
  ultimately show ?thesis
    using True tree_inv_nth [OF inv c(1)]
    by (auto simp: link_children.simps [of r "Some c"] is_child_def link_child_def Let_def)
qed

lemma link_children_spec:
  assumes "tree_inv st0 r cs st" and "linked (next_of st0) cur ys" and "set ys \<subseteq> {..<length (device_storage st0)}"
    and "set ys \<inter> set cs = {}" and "r < length (device_storage st0)" and "r \<notin> set cs"
  shows "\<exists>st'. link_children r cur (if cs = [] then None else Some (last cs)) st = Some st' \<and>
    tree_inv st0 r (cs @ filter (is_child st0 r) ys) st'"
  using assms
proof (induction ys arbitrary: cs cur st)
  case Nil
  then show ?case
    by (simp add: link_children.simps [of r None])
next
  case (Cons c ys)
  have len: "length (device_storage st) = length (device_storage st0)"
    by (rule tree_inv_length [OF Cons.prems(1)])
  have c: "c < length (device_storage st)" "c \<notin> set cs" and cur: "cur = Some c"
    and l: "linked (next_of st0) (next_of st0 c) ys" and r: "r < length (device_storage st)"
    using Cons.prems len by auto
  have d: "distinct (c # ys)"
    using Cons.prems(2) by (rule linked_distinct)
  show ?case
  proof (cases "is_child st0 r c")
    case True
    have "tree_inv st0 r (cs @ [c]) (link_child r cs c st)"
      using True Cons.prems c r by (intro link_child_inv) (auto simp: is_child_def)
    from Cons.IH [OF this l] show ?thesis
      using True Cons.prems d link_children_step [OF Cons.prems(1) c r] cur by (auto simp: is_child_def)
  next
    case False
    from Cons.IH [OF Cons.prems(1) l] show ?thesis
      using False Cons.prems link_children_step [OF Cons.prems(1) c r] cur by auto
  qed
qed

lemma build_tree_spec:
  assumes inv: "reg_inv st" and fresh: "map untreed (device_storage st) = device_storage st"
    and r: "find (\<lambda>i. dev_depth (device_storage st ! i) = 0) [0..<length (device_storage st)] = Some r"
  shows "\<exists>st'. build_tree_hierarchy st = Some st' \<and>
    tree_inv (st\<lparr>device_tree_root := Some r\<rparr>) r (filter (is_child st r) [0..<length (device_storage st)]) st'"
proof -
  let ?st0 = "st\<lparr>device_tree_root := Some r\<rparr>" and ?n = "length (device_storage st)"
  have l: "linked (next_of st) (device_list_head st) [0..<?n]"
    using inv by (simp add: reg_inv_def)
  have rn: "r < ?n"
    using r by (auto simp: find_Some_iff)
  have un: "dev_parent (device_storage st ! i) = None \<and> first_child (device_storage st ! i) = None \<and>
      next_sibling (device_storage st ! i) = None" if "i < ?n" for i
  proof -
    have "device_storage st ! i = untreed (device_storage st ! i)"
      using fresh that by (metis nth_map)
    then show ?thesis
      by (metis untreed_def device.select_convs(14-16) device.surjective device.update_convs(14-16))
  qed
  then have "tree_inv ?st0 r [] ?st0"
    by (simp add: tree_inv_def)
  from link_children_spec [OF this, of "device_list_head st" "[0..<?n]"] l rn lessThan_atLeast0 [of ?n]
  have "\<exists>st'. link_children r (device_list_head st) None ?st0 = Some st' \<and>
      tree_inv ?st0 r (filter (is_child ?st0 r) [0..<?n]) st'"
    by auto
  moreover have "is_child ?st0 r = is_child st r"
    by (simp add: is_child_def fun_eq_iff)
  ultimately show ?thesis
    using walk_find_linked [OF l, of "\<lambda>i. dev_depth (device_storage st ! i) = 0"] r
    by (simp add: build_tree_hierarchy_def)
qed

section \<open>After a scan\<close>

text \<open>
  The state a scan leaves: \<open>n\<close> entries in list order; without a device of depth 0 a flat list, otherwise
  the first such device is the root and the devices of depth 1 are its children, in list order.
\<close>

definition children_of :: "registry \<Rightarrow> nat \<Rightarrow> nat list" where
  "children_of st r = filter (is_child st r) [0..<length (device_storage st)]"

definition scanned :: "registry \<Rightarrow> bool" where
  "scanned st \<longleftrightarrow> reg_inv st \<and>
     (case find (\<lambda>i. dev_depth (device_storage st ! i) = 0) [0..<length (device_storage st)] of
        None \<Rightarrow> device_tree_root st = None \<and> (\<forall>i < length (device_storage st). first_child (device_storage st ! i) = None)
      | Some r \<Rightarrow> device_tree_root st = Some r \<and> tree_inv st r (children_of st r) st)"

lemma tree_inv_reg_inv:
  assumes "tree_inv st0 r cs st" and "reg_inv st0"
  shows "reg_inv st"
proof -
  have "linked (next_of st) (device_list_head st0) [0..<length (device_storage st0)]"
    using assms(2) tree_inv_nth(1) [OF assms(1)] tree_inv_length [OF assms(1)]
    by (auto simp: reg_inv_def intro: linked_congD)
  then show ?thesis
    using assms tree_inv_length [OF assms(1)] by (simp add: reg_inv_def tree_inv_def)
qed

lemma build_tree_scanned:
  assumes inv: "reg_inv st" and fresh: "map untreed (device_storage st) = device_storage st" and root: "device_tree_root st = None"
  shows "\<exists>st'. build_tree_hierarchy st = Some st' \<and> scanned st' \<and>
    map untreed (device_storage st') = device_storage st \<and> devices_log st' = devices_log st \<and> fdt_address st' = fdt_address st"
proof (cases "find (\<lambda>i. dev_depth (device_storage st ! i) = 0) [0..<length (device_storage st)]")
  case None
  have "first_child (device_storage st ! i) = None" if "i < length (device_storage st)" for i
  proof -
    have "first_child (map untreed (device_storage st) ! i) = None"
      using that by (simp add: untreed_def)
    then show ?thesis
      by (simp only: fresh)
  qed
  then have "scanned st"
    using None inv root by (simp add: scanned_def)
  moreover have "linked (next_of st) (device_list_head st) [0..<length (device_storage st)]"
    using inv by (simp add: reg_inv_def)
  ultimately show ?thesis
    using None fresh walk_find_linked [of "next_of st" "device_list_head st" "[0..<length (device_storage st)]"]
    by (simp add: build_tree_hierarchy_def)
next
  case (Some r)
  obtain st' where st': "build_tree_hierarchy st = Some st'"
    and t: "tree_inv (st\<lparr>device_tree_root := Some r\<rparr>) r (filter (is_child st r) [0..<length (device_storage st)]) st'"
    using build_tree_spec [OF inv fresh Some] by blast
  have len: "length (device_storage st') = length (device_storage st)"
    using tree_inv_length [OF t] by simp
  have depth: "dev_depth (device_storage st' ! i) = dev_depth (device_storage st ! i)" if "i < length (device_storage st)" for i
    using tree_inv_nth(2) [OF t] that len by simp
  have "children_of st' r = filter (is_child st r) [0..<length (device_storage st)]"
    unfolding children_of_def len by (rule filter_cong) (auto simp: is_child_def depth)
  moreover have "find (\<lambda>i. dev_depth (device_storage st' ! i) = 0) [0..<length (device_storage st')] = Some r"
    unfolding len Some [symmetric] by (rule find_cong) (auto simp: depth)
  moreover have "tree_inv st' r (filter (is_child st r) [0..<length (device_storage st)]) st'"
    using t by (simp add: tree_inv_def)
  moreover have "reg_inv st'"
    using tree_inv_reg_inv [OF t] inv by (simp add: reg_inv_def)
  ultimately have "scanned st'"
    using t by (simp add: scanned_def tree_inv_def)
  then show ?thesis
    using st' t fresh by (auto simp: tree_inv_def)
qed

lemma contents_untreed:
  assumes "contents st = map fresh_entry ds"
  shows "map untreed (device_storage st) = device_storage st"
proof (rule nth_equalityI)
  fix i assume "i < length (map untreed (device_storage st))"
  then have i: "i < length (device_storage st)"
    by simp
  moreover have "length ds = length (device_storage st)"
    using arg_cong [OF assms, of length] by (simp add: contents_def)
  ultimately have "unlinked (device_storage st ! i) = fresh_entry (ds ! i)"
    using assms by (metis contents_def nth_map)
  then have "untreed (unlinked (device_storage st ! i)) = unlinked (device_storage st ! i)"
    by (simp add: untreed_def fresh_entry_def)
  then have "untreed (device_storage st ! i) = device_storage st ! i"
    by (cases "device_storage st ! i") (simp add: untreed_def unlinked_def)
  then show "map untreed (device_storage st) ! i = device_storage st ! i"
    using i by simp
qed simp

lemma devices_scan_spec:
  "\<exists>out lg' st. devices_scan (ds, found) lg registry_boot = Some (found, out, lg', st) \<and> scanned st \<and>
     map (\<lambda>d. untreed (unlinked d)) (device_storage st) = take MAX_DEVICES (map fresh_entry ds) \<and>
     (devices_log st, lg') = log_register lg ''devices'' LOG_INFO"
proof -
  obtain tag lg' where tag: "log_register lg ''devices'' LOG_INFO = (tag, lg')"
    by (cases "log_register lg ''devices'' LOG_INFO")
  let ?st0 = "registry_boot\<lparr>devices_log := tag\<rparr>"
  have "reg_inv ?st0"
    by (simp add: reg_inv_def registry_boot_def)
  then obtain st1 where st1: "add_all ds ?st0 = Some st1" "reg_inv st1"
    "contents st1 = take MAX_DEVICES (map fresh_entry ds)" "device_tree_root st1 = None" "devices_log st1 = tag"
    using add_all_spec [of ?st0 ds] by (auto simp: contents_def registry_boot_def)
  have un: "map untreed (device_storage st1) = device_storage st1"
    using contents_untreed [of st1 "take MAX_DEVICES ds"] st1(3) by (simp add: take_map)
  then obtain st2 where st2: "build_tree_hierarchy st1 = Some st2" "scanned st2"
    "map untreed (device_storage st2) = device_storage st1" "devices_log st2 = tag"
    using build_tree_scanned [OF st1(2) un st1(4)] st1(5) by auto
  have "map (\<lambda>d. untreed (unlinked d)) (device_storage st2) = map unlinked (map untreed (device_storage st2))"
    by (simp add: untreed_def unlinked_def)
  also have "\<dots> = take MAX_DEVICES (map fresh_entry ds)"
    using st2(3) st1(3) by (simp add: contents_def)
  finally show ?thesis
    using st1(1) st2 tag by (simp add: devices_scan_def Let_def registry_boot_def)
qed

section \<open>Printing the tree\<close>








lemma device_find_spec:
  assumes "reg_inv st"
  shows "device_find_by_name st (Some n) = Some (find (\<lambda>i. \<exists>s. dev_name (device_storage st ! i) = Some s \<and> cstr s = cstr n)
    [0..<length (device_storage st)])"
proof -
  have "(\<lambda>i. case dev_name (device_storage st ! i) of None \<Rightarrow> False | Some s \<Rightarrow> strcmp s n = 0) =
      (\<lambda>i. \<exists>s. dev_name (device_storage st ! i) = Some s \<and> cstr s = cstr n)"
    by (auto simp: fun_eq_iff strcmp_eq_0 split: option.splits)
  moreover have "linked (next_of st) (device_list_head st) [0..<length (device_storage st)]"
    using assms by (simp add: reg_inv_def)
  ultimately show ?thesis
    using walk_find_linked by (simp add: device_find_by_name_def)
qed

lemma scan_entries:
  assumes "devices_scan (ds, found) lg registry_boot = Some (n, out, lg', st)"
  shows "scanned st" and "length (device_storage st) = min (length ds) MAX_DEVICES"
    and "i < min (length ds) MAX_DEVICES \<Longrightarrow> dev_name (device_storage st ! i) = dev_name (ds ! i) \<and>
      dev_depth (device_storage st ! i) = dev_depth (ds ! i)"
proof -
  have cont: "map (\<lambda>d. untreed (unlinked d)) (device_storage st) = take MAX_DEVICES (map fresh_entry ds)"
    and "scanned st"
    using devices_scan_spec [of ds found lg] assms by auto
  then show "scanned st"
    by simp
  have "length (map (\<lambda>d. untreed (unlinked d)) (device_storage st)) = length (take MAX_DEVICES (map fresh_entry ds))"
    by (simp only: cont)
  then show len: "length (device_storage st) = min (length ds) MAX_DEVICES"
    by simp
  assume i: "i < min (length ds) MAX_DEVICES"
  then have "untreed (unlinked (device_storage st ! i)) = fresh_entry (ds ! i)"
    using arg_cong [OF cont, of "\<lambda>xs. xs ! i"] len by simp
  then have "dev_name (untreed (unlinked (device_storage st ! i))) = dev_name (fresh_entry (ds ! i)) \<and>
      dev_depth (untreed (unlinked (device_storage st ! i))) = dev_depth (fresh_entry (ds ! i))"
    by simp
  then show "dev_name (device_storage st ! i) = dev_name (ds ! i) \<and>
      dev_depth (device_storage st ! i) = dev_depth (ds ! i)"
    by (simp add: untreed_def unlinked_def fresh_entry_def)
qed

section \<open>Properties\<close>

text \<open>
  C8: a scan registers what the enumeration reports: whatever devices are reported, the scan returns the
  count of the enumeration, the registry holds the first 128 reported devices with every field copied and
  driver state and links cleared, following \<open>devices_get_first\<close> and \<open>devices_get_next\<close> visits each of
  them once in that order and ends at NULL, and \<open>device_find_by_name\<close> returns the first one of a name.
\<close>

theorem devices_scan_registers:
  "\<exists>out lg' st. devices_scan (ds, found) lg registry_boot = Some (found, out, lg', st) \<and>
     map (\<lambda>d. untreed (unlinked d)) (device_storage st) = take MAX_DEVICES (map fresh_entry ds) \<and>
     linked (\<lambda>i. devices_get_next st (Some i)) (devices_get_first st) [0..<min (length ds) MAX_DEVICES] \<and>
     device_find_by_name st (Some n) = Some (find (\<lambda>i. \<exists>s. dev_name (ds ! i) = Some s \<and> cstr s = cstr n)
       [0..<min (length ds) MAX_DEVICES])"
proof -
  obtain out lg' st where scan: "devices_scan (ds, found) lg registry_boot = Some (found, out, lg', st)" and ok: "scanned st"
    and cont: "map (\<lambda>d. untreed (unlinked d)) (device_storage st) = take MAX_DEVICES (map fresh_entry ds)"
    using devices_scan_spec [of ds found lg] by blast
  note len = scan_entries(2) [OF scan] and name = scan_entries(3) [OF scan]
  have inv: "reg_inv st"
    using ok by (simp add: scanned_def)
  have "device_find_by_name st (Some n) = Some (find (\<lambda>i. \<exists>s. dev_name (ds ! i) = Some s \<and> cstr s = cstr n)
       [0..<min (length ds) MAX_DEVICES])"
    unfolding device_find_spec [OF inv] len by (simp, rule find_cong) (auto simp: name)
  moreover have "linked (\<lambda>i. devices_get_next st (Some i)) (devices_get_first st) [0..<min (length ds) MAX_DEVICES]"
    using inv len by (simp add: reg_inv_def devices_get_next_def devices_get_first_def)
  ultimately show ?thesis
    using scan cont by blast
qed

text \<open>
  C9: the hierarchy a scan builds: the root is the first registered device of depth 0; its children, followed
  through \<open>device_get_first_child\<close> and \<open>device_get_next_sibling\<close>, are exactly the devices of depth 1 in list
  order, and these are the devices whose parent is the root; without a device of depth 0 there is no root.
\<close>

theorem devices_scan_builds_tree:
  assumes "devices_scan (ds, found) lg registry_boot = Some (n, out, lg', st)"
  shows "case device_tree_root st of
     None \<Rightarrow> (\<forall>i < length (device_storage st). dev_depth (device_storage st ! i) \<noteq> 0)
   | Some r \<Rightarrow> r < length (device_storage st) \<and> dev_depth (device_storage st ! r) = 0 \<and>
       (\<forall>i < r. dev_depth (device_storage st ! i) \<noteq> 0) \<and>
       linked (\<lambda>i. device_get_next_sibling st (Some i)) (device_get_first_child st (Some r))
         (filter (\<lambda>i. dev_depth (device_storage st ! i) = 1) [0..<length (device_storage st)]) \<and>
       (\<forall>i < length (device_storage st).
          device_get_parent st (Some i) = (if dev_depth (device_storage st ! i) = 1 then Some r else None))"
proof -
  let ?n = "length (device_storage st)"
  have ok: "scanned st"
    using devices_scan_spec [of ds found lg] assms by auto
  show ?thesis
  proof (cases "find (\<lambda>i. dev_depth (device_storage st ! i) = 0) [0..<?n]")
    case None
    then have "device_tree_root st = None"
      using ok by (simp add: scanned_def)
    then show ?thesis
      using None by (auto simp: find_None_iff)
  next
    case (Some r)
    then have r: "r < ?n" "dev_depth (device_storage st ! r) = 0" "\<forall>i < r. dev_depth (device_storage st ! i) \<noteq> 0"
      by (auto simp: find_Some_iff)
    have root: "device_tree_root st = Some r" and t: "tree_inv st r (children_of st r) st"
      using ok Some by (simp_all add: scanned_def)
    have kids: "children_of st r = filter (\<lambda>i. dev_depth (device_storage st ! i) = 1) [0..<?n]"
      unfolding children_of_def by (rule filter_cong) (auto simp: is_child_def r(2))
    have "linked (\<lambda>i. next_sibling (device_storage st ! i)) (first_child (device_storage st ! r)) (children_of st r)"
      using t r(1) by (auto simp: tree_inv_def)
    then show ?thesis
      using root r t kids
      by (simp add: device_get_next_sibling_def device_get_first_child_def device_get_parent_def tree_inv_def)
  qed
qed

definition sample_device :: "int \<Rightarrow> device" where
  "sample_device depth = \<lparr>dev_compatible = Some ''virtio,mmio'', dev_name = Some ''virtio_mmio'', reg_base = 0x10001000,
     reg_size = 0x1000, vendor_id = 0x1AF4, device_id = 1, dev_bus = 0, device_num = 0, dev_function = 0,
     dev_driver = None, dev_state = DEVICE_STATE_DISCOVERED, mmio_virt = 0, driver_data = 0, dev_parent = None,
     first_child = None, next_sibling = None, dev_depth = depth, dev_next = None\<rparr>"

lemma devices_scan_builds_tree_witness:
  "\<exists>n out lg' st. devices_scan ([sample_device 1, sample_device 0, sample_device 1], 3) log_boot registry_boot =
     Some (n, out, lg', st) \<and> device_tree_root st = Some 1 \<and> device_get_parent st (Some 2) = Some 1"
proof -
  let ?ds = "[sample_device 1, sample_device 0, sample_device 1]"
  obtain n out lg' st where scan: "devices_scan (?ds, 3) log_boot registry_boot = Some (n, out, lg', st)"
    using devices_scan_spec [of ?ds 3 log_boot] by blast
  have len: "length (device_storage st) = 3"
    using scan_entries(2) [OF scan] by (simp add: MAX_DEVICES_def)
  have d: "dev_depth (device_storage st ! 0) = 1" "dev_depth (device_storage st ! 1) = 0" "dev_depth (device_storage st ! 2) = 1"
    using scan_entries(3) [OF scan, of 0] scan_entries(3) [OF scan, of 1] scan_entries(3) [OF scan, of 2]
    by (simp_all add: MAX_DEVICES_def sample_device_def)
  note tree = devices_scan_builds_tree [OF scan]
  obtain r where r: "device_tree_root st = Some r"
    using tree len d(2) by (cases "device_tree_root st") auto
  then have "r < 3" and "dev_depth (device_storage st ! r) = 0"
    using tree len by auto
  then have "r = 1"
    using d by (cases "r = 0"; cases "r = 2") auto
  then show ?thesis
    using tree scan r d(3) len by auto
qed



end
