(* ===== verification/Resources.thy ===== *)
theory Resources
  imports Devices
begin

text \<open>
  The resource manager of \<^verbatim>\<open>kernel/resources/resources.c\<close> with the driver descriptors of
  \<^verbatim>\<open>common/drivers.h\<close>. The static pool is a list of sixteen entries, a \<^verbatim>\<open>resource_t *\<close> an index into it, a
  context pointer a number. Driver hooks are functions on the rest of the system: the device registry and
  a state \<open>'w\<close> of everything else.
\<close>

datatype driver_type =
  DRIVER_TYPE_NETWORK | DRIVER_TYPE_STORAGE | DRIVER_TYPE_DISPLAY | DRIVER_TYPE_INPUT | DRIVER_TYPE_RANDOM |
  DRIVER_TYPE_UNKNOWN

record id_entry =
  id_compatible :: "string option"
  id_vendor :: u16
  id_device :: u16
  id_name :: string

type_synonym 'w sys = "registry \<times> 'w"

record 'w driver =
  drv_name :: string
  drv_version :: string
  drv_type :: driver_type
  drv_id_table :: "id_entry list option"
  drv_init :: "(nat \<Rightarrow> nat \<Rightarrow> 'w sys \<Rightarrow> int \<times> 'w sys) option"
  drv_deinit :: "(nat \<Rightarrow> 'w sys \<Rightarrow> 'w sys) option"

record 'w resource =
  r_device :: "nat option"
  r_driver :: "'w driver option"
  r_context :: "nat option"
  r_next :: "nat option"
  r_in_use :: bool

record 'w res_state =
  r_devices :: "nat option"
  r_allocations :: "nat option"
  r_pool :: "'w resource list"

definition MAX_RESOURCE_ALLOCATIONS :: nat where
  "MAX_RESOURCE_ALLOCATIONS = 16"

definition free_entry :: "'w resource" where
  "free_entry = \<lparr>r_device = None, r_driver = None, r_context = None, r_next = None, r_in_use = False\<rparr>"

definition resources_boot :: "'w res_state" where
  "resources_boot = \<lparr>r_devices = None, r_allocations = None,
     r_pool = replicate MAX_RESOURCE_ALLOCATIONS free_entry\<rparr>"

section \<open>Operations\<close>

text \<open>
  The table of a driver ends with an entry of zeros; \<open>None\<close> is a walk past the table.
\<close>

fun id_table_match :: "id_entry list \<Rightarrow> device \<Rightarrow> bool option" where
  "id_table_match [] dev = None"
| "id_table_match (e # es) dev =
     (if id_compatible e \<noteq> None \<or> id_vendor e \<noteq> 0 \<or> id_device e \<noteq> 0 then
        if (case (id_compatible e, dev_compatible dev) of (Some c, Some c') \<Rightarrow> strcmp c c' = 0 | _ \<Rightarrow> False)
        then Some True
        else if id_vendor e \<noteq> 0 \<and> id_device e \<noteq> 0 \<and> vendor_id dev = id_vendor e \<and> device_id dev = id_device e
        then Some True
        else id_table_match es dev
      else Some False)"

definition device_matches_driver :: "device \<Rightarrow> 'w driver \<Rightarrow> bool option" where
  "device_matches_driver dev drv = (case drv_id_table drv of None \<Rightarrow> Some False | Some es \<Rightarrow> id_table_match es dev)"

definition upd_resource :: "nat \<Rightarrow> ('w resource \<Rightarrow> 'w resource) \<Rightarrow> 'w res_state \<Rightarrow> 'w res_state" where
  "upd_resource i f rs = rs\<lparr>r_pool := (r_pool rs)[i := f (r_pool rs ! i)]\<rparr>"

abbreviation rnext :: "'w res_state \<Rightarrow> nat \<Rightarrow> nat option" where
  "rnext rs i \<equiv> r_next (r_pool rs ! i)"

definition device_is_allocated :: "nat \<Rightarrow> 'w res_state \<Rightarrow> bool option" where
  "device_is_allocated d rs =
     map_option (\<lambda>r. r \<noteq> None) (walk_find (rnext rs) (\<lambda>i. r_device (r_pool rs ! i) = Some d) (r_allocations rs))"

definition resource_alloc :: "'w res_state \<Rightarrow> nat option \<times> 'w res_state" where
  "resource_alloc rs = (case find (\<lambda>i. \<not> r_in_use (r_pool rs ! i)) [0..<MAX_RESOURCE_ALLOCATIONS] of
     None \<Rightarrow> (None, rs)
   | Some i \<Rightarrow> (Some i, upd_resource i (r_in_use_update (\<lambda>_. True)) rs))"

definition resource_free :: "nat \<Rightarrow> 'w res_state \<Rightarrow> 'w res_state" where
  "resource_free i rs = upd_resource i (\<lambda>_. free_entry) rs"

definition resource_add_allocation :: "nat \<Rightarrow> 'w res_state \<Rightarrow> 'w res_state" where
  "resource_add_allocation i rs =
     (upd_resource i (r_next_update (\<lambda>_. r_allocations rs)) rs)\<lparr>r_allocations := Some i\<rparr>"

definition resource_remove_allocation :: "nat \<Rightarrow> 'w res_state \<Rightarrow> (bool \<times> 'w res_state) option" where
  "resource_remove_allocation i rs =
     (if r_allocations rs = Some i then Some (True, rs\<lparr>r_allocations := rnext rs i\<rparr>)
      else do {
        p \<leftarrow> walk_find (rnext rs) (\<lambda>j. rnext rs j = Some i) (r_allocations rs);
        (case p of
           None \<Rightarrow> Some (False, rs)
         | Some j \<Rightarrow> Some (True, upd_resource j (r_next_update (\<lambda>_. rnext rs i)) rs)) })"

definition resources_set_devices :: "nat option \<Rightarrow> 'w res_state \<Rightarrow> 'w res_state" where
  "resources_set_devices devs rs = rs\<lparr>r_devices := devs\<rparr>"

text \<open>The hotplug hook only warns; \<open>res_log\<close> is its static log tag.\<close>

definition resources_update_devices ::
  "nat option \<Rightarrow> log_state \<Rightarrow> nat option \<Rightarrow> 'w res_state \<Rightarrow> string \<times> nat option \<times> log_state \<times> 'w res_state" where
  "resources_update_devices devs lg res_log rs =
     (let (tag, lg) = (case res_log of None \<Rightarrow> log_register lg ''resources'' LOG_INFO | Some t \<Rightarrow> (Some t, lg)) in
      (log_warn (log_deref lg tag) (''resources_update_devices: unimplemented'' @ [CHR 0x0A]), tag, lg, rs))"

text \<open>
  The body of the loop of \<^verbatim>\<open>resource_acquire_available\<close> on one device: \<open>Inr\<close> continues with the next one.
\<close>

definition acquire_try ::
  "'w driver \<Rightarrow> nat \<Rightarrow> nat \<Rightarrow> 'w res_state \<times> 'w sys \<Rightarrow> ((nat option \<times> 'w res_state \<times> 'w sys) + ('w res_state \<times> 'w sys)) option" where
  "acquire_try drv ctx d s = (case s of (rs, w) \<Rightarrow> do {
     matches \<leftarrow> device_matches_driver (device_storage (fst w) ! d) drv;
     (if \<not> matches then Some (Inr (rs, w)) else do {
     allocated \<leftarrow> device_is_allocated d rs;
     (if allocated then Some (Inr (rs, w)) else
       (case resource_alloc rs of
          (None, rs) \<Rightarrow> Some (Inl (None, rs, w))
        | (Some r, rs) \<Rightarrow>
            (let rs = upd_resource r (\<lambda>e. e\<lparr>r_device := Some d, r_driver := Some drv, r_context := Some ctx\<rparr>) rs in
             case drv_init drv of
               None \<Rightarrow> Some (Inl (Some r, resource_add_allocation r rs, w))
             | Some init \<Rightarrow> (case init ctx d w of (result, w) \<Rightarrow>
                 if result \<noteq> 0 then Some (Inr (resource_free r rs, w))
                 else Some (Inl (Some r, resource_add_allocation r rs, w)))))) }) })"

definition resource_acquire_available ::
  "'w driver option \<Rightarrow> nat option \<Rightarrow> 'w res_state \<Rightarrow> 'w sys \<Rightarrow> (nat option \<times> 'w res_state \<times> 'w sys) option" where
  "resource_acquire_available driver context rs w = (case (driver, context) of
     (Some drv, Some ctx) \<Rightarrow> do {
       res \<leftarrow> walk_loop (acquire_try drv ctx) (\<lambda>(rs, w). next_of (fst w)) (r_devices rs) (rs, w);
       (case res of Inl r \<Rightarrow> Some r | Inr (rs, w) \<Rightarrow> Some (None, rs, w)) }
   | _ \<Rightarrow> Some (None, rs, w))"

definition resource_release :: "nat option \<Rightarrow> 'w res_state \<Rightarrow> 'w sys \<Rightarrow> (int \<times> 'w res_state \<times> 'w sys) option" where
  "resource_release resource rs w = (case resource of
     None \<Rightarrow> Some (-1, rs, w)
   | Some i \<Rightarrow> do {
       (found, rs) \<leftarrow> resource_remove_allocation i rs;
       (if \<not> found then Some (-1, rs, w)
        else (let e = r_pool rs ! i;
                  w = (case (r_driver e, r_context e) of
                    (Some drv, Some ctx) \<Rightarrow> (case drv_deinit drv of Some deinit \<Rightarrow> deinit ctx w | None \<Rightarrow> w)
                  | _ \<Rightarrow> w) in
              Some (0, resource_free i rs, w))) })"

definition resource_get_device :: "nat option \<Rightarrow> 'w res_state \<Rightarrow> nat option" where
  "resource_get_device resource rs = (case resource of None \<Rightarrow> None | Some i \<Rightarrow> r_device (r_pool rs ! i))"

definition resource_print_tag :: "nat option \<Rightarrow> 'w res_state \<Rightarrow> registry \<Rightarrow> string" where
  "resource_print_tag resource rs reg = (case resource of
     None \<Rightarrow> []
   | Some i \<Rightarrow> (case (r_driver (r_pool rs ! i), r_device (r_pool rs ! i)) of
       (Some drv, Some d) \<Rightarrow>
         ''['' @ put_hex8 (dev_bus (device_storage reg ! d)) @ '':'' @ put_hex8 (device_num (device_storage reg ! d)) @
         ''|'' @ puts (drv_name drv) @ ''@'' @ puts (drv_version drv) @ '']''
     | _ \<Rightarrow> []))"

section \<open>The allocation list\<close>

text \<open>
  \<open>alloc_list rs xs\<close>: the allocations are the pool entries \<open>xs\<close>, linked in this order; exactly they are
  in use, each holds a device, a driver and a context, no two hold the same device, and every other
  entry is clear.
\<close>

definition alloc_list :: "'w res_state \<Rightarrow> nat list \<Rightarrow> bool" where
  "alloc_list rs xs \<longleftrightarrow>
     length (r_pool rs) = MAX_RESOURCE_ALLOCATIONS \<and> linked (rnext rs) (r_allocations rs) xs \<and>
     (\<forall>i < MAX_RESOURCE_ALLOCATIONS. r_in_use (r_pool rs ! i) \<longleftrightarrow> i \<in> set xs) \<and>
     set xs \<subseteq> {..<MAX_RESOURCE_ALLOCATIONS} \<and>
     (\<forall>i \<in> set xs. r_device (r_pool rs ! i) \<noteq> None \<and> r_driver (r_pool rs ! i) \<noteq> None \<and> r_context (r_pool rs ! i) \<noteq> None) \<and>
     distinct (map (\<lambda>i. r_device (r_pool rs ! i)) xs) \<and>
     (\<forall>i < MAX_RESOURCE_ALLOCATIONS. i \<notin> set xs \<longrightarrow> r_pool rs ! i = free_entry)"

definition holds_device :: "'w res_state \<Rightarrow> nat list \<Rightarrow> nat \<Rightarrow> bool" where
  "holds_device rs xs d \<longleftrightarrow> (\<exists>i \<in> set xs. r_device (r_pool rs ! i) = Some d)"

lemma alloc_list_boot: "alloc_list resources_boot []"
  by (simp add: alloc_list_def resources_boot_def free_entry_def)

lemma device_is_allocated_eq: "alloc_list rs xs \<Longrightarrow> device_is_allocated d rs = Some (holds_device rs xs d)"
  unfolding device_is_allocated_def alloc_list_def
  by (subst walk_find_linked [where xs = xs]) (simp_all add: holds_device_def find_not_None del: not_None_eq)

definition free_slot :: "'w res_state \<Rightarrow> nat option" where
  "free_slot rs = find (\<lambda>i. \<not> r_in_use (r_pool rs ! i)) [0..<MAX_RESOURCE_ALLOCATIONS]"

definition grant :: "nat \<Rightarrow> nat \<Rightarrow> 'w driver \<Rightarrow> nat \<Rightarrow> 'w res_state \<Rightarrow> 'w res_state" where
  "grant r d drv ctx rs = rs\<lparr>r_allocations := Some r,
     r_pool := (r_pool rs)[r := \<lparr>r_device = Some d, r_driver = Some drv, r_context = Some ctx,
       r_next = r_allocations rs, r_in_use = True\<rparr>]\<rparr>"

lemma free_slotD:
  assumes "alloc_list rs xs" and "free_slot rs = Some r"
  shows "r < MAX_RESOURCE_ALLOCATIONS" and "r \<notin> set xs" and "r < length (r_pool rs)" and "r_pool rs ! r = free_entry"
  using assms by (auto simp: free_slot_def find_Some_iff alloc_list_def)

lemma acquire_try_eq:
  assumes al: "alloc_list rs xs" and m: "device_matches_driver (device_storage (fst w) ! d) drv = Some matches"
  shows "acquire_try drv ctx d (rs, w) = Some (
    if \<not> matches \<or> holds_device rs xs d then Inr (rs, w)
    else case free_slot rs of
        None \<Rightarrow> Inl (None, rs, w)
      | Some r \<Rightarrow> (case drv_init drv of
          None \<Rightarrow> Inl (Some r, grant r d drv ctx rs, w)
        | Some init \<Rightarrow> (case init ctx d w of (result, w') \<Rightarrow>
            if result \<noteq> 0 then Inr (rs, w') else Inl (Some r, grant r d drv ctx rs, w'))))"
proof (cases "free_slot rs")
  case None
  then show ?thesis
    using m device_is_allocated_eq [OF al, of d]
    by (simp add: acquire_try_def resource_alloc_def free_slot_def)
next
  case (Some r)
  note slot = free_slotD [OF al Some]
  let ?fill = "upd_resource r (\<lambda>e. e\<lparr>r_device := Some d, r_driver := Some drv, r_context := Some ctx\<rparr>)
      (upd_resource r (r_in_use_update (\<lambda>_. True)) rs)"
  have "resource_free r ?fill = rs"
    using slot by (simp add: resource_free_def upd_resource_def slot(4) [symmetric])
  moreover have "resource_add_allocation r ?fill = grant r d drv ctx rs"
    using slot by (simp add: resource_add_allocation_def upd_resource_def grant_def free_entry_def)
  ultimately show ?thesis
    using m Some device_is_allocated_eq [OF al, of d]
    by (auto simp: acquire_try_def resource_alloc_def free_slot_def Let_def split: option.splits prod.splits)
qed

lemma alloc_list_grant:
  assumes al: "alloc_list rs xs" and r: "free_slot rs = Some r" and d: "\<not> holds_device rs xs d"
  shows "alloc_list (grant r d drv ctx rs) (r # xs)"
proof -
  note slot = free_slotD [OF al r]
  let ?rs = "grant r d drv ctx rs"
  have nth: "r_pool ?rs ! i = (if i = r then \<lparr>r_device = Some d, r_driver = Some drv, r_context = Some ctx,
       r_next = r_allocations rs, r_in_use = True\<rparr> else r_pool rs ! i)" for i
    using slot(3) by (simp add: grant_def nth_list_update)
  have "linked (rnext rs) (r_allocations rs) xs"
    using al by (simp add: alloc_list_def)
  then have "linked (rnext ?rs) (r_allocations rs) xs"
    by (rule linked_congD) (use slot(2) in \<open>auto simp: nth\<close>)
  then have link: "linked (rnext ?rs) (r_allocations ?rs) (r # xs)"
    by (simp add: nth) (simp add: grant_def)
  have "map (\<lambda>i. r_device (r_pool ?rs ! i)) xs = map (\<lambda>i. r_device (r_pool rs ! i)) xs"
    using slot(2) by (auto simp: nth)
  moreover have "Some d \<notin> set (map (\<lambda>i. r_device (r_pool rs ! i)) xs)"
    using d by (auto simp: holds_device_def)
  moreover have "r_device (r_pool ?rs ! r) = Some d"
    by (simp add: nth)
  ultimately have dist: "distinct (map (\<lambda>i. r_device (r_pool ?rs ! i)) (r # xs))"
    using al by (simp only: list.map distinct.simps alloc_list_def) simp
  have "length (r_pool ?rs) = MAX_RESOURCE_ALLOCATIONS"
    using al by (simp add: grant_def alloc_list_def)
  moreover have "\<forall>i < MAX_RESOURCE_ALLOCATIONS. r_in_use (r_pool ?rs ! i) \<longleftrightarrow> i \<in> set (r # xs)"
    and "set (r # xs) \<subseteq> {..<MAX_RESOURCE_ALLOCATIONS}"
    and "\<forall>i \<in> set (r # xs). r_device (r_pool ?rs ! i) \<noteq> None \<and> r_driver (r_pool ?rs ! i) \<noteq> None \<and> r_context (r_pool ?rs ! i) \<noteq> None"
    and "\<forall>i < MAX_RESOURCE_ALLOCATIONS. i \<notin> set (r # xs) \<longrightarrow> r_pool ?rs ! i = free_entry"
    using al slot by (auto simp: alloc_list_def nth)
  ultimately show ?thesis
    using link dist unfolding alloc_list_def by blast
qed

section \<open>Acquiring\<close>

text \<open>
  What the manager reads of a device, and the drivers it can serve: the identification table is
  terminated, and the hooks leave the identification and the list of the devices alone.
\<close>

definition dev_key :: "device \<Rightarrow> string option \<times> u16 \<times> u16 \<times> nat option" where
  "dev_key d = (dev_compatible d, vendor_id d, device_id d, dev_next d)"

definition same_devices :: "registry \<Rightarrow> registry \<Rightarrow> bool" where
  "same_devices reg reg' \<longleftrightarrow> map dev_key (device_storage reg) = map dev_key (device_storage reg') \<and>
     device_list_head reg = device_list_head reg'"

definition terminated :: "id_entry list \<Rightarrow> bool" where
  "terminated es \<longleftrightarrow> list_ex (\<lambda>e. id_compatible e = None \<and> id_vendor e = 0 \<and> id_device e = 0) es"

definition well_behaved :: "'w driver \<Rightarrow> bool" where
  "well_behaved drv \<longleftrightarrow>
     (\<forall>es. drv_id_table drv = Some es \<longrightarrow> terminated es) \<and>
     (\<forall>init ctx d w. drv_init drv = Some init \<longrightarrow> same_devices (fst (snd (init ctx d w))) (fst w)) \<and>
     (\<forall>deinit ctx w. drv_deinit drv = Some deinit \<longrightarrow> same_devices (fst (deinit ctx w)) (fst w))"

definition driver_serves :: "registry \<Rightarrow> 'w driver \<Rightarrow> nat \<Rightarrow> bool" where
  "driver_serves reg drv d \<longleftrightarrow> device_matches_driver (device_storage reg ! d) drv = Some True"

lemma same_devices_refl [simp]: "same_devices reg reg"
  by (simp add: same_devices_def)

lemma same_devices_trans: "same_devices a b \<Longrightarrow> same_devices b c \<Longrightarrow> same_devices a c"
  by (simp add: same_devices_def)

lemma same_devices_sym: "same_devices a b \<Longrightarrow> same_devices b a"
  by (simp add: same_devices_def)

lemma same_devices_nth:
  assumes "same_devices reg reg'" and "i < length (device_storage reg')"
  shows "dev_key (device_storage reg ! i) = dev_key (device_storage reg' ! i)"
  using assms unfolding same_devices_def by (metis length_map nth_map)

lemma same_devices_length: "same_devices reg reg' \<Longrightarrow> length (device_storage reg) = length (device_storage reg')"
  unfolding same_devices_def by (metis length_map)

lemma same_devices_reg_inv:
  assumes same: "same_devices reg reg'" and inv: "reg_inv reg'"
  shows "reg_inv reg"
proof -
  have len: "length (device_storage reg) = length (device_storage reg')"
    by (rule same_devices_length [OF same])
  have "linked (next_of reg') (device_list_head reg') [0..<length (device_storage reg')]"
    using inv by (simp add: reg_inv_def)
  then have "linked (next_of reg) (device_list_head reg') [0..<length (device_storage reg')]"
    by (rule linked_congD) (use same_devices_nth [OF same] in \<open>simp add: dev_key_def\<close>)
  then show ?thesis
    using inv same len by (simp add: reg_inv_def same_devices_def)
qed

lemma id_table_match_total: "terminated es \<Longrightarrow> \<exists>b. id_table_match es dev = Some b"
  by (induction es) (auto simp: terminated_def)

lemma id_table_match_key: "dev_key a = dev_key b \<Longrightarrow> id_table_match es a = id_table_match es b"
  by (induction es) (auto simp: dev_key_def)

lemma well_behaved_init:
  "well_behaved drv \<Longrightarrow> drv_init drv = Some init \<Longrightarrow> same_devices (fst (snd (init ctx d w))) (fst w)"
  unfolding well_behaved_def by blast

lemma well_behaved_deinit:
  "well_behaved drv \<Longrightarrow> drv_deinit drv = Some deinit \<Longrightarrow> same_devices (fst (deinit ctx w)) (fst w)"
  unfolding well_behaved_def by blast

lemma well_behaved_matches: "well_behaved drv \<Longrightarrow> \<exists>b. device_matches_driver dev drv = Some b"
  using id_table_match_total
  by (cases "drv_id_table drv") (auto simp: device_matches_driver_def well_behaved_def)

lemma matches_served:
  assumes "well_behaved drv" and "same_devices reg reg0" and "d < length (device_storage reg0)"
  shows "device_matches_driver (device_storage reg ! d) drv = Some (driver_serves reg0 drv d)"
proof -
  have "device_matches_driver (device_storage reg ! d) drv = device_matches_driver (device_storage reg0 ! d) drv"
    using id_table_match_key [OF same_devices_nth [OF assms(2,3)]]
    by (simp add: device_matches_driver_def split: option.splits)
  moreover obtain b where "device_matches_driver (device_storage reg0 ! d) drv = Some b"
    using well_behaved_matches [OF assms(1)] by blast
  ultimately show ?thesis
    by (simp add: driver_serves_def)
qed

text \<open>
  The specification of the search: the first device in list order that the driver serves, that is not
  taken, and whose initialisation succeeds; it stops when the pool is full.
\<close>

fun acquire_spec :: "'w driver \<Rightarrow> nat \<Rightarrow> (nat \<Rightarrow> bool) \<Rightarrow> (nat \<Rightarrow> bool) \<Rightarrow> bool \<Rightarrow> nat list \<Rightarrow> 'w sys \<Rightarrow> nat option \<times> 'w sys" where
  "acquire_spec drv ctx serves taken full [] w = (None, w)"
| "acquire_spec drv ctx serves taken full (d # ds) w =
     (if serves d \<and> \<not> taken d then
        if full then (None, w)
        else (case drv_init drv of
            None \<Rightarrow> (Some d, w)
          | Some init \<Rightarrow> (case init ctx d w of (result, w') \<Rightarrow>
              if result = 0 then (Some d, w') else acquire_spec drv ctx serves taken full ds w'))
      else acquire_spec drv ctx serves taken full ds w)"

definition acquired :: "'w driver \<Rightarrow> nat \<Rightarrow> 'w res_state \<Rightarrow> nat option \<times> 'w sys \<Rightarrow> nat option \<times> 'w res_state \<times> 'w sys" where
  "acquired drv ctx rs res = (case res of
     (None, w) \<Rightarrow> (None, rs, w)
   | (Some d, w) \<Rightarrow> (free_slot rs, grant (the (free_slot rs)) d drv ctx rs, w))"

lemma acquire_list_loop:
  assumes al: "alloc_list rs xs" and wb: "well_behaved drv"
    and ds: "set ds \<subseteq> {..<length (device_storage reg0)}" and same: "same_devices (fst w) reg0"
  shows "Option.bind (list_loop (acquire_try drv ctx) ds (rs, w))
      (\<lambda>res. case res of Inl r \<Rightarrow> Some r | Inr (rs, w) \<Rightarrow> Some (None, rs, w)) =
    Some (acquired drv ctx rs
      (acquire_spec drv ctx (driver_serves reg0 drv) (holds_device rs xs) (free_slot rs = None) ds w))"
  using ds same
proof (induction ds arbitrary: w)
  case Nil
  then show ?case by (simp add: acquired_def)
next
  case (Cons d ds)
  have m: "device_matches_driver (device_storage (fst w) ! d) drv = Some (driver_serves reg0 drv d)"
    using Cons.prems by (intro matches_served [OF wb]) auto
  note try_eq = acquire_try_eq [OF al m, of ctx]
  have IH: "same_devices (fst w') reg0 \<Longrightarrow> Option.bind (list_loop (acquire_try drv ctx) ds (rs, w'))
      (\<lambda>res. case res of Inl r \<Rightarrow> Some r | Inr (rs, w) \<Rightarrow> Some (None, rs, w)) =
      Some (acquired drv ctx rs
        (acquire_spec drv ctx (driver_serves reg0 drv) (holds_device rs xs) (free_slot rs = None) ds w'))" for w'
    using Cons.IH [of w'] Cons.prems by simp
  have keep: "same_devices (fst w') reg0" if "drv_init drv = Some init" and "init ctx d w = (result, w')" for init result w'
  proof -
    have "same_devices (fst (snd (init ctx d w))) (fst w)"
      by (rule well_behaved_init [OF wb that(1)])
    then show ?thesis
      using that(2) Cons.prems(2) same_devices_trans by simp
  qed
  show ?case
    using IH [of w] IH keep Cons.prems(2)
    by (auto simp: try_eq acquired_def split: option.splits prod.splits)
qed

lemma acquire_refines:
  assumes al: "alloc_list rs xs" and wb: "well_behaved drv" and inv: "reg_inv (fst w)"
    and head: "r_devices rs = device_list_head (fst w)"
  shows "resource_acquire_available (Some drv) (Some ctx) rs w =
    Some (acquired drv ctx rs (acquire_spec drv ctx (driver_serves (fst w) drv) (holds_device rs xs) (free_slot rs = None)
      [0..<length (device_storage (fst w))] w))"
proof -
  let ?reg = "fst w" and ?ds = "[0..<length (device_storage (fst w))]"
  let ?I = "\<lambda>(rs', w'). rs' = rs \<and> same_devices (fst w') ?reg"
  have "walk_loop (acquire_try drv ctx) (\<lambda>(rs, w). next_of (fst w)) (r_devices rs) (rs, w) =
      list_loop (acquire_try drv ctx) ?ds (rs, w)"
  proof (rule walk_loop_linked [where I = ?I])
    show "linked ((\<lambda>(rs, w). next_of (fst w)) (rs, w)) (r_devices rs) ?ds"
      using inv head by (simp add: reg_inv_def)
    show "?I (rs, w)"
      by simp
    show "?I s'" if d: "d \<in> set ?ds" and I: "?I s" and step: "acquire_try drv ctx d s = Some (Inr s')" for d s s'
    proof -
      obtain w1 where s: "s = (rs, w1)" and same: "same_devices (fst w1) ?reg"
        using I by (cases s) auto
      have m: "device_matches_driver (device_storage (fst w1) ! d) drv = Some (driver_serves ?reg drv d)"
        using d by (intro matches_served [OF wb same]) simp
      show ?thesis
        using step same well_behaved_init [OF wb, of _ ctx d w1] same_devices_trans [OF _ same]
        unfolding s acquire_try_eq [OF al m]
        by (auto split: if_splits option.splits prod.splits)
    qed
    show "(\<lambda>(rs, w). next_of (fst w)) s y = (\<lambda>(rs, w). next_of (fst w)) s' y"
      if y: "y \<in> set ?ds" and s: "?I s" and s': "?I s'" for s s' y
    proof -
      have "dev_key (device_storage (fst (snd s)) ! y) = dev_key (device_storage ?reg ! y)"
        using s y by (intro same_devices_nth) (auto split: prod.splits)
      moreover have "dev_key (device_storage (fst (snd s')) ! y) = dev_key (device_storage ?reg ! y)"
        using s' y by (intro same_devices_nth) (auto split: prod.splits)
      ultimately show ?thesis
        by (cases s; cases s') (simp add: dev_key_def)
    qed
  qed
  moreover have "set ?ds \<subseteq> {..<length (device_storage ?reg)}"
    by auto
  ultimately show ?thesis
    using acquire_list_loop [OF al wb, of ?ds ?reg w ctx] by (simp add: resource_acquire_available_def)
qed

lemma acquire_spec_sound:
  assumes "acquire_spec drv ctx serves taken full ds w = (Some d, w')"
  shows "d \<in> set ds \<and> serves d \<and> \<not> taken d \<and> \<not> full"
  using assms
  by (induction ds arbitrary: w) (auto split: if_splits option.splits prod.splits)

lemma acquire_spec_same:
  assumes "well_behaved drv" and "acquire_spec drv ctx serves taken full ds w = (res, w')"
  shows "same_devices (fst w') (fst w)"
  using assms(2)
proof (induction ds arbitrary: w)
  case (Cons d ds)
  then show ?case
    using well_behaved_init [OF assms(1), of _ ctx d w] same_devices_trans
    by (auto split: if_splits option.splits prod.splits) (metis fst_conv snd_conv)+
qed simp

section \<open>Releasing\<close>

definition deinit_of :: "'w resource \<Rightarrow> 'w sys \<Rightarrow> 'w sys" where
  "deinit_of e w = (case (r_driver e, r_context e) of
     (Some drv, Some ctx) \<Rightarrow> (case drv_deinit drv of Some deinit \<Rightarrow> deinit ctx w | None \<Rightarrow> w)
   | _ \<Rightarrow> w)"

lemma upd_resource_nth:
  "j < length (r_pool rs) \<Longrightarrow> r_pool (upd_resource i f rs) ! j = (if i = j then f (r_pool rs ! j) else r_pool rs ! j)"
  by (simp add: upd_resource_def nth_list_update)

lemma upd_resource_sel [simp]:
  "length (r_pool (upd_resource i f rs)) = length (r_pool rs)" "r_allocations (upd_resource i f rs) = r_allocations rs"
  "r_devices (upd_resource i f rs) = r_devices rs"
  by (simp_all add: upd_resource_def)

lemma linked_succ_iff:
  assumes l: "linked nxt p (us @ y # x # vs)" and j: "j \<in> set (us @ y # x # vs)"
  shows "nxt j = Some x \<longleftrightarrow> j = y"
proof
  assume nx: "nxt j = Some x"
  from j obtain as bs where xs: "us @ y # x # vs = as @ j # bs"
    by (meson split_list)
  then obtain cs where "bs = x # cs"
    using linked_next(1) [of nxt p as j bs] l nx by (cases bs) (auto simp: xs)
  moreover have d: "distinct (us @ y # x # vs)"
    by (rule linked_distinct [OF l])
  ultimately have "(us @ [y]) @ x # vs = (as @ [j]) @ x # cs" and "x \<notin> set (as @ [j])"
    using xs by (simp, auto simp: xs)
  moreover have "x \<notin> set (us @ [y])" and "x \<notin> set vs"
    using d by auto
  ultimately have "us @ [y] = as @ [j]"
    using append_Cons_eq_iff [of x "us @ [y]" vs "as @ [j]" cs] by auto
  then show "j = y"
    by simp
next
  assume "j = y"
  then show "nxt j = Some x"
    using linked_next(1) [of nxt p us y "x # vs"] l by simp
qed

lemma remove_allocation_eq:
  assumes al: "alloc_list rs xs"
  shows "resource_remove_allocation i rs = Some (
    if i \<notin> set xs then (False, rs)
    else if r_allocations rs = Some i then (True, rs\<lparr>r_allocations := rnext rs i\<rparr>)
    else (True, upd_resource (the (find (\<lambda>j. rnext rs j = Some i) xs)) (r_next_update (\<lambda>_. rnext rs i)) rs))"
proof -
  have l: "linked (rnext rs) (r_allocations rs) xs"
    using al by (simp add: alloc_list_def)
  have hd: "r_allocations rs = Some i \<Longrightarrow> i \<in> set xs"
    using l by (cases xs) auto
  have find_None: "find (\<lambda>j. rnext rs j = Some i) xs = None" if "i \<notin> set xs"
  proof (rule ccontr)
    assume "find (\<lambda>j. rnext rs j = Some i) xs \<noteq> None"
    then obtain j where "j \<in> set xs" and nx: "rnext rs j = Some i"
      unfolding find_not_None by blast
    then obtain as bs where xs: "xs = as @ j # bs"
      by (meson split_list)
    then show False
      using linked_next(1) [of "rnext rs" "r_allocations rs" as j bs] l nx that by (cases bs) auto
  qed
  have find_Some: "find (\<lambda>j. rnext rs j = Some i) xs \<noteq> None" if "i \<in> set xs" "r_allocations rs \<noteq> Some i"
  proof -
    from that(1) obtain as bs where xs: "xs = as @ i # bs"
      by (meson split_list)
    then have "as \<noteq> []"
      using l that(2) by auto
    then obtain us y where "as = us @ [y]"
      by (cases as rule: rev_cases) auto
    then have "rnext rs y = Some i" and "y \<in> set xs"
      using linked_next(1) [of "rnext rs" "r_allocations rs" us y "i # bs"] l xs by auto
    then show ?thesis
      unfolding find_not_None by blast
  qed
  show ?thesis
    unfolding resource_remove_allocation_def walk_find_linked [OF l]
    using hd find_None find_Some by (cases "i \<in> set xs"; cases "r_allocations rs = Some i") auto
qed

definition same_holder :: "'w resource \<Rightarrow> 'w resource \<Rightarrow> bool" where
  "same_holder e e' \<longleftrightarrow> r_device e = r_device e' \<and> r_driver e = r_driver e' \<and> r_context e = r_context e' \<and>
     r_in_use e = r_in_use e'"

lemma find_self: "y \<notin> set us \<Longrightarrow> find (\<lambda>j. j = y) (us @ y # vs) = Some y"
  by (induction us) auto

lemma alloc_list_remove:
  assumes al: "alloc_list rs xs" and i: "i \<in> set xs"
    and rm: "resource_remove_allocation i rs = Some (b, rs1)"
  shows "b \<and> r_pool rs1 ! i = r_pool rs ! i \<and> alloc_list (resource_free i rs1) (remove1 i xs) \<and>
    (\<forall>j < MAX_RESOURCE_ALLOCATIONS. j \<noteq> i \<longrightarrow> same_holder (r_pool (resource_free i rs1) ! j) (r_pool rs ! j))"
proof -
  let ?rs = "resource_free i rs1"
  have l: "linked (rnext rs) (r_allocations rs) xs" and len: "length (r_pool rs) = MAX_RESOURCE_ALLOCATIONS"
    using al by (simp_all add: alloc_list_def)
  have d: "distinct xs"
    by (rule linked_distinct [OF l])
  have in_pool: "j < length (r_pool rs)" if "j \<in> set xs" for j
    using al that len by (auto simp: alloc_list_def)
  have core: "b \<and> r_pool rs1 ! i = r_pool rs ! i \<and> linked (rnext ?rs) (r_allocations ?rs) (remove1 i xs) \<and>
      length (r_pool ?rs) = length (r_pool rs) \<and>
      (\<forall>j < length (r_pool rs). r_pool ?rs ! j =
         (if j = i then free_entry else (r_pool rs ! j)\<lparr>r_next := rnext ?rs j\<rparr>)) \<and>
      (\<forall>j < length (r_pool rs). j \<notin> set xs \<longrightarrow> r_pool ?rs ! j = r_pool rs ! j)"
  proof (cases "r_allocations rs = Some i")
    case True
    then obtain vs where xs: "xs = i # vs"
      using l i by (cases xs) auto
    have rs1: "rs1 = rs\<lparr>r_allocations := rnext rs i\<rparr>" and b: "b"
      using rm i True by (simp_all add: remove_allocation_eq [OF al])
    have nth: "r_pool ?rs ! j = (if j = i then free_entry else r_pool rs ! j)" if "j < length (r_pool rs)" for j
      using that by (simp add: rs1 resource_free_def upd_resource_nth)
    have "linked (rnext rs) (rnext rs i) vs"
      using l by (simp add: xs)
    then have "linked (rnext ?rs) (rnext rs i) vs"
      by (rule linked_congD) (use d in_pool in \<open>auto simp: xs nth\<close>)
    then show ?thesis
      using b nth by (simp add: xs rs1 resource_free_def)
  next
    case False
    from i obtain as vs where "xs = as @ i # vs"
      by (meson split_list)
    moreover from this have "as \<noteq> []"
      using l False by auto
    ultimately obtain us y where xs: "xs = us @ y # i # vs"
      by (cases as rule: rev_cases) auto
    have "find (\<lambda>j. rnext rs j = Some i) xs = find (\<lambda>j. j = y) xs"
      using linked_succ_iff [of "rnext rs" _ us y i vs] l by (intro find_cong) (auto simp: xs)
    also have "\<dots> = Some y"
      using find_self [of y us "i # vs"] d by (simp add: xs)
    finally have rs1: "rs1 = upd_resource y (r_next_update (\<lambda>_. rnext rs i)) rs" and b: "b"
      using rm i False by (simp_all add: remove_allocation_eq [OF al])
    have yx: "y \<in> set xs"
      by (simp add: xs)
    have yi: "y \<noteq> i" and iv: "i < length (r_pool rs)" "y < length (r_pool rs)"
      using d in_pool by (auto simp: xs)
    have nth: "r_pool ?rs ! j = (if j = i then free_entry else if j = y then (r_pool rs ! j)\<lparr>r_next := rnext rs i\<rparr>
        else r_pool rs ! j)" if "j < length (r_pool rs)" for j
      using that yi by (simp add: rs1 resource_free_def upd_resource_nth)
    have "linked ((rnext rs)(y := rnext rs i)) (r_allocations rs) (us @ y # vs)"
      using linked_remove [of "rnext rs" "r_allocations rs" us y i vs] l by (simp add: xs)
    then have "linked (rnext ?rs) (r_allocations rs) (us @ y # vs)"
      by (rule linked_congD) (use d in_pool in \<open>auto simp: xs nth\<close>)
    moreover have "remove1 i xs = us @ y # vs"
      using d by (simp add: xs remove1_append)
    ultimately show ?thesis
      using b nth yi iv i yx by (simp add: rs1 upd_resource_nth) (auto simp: resource_free_def)
  qed
  then have pool: "r_pool ?rs ! j = (if j = i then free_entry else (r_pool rs ! j)\<lparr>r_next := rnext ?rs j\<rparr>)"
    if "j < MAX_RESOURCE_ALLOCATIONS" for j
    using that len by simp
  have set: "set (remove1 i xs) = set xs - {i}"
    using d by simp
  have dev: "r_device (r_pool ?rs ! j) = r_device (r_pool rs ! j) \<and> r_driver (r_pool ?rs ! j) = r_driver (r_pool rs ! j) \<and>
      r_context (r_pool ?rs ! j) = r_context (r_pool rs ! j) \<and> r_in_use (r_pool ?rs ! j) = r_in_use (r_pool rs ! j)"
    if j: "j < MAX_RESOURCE_ALLOCATIONS" "j \<noteq> i" for j
  proof -
    define n where "n = rnext ?rs j"
    have "r_pool ?rs ! j = (r_pool rs ! j)\<lparr>r_next := n\<rparr>"
      unfolding n_def using pool [OF j(1)] j(2) by (simp only: if_False)
    then show ?thesis by simp
  qed
  have bound: "j < MAX_RESOURCE_ALLOCATIONS" if "j \<in> set xs" for j
    using al that by (auto simp: alloc_list_def)
  have "map (\<lambda>j. r_device (r_pool ?rs ! j)) (remove1 i xs) = map (\<lambda>j. r_device (r_pool rs ! j)) (remove1 i xs)"
    using dev bound set by (intro map_cong) auto
  moreover have "distinct (map (\<lambda>j. r_device (r_pool rs ! j)) (remove1 i xs))"
    using al d set by (auto simp: alloc_list_def distinct_map inj_on_def)
  ultimately have dist: "distinct (map (\<lambda>j. r_device (r_pool ?rs ! j)) (remove1 i xs))"
    by (simp only:)
  have "\<forall>j < MAX_RESOURCE_ALLOCATIONS. r_in_use (r_pool ?rs ! j) \<longleftrightarrow> j \<in> set (remove1 i xs)"
  proof (intro allI impI)
    fix j assume j: "j < MAX_RESOURCE_ALLOCATIONS"
    show "r_in_use (r_pool ?rs ! j) \<longleftrightarrow> j \<in> set (remove1 i xs)"
      using dev [OF j] pool [OF j] al j set by (cases "j = i") (auto simp: alloc_list_def free_entry_def)
  qed
  moreover have "\<forall>j \<in> set (remove1 i xs). r_device (r_pool ?rs ! j) \<noteq> None \<and> r_driver (r_pool ?rs ! j) \<noteq> None \<and>
      r_context (r_pool ?rs ! j) \<noteq> None"
    using al dev bound set by (auto simp: alloc_list_def)
  moreover have "\<forall>j < MAX_RESOURCE_ALLOCATIONS. j \<notin> set (remove1 i xs) \<longrightarrow> r_pool ?rs ! j = free_entry"
  proof (intro allI impI)
    fix j assume j: "j < MAX_RESOURCE_ALLOCATIONS" and "j \<notin> set (remove1 i xs)"
    then show "r_pool ?rs ! j = free_entry"
      using pool [OF j] core al len set by (cases "j = i") (auto simp: alloc_list_def)
  qed
  moreover have "set (remove1 i xs) \<subseteq> {..<MAX_RESOURCE_ALLOCATIONS}"
    using bound set by auto
  ultimately show ?thesis
    using core len dist dev unfolding alloc_list_def same_holder_def by simp
qed

lemma release_eq:
  assumes al: "alloc_list rs xs"
  shows "\<exists>rs'. resource_release (Some i) rs w =
      Some (if i \<in> set xs then 0 else -1, rs', if i \<in> set xs then deinit_of (r_pool rs ! i) w else w) \<and>
    alloc_list rs' (remove1 i xs) \<and> r_devices rs' = r_devices rs \<and> (i \<notin> set xs \<longrightarrow> rs' = rs) \<and>
    (\<forall>j \<in> set (remove1 i xs). same_holder (r_pool rs' ! j) (r_pool rs ! j))"
proof (cases "i \<in> set xs")
  case False
  then show ?thesis
    using al by (simp add: resource_release_def remove_allocation_eq [OF al] remove1_idem same_holder_def)
next
  case True
  obtain b rs1 where rm: "resource_remove_allocation i rs = Some (b, rs1)"
    using remove_allocation_eq [OF al, of i] by (metis surj_pair)
  have "distinct xs" and "set xs \<subseteq> {..<MAX_RESOURCE_ALLOCATIONS}"
    using al linked_distinct by (auto simp: alloc_list_def)
  then have "\<forall>j \<in> set (remove1 i xs). same_holder (r_pool (resource_free i rs1) ! j) (r_pool rs ! j)"
    using alloc_list_remove [OF al True rm] by auto
  moreover have "b" and "r_pool rs1 ! i = r_pool rs ! i" and "alloc_list (resource_free i rs1) (remove1 i xs)"
    using alloc_list_remove [OF al True rm] by simp_all
  moreover have "r_devices rs1 = r_devices rs"
    using rm True by (auto simp: remove_allocation_eq [OF al] split: if_splits)
  moreover from \<open>b\<close> have "resource_release (Some i) rs w = Some (0, resource_free i rs1, deinit_of (r_pool rs1 ! i) w)"
    by (simp add: resource_release_def rm deinit_of_def Let_def)
  ultimately show ?thesis
    using True by (intro exI [of _ "resource_free i rs1"]) (simp add: resource_free_def)
qed

section \<open>Reachable states\<close>

text \<open>
  Any sequence of acquisitions (by well-behaved drivers) and releases, from the state after boot: the
  manager holds the device list of a registry a scan produced.
\<close>

inductive rm_reach :: "registry \<Rightarrow> 'w res_state \<Rightarrow> 'w sys \<Rightarrow> bool" for reg :: registry where
  boot: "reg_inv reg \<Longrightarrow> fst w = reg \<Longrightarrow> rm_reach reg (resources_set_devices (devices_get_first reg) resources_boot) w"
| acquire: "rm_reach reg rs w \<Longrightarrow> well_behaved drv \<Longrightarrow>
    resource_acquire_available (Some drv) ctx rs w = Some (r, rs', w') \<Longrightarrow> rm_reach reg rs' w'"
| release: "rm_reach reg rs w \<Longrightarrow> resource_release r rs w = Some (res, rs', w') \<Longrightarrow> rm_reach reg rs' w'"
| other: "rm_reach reg rs w \<Longrightarrow> same_devices (fst w') (fst w) \<Longrightarrow> rm_reach reg rs w'"

definition rm_inv :: "registry \<Rightarrow> 'w res_state \<Rightarrow> 'w sys \<Rightarrow> nat list \<Rightarrow> bool" where
  "rm_inv reg rs w xs \<longleftrightarrow> alloc_list rs xs \<and> reg_inv reg \<and> same_devices (fst w) reg \<and> r_devices rs = device_list_head reg \<and>
     (\<forall>i \<in> set xs. \<exists>d drv. r_device (r_pool rs ! i) = Some d \<and> r_driver (r_pool rs ! i) = Some drv \<and>
        d < length (device_storage reg) \<and> driver_serves reg drv d \<and> well_behaved drv)"

lemma grant_nth:
  "i \<noteq> r \<Longrightarrow> r_pool (grant r d drv ctx rs) ! i = r_pool rs ! i"
  by (simp add: grant_def)

lemma rm_inv_acquire:
  assumes inv: "rm_inv reg rs w xs" and wb: "well_behaved drv"
    and acq: "resource_acquire_available (Some drv) ctx rs w = Some (r, rs', w')"
  shows "\<exists>ys. rm_inv reg rs' w' ys \<and> (case r of None \<Rightarrow> ys = xs \<and> rs' = rs | Some i \<Rightarrow> ys = i # xs \<and> i \<notin> set xs)"
proof (cases ctx)
  case None
  then show ?thesis
    using acq inv by (auto simp: resource_acquire_available_def)
next
  case (Some c)
  have al: "alloc_list rs xs" and ri: "reg_inv reg" and same: "same_devices (fst w) reg"
    and head: "r_devices rs = device_list_head reg"
    using inv by (simp_all add: rm_inv_def)
  have ri': "reg_inv (fst w)" and head': "r_devices rs = device_list_head (fst w)"
    using same_devices_reg_inv [OF same ri] head same by (simp_all add: same_devices_def)
  obtain res w1 where spec: "acquire_spec drv c (driver_serves (fst w) drv) (holds_device rs xs) (free_slot rs = None)
      [0..<length (device_storage (fst w))] w = (res, w1)"
    by (cases "acquire_spec drv c (driver_serves (fst w) drv) (holds_device rs xs) (free_slot rs = None)
      [0..<length (device_storage (fst w))] w")
  have eq: "(r, rs', w') = acquired drv c rs (res, w1)"
    using acq acquire_refines [OF al wb ri' head', of c] by (simp add: Some spec)
  have same1: "same_devices (fst w1) reg"
    using acquire_spec_same [OF wb spec] same by (rule same_devices_trans)
  show ?thesis
  proof (cases res)
    case None
    then show ?thesis
      using eq inv same1 by (auto simp: acquired_def rm_inv_def)
  next
    case (Some d)
    have "d \<in> set [0..<length (device_storage (fst w))]"
      and d': "driver_serves (fst w) drv d" "\<not> holds_device rs xs d" and full: "free_slot rs \<noteq> None"
      using acquire_spec_sound [OF spec [unfolded Some]] by simp_all
    then have d: "d < length (device_storage reg)" "driver_serves (fst w) drv d" "\<not> holds_device rs xs d"
      using same_devices_length [OF same] by simp_all
    from full
    obtain i where i: "free_slot rs = Some i"
      by blast
    have serves: "driver_serves reg drv d"
      using d(1,2) matches_served [OF wb same d(1)] by (simp add: driver_serves_def)
    have i_xs: "i \<notin> set xs" and i_len: "i < length (r_pool rs)"
      using free_slotD [OF al i] by simp_all
    have rs': "r = Some i" "rs' = grant i d drv c rs" "w' = w1"
      using eq Some i by (simp_all add: acquired_def)
    have "r_device (r_pool rs' ! i) = Some d" and "r_driver (r_pool rs' ! i) = Some drv"
      using i_len by (simp_all add: rs'(2) grant_def)
    moreover have "r_devices rs' = r_devices rs"
      by (simp add: rs'(2) grant_def)
    moreover have "\<forall>j \<in> set xs. r_pool rs' ! j = r_pool rs ! j"
      using i_xs unfolding rs'(2) by (metis grant_nth)
    ultimately have "rm_inv reg rs' w' (i # xs)"
      using inv alloc_list_grant [OF al i d(3), of drv c] same1 d(1) serves wb
      by (simp add: rm_inv_def rs'(2,3) [symmetric])
    then show ?thesis
      using rs'(1) i_xs by auto
  qed
qed

lemma rm_inv_release:
  assumes inv: "rm_inv reg rs w xs" and rel: "resource_release r rs w = Some (res, rs', w')"
  shows "\<exists>ys. rm_inv reg rs' w' ys \<and> set ys \<subseteq> set xs"
proof (cases r)
  case None
  then show ?thesis
    using rel inv by (auto simp: resource_release_def)
next
  case (Some i)
  have al: "alloc_list rs xs"
    using inv by (simp add: rm_inv_def)
  from release_eq [OF al, of i w] rel Some
  have rs': "alloc_list rs' (remove1 i xs)" "r_devices rs' = r_devices rs"
    and w': "w' = (if i \<in> set xs then deinit_of (r_pool rs ! i) w else w)"
    and keep: "\<forall>j \<in> set (remove1 i xs). same_holder (r_pool rs' ! j) (r_pool rs ! j)"
    by auto
  have "same_devices (fst w') (fst w)"
  proof (cases "i \<in> set xs")
    case True
    then obtain drv where "r_driver (r_pool rs ! i) = Some drv" and wb: "well_behaved drv"
      using inv by (auto simp: rm_inv_def)
    then show ?thesis
      using True w' well_behaved_deinit [OF wb, of _ _ w] by (simp add: deinit_of_def split: option.splits)
  qed (simp add: w')
  then have "same_devices (fst w') reg"
    using inv same_devices_trans by (auto simp: rm_inv_def)
  moreover have "set (remove1 i xs) \<subseteq> set xs"
    by (rule set_remove1_subset)
  ultimately have "rm_inv reg rs' w' (remove1 i xs)"
    using inv rs' keep by (auto simp: rm_inv_def same_holder_def)
  then show ?thesis
    using set_remove1_subset [of i xs] by blast
qed

lemma rm_reach_inv: "rm_reach reg rs w \<Longrightarrow> \<exists>xs. rm_inv reg rs w xs"
proof (induction rule: rm_reach.induct)
  case (boot w)
  then have "rm_inv reg (resources_set_devices (devices_get_first reg) resources_boot) w []"
    by (simp add: rm_inv_def resources_set_devices_def devices_get_first_def resources_boot_def alloc_list_def
        free_entry_def)
  then show ?case by blast
next
  case (acquire rs w drv ctx r rs' w')
  then show ?case
    using rm_inv_acquire by blast
next
  case (release rs w r res rs' w')
  then show ?case
    using rm_inv_release by blast
next
  case (other rs w w')
  then show ?case
    using same_devices_trans by (auto simp: rm_inv_def)
qed

lemma pool_full_iff:
  assumes "alloc_list rs xs"
  shows "free_slot rs = None \<longleftrightarrow> length xs = MAX_RESOURCE_ALLOCATIONS"
proof -
  have sub: "set xs \<subseteq> {..<MAX_RESOURCE_ALLOCATIONS}" and "distinct xs"
    using assms linked_distinct by (auto simp: alloc_list_def)
  then have "length xs = MAX_RESOURCE_ALLOCATIONS \<longleftrightarrow> set xs = {..<MAX_RESOURCE_ALLOCATIONS}"
    using card_subset_eq [OF _ sub] distinct_card [of xs] by (metis card_lessThan finite_lessThan)
  also have "\<dots> \<longleftrightarrow> (\<forall>i < MAX_RESOURCE_ALLOCATIONS. i \<in> set xs)"
    using sub by auto
  also have "\<dots> \<longleftrightarrow> free_slot rs = None"
    using assms by (auto simp: free_slot_def find_None_iff alloc_list_def)
  finally show ?thesis ..
qed

section \<open>Properties\<close>

text \<open>
  C11: \<open>resource_acquire_available\<close> finds the first device in list order that the driver's table matches,
  that no allocation holds and whose \<open>init_context\<close> returns 0, calling the hook on exactly the candidates
  before it; on success a free pool entry holding device, driver and context becomes the head of the
  allocation list, and on failure (no such device, or a full pool) the manager's state is unchanged.
\<close>

theorem resource_acquire_refines_spec:
  assumes "alloc_list rs xs" and "well_behaved drv" and "reg_inv (fst w)" and "r_devices rs = device_list_head (fst w)"
  shows "case acquire_spec drv ctx (driver_serves (fst w) drv) (holds_device rs xs) (length xs = MAX_RESOURCE_ALLOCATIONS)
      [0..<length (device_storage (fst w))] w of
     (None, w') \<Rightarrow> resource_acquire_available (Some drv) (Some ctx) rs w = Some (None, rs, w')
   | (Some d, w') \<Rightarrow> (\<exists>r rs'. resource_acquire_available (Some drv) (Some ctx) rs w = Some (Some r, rs', w') \<and>
       r \<notin> set xs \<and> alloc_list rs' (r # xs) \<and> resource_get_device (Some r) rs' = Some d \<and>
       (\<forall>i \<in> set xs. r_pool rs' ! i = r_pool rs ! i))"
proof -
  have full: "free_slot rs = None \<longleftrightarrow> length xs = MAX_RESOURCE_ALLOCATIONS"
    by (rule pool_full_iff [OF assms(1)])
  obtain res w' where spec: "acquire_spec drv ctx (driver_serves (fst w) drv) (holds_device rs xs)
      (length xs = MAX_RESOURCE_ALLOCATIONS) [0..<length (device_storage (fst w))] w = (res, w')"
    by (cases "acquire_spec drv ctx (driver_serves (fst w) drv) (holds_device rs xs)
      (length xs = MAX_RESOURCE_ALLOCATIONS) [0..<length (device_storage (fst w))] w")
  have eq: "resource_acquire_available (Some drv) (Some ctx) rs w = Some (acquired drv ctx rs (res, w'))"
    using acquire_refines [OF assms] by (simp only: full spec)
  show ?thesis
  proof (cases res)
    case None
    then show ?thesis
      by (simp add: spec eq acquired_def)
  next
    case (Some d)
    have "\<not> holds_device rs xs d" and "free_slot rs \<noteq> None"
      using acquire_spec_sound [OF spec [unfolded Some]] full by simp_all
    then obtain r where r: "free_slot rs = Some r" and d: "\<not> holds_device rs xs d"
      by blast
    have "\<forall>i \<in> set xs. r_pool (grant r d drv ctx rs) ! i = r_pool rs ! i"
      using free_slotD(2) [OF assms(1) r] by (auto intro: grant_nth)
    moreover have "resource_get_device (Some r) (grant r d drv ctx rs) = Some d"
      using free_slotD(3) [OF assms(1) r] by (simp add: resource_get_device_def grant_def)
    ultimately show ?thesis
      using alloc_list_grant [OF assms(1) r d, of drv ctx] free_slotD(2) [OF assms(1) r]
      by (simp add: spec eq acquired_def Some r)
  qed
qed

text \<open>
  A virtio-style driver without an initialisation hook, and a registry of two devices, one of them its own.
\<close>

definition sample_driver :: "nat driver" where
  "sample_driver = \<lparr>drv_name = ''virtio_net'', drv_version = ''0.1.0'', drv_type = DRIVER_TYPE_NETWORK,
     drv_id_table = Some [\<lparr>id_compatible = None, id_vendor = 0x1AF4, id_device = 0x1000, id_name = ''VirtIO Network''\<rparr>,
       \<lparr>id_compatible = None, id_vendor = 0, id_device = 0, id_name = []\<rparr>],
     drv_init = Some (\<lambda>ctx d (reg, n). (if n < 2 then 0 else -1, reg, n + 1)),
     drv_deinit = Some (\<lambda>ctx (reg, n). (reg, n - 1))\<rparr>"

definition sample_registry :: registry where
  "sample_registry = registry_boot\<lparr>device_list_head := Some 0, device_storage :=
     [fresh_entry (sample_device 0\<lparr>vendor_id := 0x8086\<rparr>)\<lparr>dev_next := Some 1\<rparr>,
      fresh_entry (sample_device 1\<lparr>vendor_id := 0x1AF4, device_id := 0x1000\<rparr>)]\<rparr>"

abbreviation sample_manager :: "nat res_state" where
  "sample_manager \<equiv> resources_set_devices (devices_get_first sample_registry) resources_boot"

lemma sample_driver_well_behaved: "well_behaved sample_driver"
  by (auto simp: well_behaved_def sample_driver_def terminated_def)

lemma sample_registry_inv: "reg_inv sample_registry"
  by (simp add: reg_inv_def sample_registry_def registry_boot_def MAX_DEVICES_def fresh_entry_def upt_rec)

lemma sample_manager_alloc_list: "alloc_list sample_manager []"
  using alloc_list_boot by (simp add: alloc_list_def resources_set_devices_def)

lemma sample_acquire_spec:
  "acquire_spec sample_driver 7 (driver_serves sample_registry sample_driver) (holds_device sample_manager []) False
     [0..<length (device_storage sample_registry)] (sample_registry, 0) = (Some 1, (sample_registry, 1))"
  by (simp add: sample_registry_def registry_boot_def upt_rec driver_serves_def device_matches_driver_def sample_driver_def
      fresh_entry_def sample_device_def holds_device_def)

theorem resource_acquire_refines_spec_witness:
  "\<exists>r rs'. resource_acquire_available (Some sample_driver) (Some 7) sample_manager (sample_registry, 0) =
      Some (Some r, rs', (sample_registry, 1)) \<and> alloc_list rs' [r] \<and> resource_get_device (Some r) rs' = Some 1"
  using resource_acquire_refines_spec [OF sample_manager_alloc_list sample_driver_well_behaved, of "(sample_registry, 0)" 7]
    sample_registry_inv sample_acquire_spec
  by (simp add: resources_set_devices_def devices_get_first_def MAX_RESOURCE_ALLOCATIONS_def)

text \<open>
  C12: exclusive access. After any sequence of acquisitions and releases the allocation list is a finite
  acyclic list of exactly the pool entries in use; no two of them hold the same device, and each holds a
  device of the registry that the table of its driver matches.
\<close>

theorem resources_exclusive:
  assumes "rm_reach reg rs w"
  shows "\<exists>xs. linked (rnext rs) (r_allocations rs) xs \<and>
    set xs = {i. i < MAX_RESOURCE_ALLOCATIONS \<and> r_in_use (r_pool rs ! i)} \<and> distinct xs \<and>
    (\<forall>i \<in> set xs. \<forall>j \<in> set xs. resource_get_device (Some i) rs = resource_get_device (Some j) rs \<longrightarrow> i = j) \<and>
    (\<forall>i \<in> set xs. \<exists>d drv. resource_get_device (Some i) rs = Some d \<and> r_driver (r_pool rs ! i) = Some drv \<and>
       d < length (device_storage (fst w)) \<and> device_matches_driver (device_storage (fst w) ! d) drv = Some True)"
proof -
  obtain xs where inv: "rm_inv reg rs w xs"
    using rm_reach_inv [OF assms] by blast
  then have al: "alloc_list rs xs" and same: "same_devices (fst w) reg"
    by (simp_all add: rm_inv_def)
  have l: "linked (rnext rs) (r_allocations rs) xs"
    and use: "set xs = {i. i < MAX_RESOURCE_ALLOCATIONS \<and> r_in_use (r_pool rs ! i)}"
    and excl: "\<forall>i \<in> set xs. \<forall>j \<in> set xs. resource_get_device (Some i) rs = resource_get_device (Some j) rs \<longrightarrow> i = j"
    using al by (auto simp: alloc_list_def resource_get_device_def distinct_map inj_on_def)
  have "\<exists>d drv. resource_get_device (Some i) rs = Some d \<and> r_driver (r_pool rs ! i) = Some drv \<and>
      d < length (device_storage (fst w)) \<and> device_matches_driver (device_storage (fst w) ! d) drv = Some True"
    if "i \<in> set xs" for i
  proof -
    obtain d drv where d: "r_device (r_pool rs ! i) = Some d" "r_driver (r_pool rs ! i) = Some drv"
      "d < length (device_storage reg)" "driver_serves reg drv d" "well_behaved drv"
      using inv \<open>i \<in> set xs\<close> unfolding rm_inv_def by blast
    then show ?thesis
      using matches_served [OF d(5) same d(3)] same_devices_length [OF same]
      by (simp add: resource_get_device_def)
  qed
  then show ?thesis
    using l use excl linked_distinct [OF l] by blast
qed

theorem resources_exclusive_witness:
  "\<exists>r rs'. resource_acquire_available (Some sample_driver) (Some 7) sample_manager (sample_registry, 0) =
      Some (Some r, rs', (sample_registry, 1)) \<and>
    (\<forall>i < MAX_RESOURCE_ALLOCATIONS. \<forall>j < MAX_RESOURCE_ALLOCATIONS. r_in_use (r_pool rs' ! i) \<and> r_in_use (r_pool rs' ! j) \<and>
       resource_get_device (Some i) rs' = resource_get_device (Some j) rs' \<longrightarrow> i = j)"
proof -
  obtain r rs' where acq: "resource_acquire_available (Some sample_driver) (Some 7) sample_manager (sample_registry, 0) =
      Some (Some r, rs', (sample_registry, 1))"
    using acquire_refines [OF sample_manager_alloc_list sample_driver_well_behaved, of "(sample_registry, 0)" 7]
      sample_registry_inv sample_acquire_spec pool_full_iff [OF sample_manager_alloc_list]
    by (auto simp: resources_set_devices_def devices_get_first_def MAX_RESOURCE_ALLOCATIONS_def acquired_def)
  have "rm_reach sample_registry sample_manager (sample_registry, 0::nat)"
    by (rule rm_reach.boot) (simp_all add: sample_registry_inv)
  then have "rm_reach sample_registry rs' (sample_registry, 1)"
    using acq by (rule rm_reach.acquire [OF _ sample_driver_well_behaved])
  from resources_exclusive [OF this] show ?thesis
    using acq by blast
qed

text \<open>
  C13: \<open>resource_release\<close> of an allocated entry returns 0, runs \<open>deinit_context\<close> of its driver once, takes the entry
  out of the allocation list and clears it, so that its device can be acquired again, and keeps device,
  driver and context of every other allocation; for any other pointer it returns -1 and changes nothing.
\<close>

theorem resource_release_correct:
  assumes "alloc_list rs xs"
  shows "\<exists>rs'. resource_release (Some i) rs w =
      Some (if i \<in> set xs then 0 else -1, rs', if i \<in> set xs then deinit_of (r_pool rs ! i) w else w) \<and>
    alloc_list rs' (remove1 i xs) \<and> (i \<notin> set xs \<longrightarrow> rs' = rs) \<and>
    (\<forall>d. device_is_allocated d rs' =
       Some (\<exists>j \<in> set xs. j \<noteq> i \<and> resource_get_device (Some j) rs = Some d)) \<and>
    (\<forall>j \<in> set xs - {i}. same_holder (r_pool rs' ! j) (r_pool rs ! j))"
proof -
  have "distinct xs"
    using assms linked_distinct by (auto simp: alloc_list_def)
  then have rest: "set (remove1 i xs) = set xs - {i}"
    by simp
  obtain rs' where rs': "resource_release (Some i) rs w =
      Some (if i \<in> set xs then 0 else -1, rs', if i \<in> set xs then deinit_of (r_pool rs ! i) w else w)"
    "alloc_list rs' (remove1 i xs)" "i \<notin> set xs \<longrightarrow> rs' = rs"
    "\<forall>j \<in> set (remove1 i xs). same_holder (r_pool rs' ! j) (r_pool rs ! j)"
    using release_eq [OF assms, of i w] by blast
  have "device_is_allocated d rs' = Some (\<exists>j \<in> set xs. j \<noteq> i \<and> resource_get_device (Some j) rs = Some d)" for d
    using rs'(4) by (auto simp: device_is_allocated_eq [OF rs'(2)] holds_device_def rest same_holder_def resource_get_device_def)
  then show ?thesis
    using rs' unfolding rest by blast
qed

theorem resource_release_correct_witness:
  "\<exists>rs'. resource_release (Some 3) (grant 0 1 sample_driver 7 sample_manager) (sample_registry, 1) =
      Some (-1, rs', (sample_registry, 1)) \<and> rs' = grant 0 1 sample_driver 7 sample_manager"
proof -
  have slot: "free_slot sample_manager = Some 0"
    by (simp add: free_slot_def resources_set_devices_def resources_boot_def free_entry_def MAX_RESOURCE_ALLOCATIONS_def upt_rec)
  have "alloc_list (grant 0 1 sample_driver 7 sample_manager) [0]"
    by (rule alloc_list_grant [OF sample_manager_alloc_list slot]) (simp add: holds_device_def)
  from resource_release_correct [OF this, of 3 "(sample_registry, 1)"] show ?thesis
    by auto
qed

end
