(* ===== verification/Loops.thy ===== *)
theory Loops
  imports Prelude
begin

text \<open>
  The general \<^verbatim>\<open>while\<close> loop of the parsers and drivers: one iteration either returns (\<open>Inl\<close>), continues
  (\<open>Inr\<close>) or makes an access outside memory (\<open>None\<close>). A loop that never returns has the value \<open>None\<close> too;
  \<open>step_loop_total\<close> shows that it returns when some measure decreases.
\<close>

partial_function (option) step_loop :: "('s \<Rightarrow> ('r + 's) option) \<Rightarrow> 's \<Rightarrow> 'r option" where
  "step_loop step s = do { res \<leftarrow> step s; (case res of Inl r \<Rightarrow> Some r | Inr s' \<Rightarrow> step_loop step s') }"

lemma step_loop_Inr: "step s = Some (Inr s') \<Longrightarrow> step_loop step s = step_loop step s'"
  by (subst step_loop.simps) simp

lemma step_loop_Inl: "step s = Some (Inl r) \<Longrightarrow> step_loop step s = Some r"
  by (subst step_loop.simps) simp

lemma step_loop_total:
  fixes m :: "'s \<Rightarrow> nat"
  assumes "I s"
    and "\<And>s. I s \<Longrightarrow> (\<exists>r. step s = Some (Inl r) \<and> Q r) \<or> (\<exists>s'. step s = Some (Inr s') \<and> I s' \<and> m s' < m s)"
  shows "\<exists>r. step_loop step s = Some r \<and> Q r"
  using assms(1)
proof (induction "m s" arbitrary: s rule: less_induct)
  case less
  then show ?case
    using assms(2) [OF less.prems] by (metis step_loop_Inl step_loop_Inr)
qed

end
