(* ===== verification/Fdt.thy ===== *)
theory Fdt
  imports Loops Byteorder C_Memory Devices
begin

text \<open>
  The flattened device tree parser of \<^verbatim>\<open>kernel/platform/fdt_parser.c\<close>. The memory from \<^verbatim>\<open>fdt_addr\<close> on is a byte
  list and a pointer into it an offset; the address arithmetic of the code is that of the offsets, as
  the tree does not lie at the end of the address space. \<open>None\<close> is an access outside the list.
\<close>

definition FDT_MAGIC :: u32 where
  "FDT_MAGIC = 0xd00dfeed"

definition FDT_BEGIN_NODE :: u32 where
  "FDT_BEGIN_NODE = 1"

definition FDT_END_NODE :: u32 where
  "FDT_END_NODE = 2"

definition FDT_PROP :: u32 where
  "FDT_PROP = 3"

definition FDT_NOP :: u32 where
  "FDT_NOP = 4"

definition FDT_END :: u32 where
  "FDT_END = 9"

lemmas fdt_tokens = FDT_BEGIN_NODE_def FDT_END_NODE_def FDT_PROP_def FDT_NOP_def FDT_END_def

text \<open>The fields of \<^verbatim>\<open>fdt_header_t\<close> that the parser reads after the magic number.\<close>

record fdt_header =
  fh_totalsize :: u32
  fh_off_dt_struct :: u32
  fh_off_dt_strings :: u32

section \<open>Helper functions\<close>

definition be32_to_cpu :: "u32 \<Rightarrow> u32" where
  "be32_to_cpu val = drop_bit 24 (val AND 0xFF000000) OR drop_bit 8 (val AND 0x00FF0000) OR
     push_bit 8 (val AND 0x0000FF00) OR push_bit 24 (val AND 0x000000FF)"

definition align_up :: "u32 \<Rightarrow> u32" where
  "align_up val = (val + 3) AND NOT 3"

definition read_be32_unaligned :: "u8 list \<Rightarrow> nat \<Rightarrow> u32 option" where
  "read_be32_unaligned mem ptr = do {
     b0 \<leftarrow> rd8 mem ptr; b1 \<leftarrow> rd8 mem (ptr + 1); b2 \<leftarrow> rd8 mem (ptr + 2); b3 \<leftarrow> rd8 mem (ptr + 3);
     Some (push_bit 24 (ucast b0) OR push_bit 16 (ucast b1) OR push_bit 8 (ucast b2) OR ucast b3) }"

text \<open>\<^verbatim>\<open>strcmp(s1, s2) == 0\<close> on a string in memory and a literal: it reads up to the first difference.\<close>

fun str_equal :: "u8 list \<Rightarrow> nat \<Rightarrow> string \<Rightarrow> bool option" where
  "str_equal mem ptr [] = do { b \<leftarrow> rd8 mem ptr; Some (b = 0) }"
| "str_equal mem ptr (c # s) = do {
     b \<leftarrow> rd8 mem ptr;
     (if b \<noteq> 0 \<and> b = of_char c then str_equal mem (ptr + 1) s else Some (b = of_char c)) }"

definition be32_at :: "u8 list \<Rightarrow> nat \<Rightarrow> u32 option" where
  "be32_at mem ptr = map_option be32_to_cpu (ld32 mem ptr)"

definition read_header :: "u8 list \<Rightarrow> fdt_header option" where
  "read_header mem = do {
     structs \<leftarrow> be32_at mem 8; strings \<leftarrow> be32_at mem 12; totalsize \<leftarrow> be32_at mem 4;
     Some \<lparr>fh_totalsize = totalsize, fh_off_dt_struct = structs, fh_off_dt_strings = strings\<rparr> }"

text \<open>\<^verbatim>\<open>while (name_len < max_name_len && node_name[name_len] != '\0') name_len++;\<close>\<close>

function name_len_loop :: "u8 list \<Rightarrow> nat \<Rightarrow> nat \<Rightarrow> nat \<Rightarrow> nat option" where
  "name_len_loop mem node_name max_len name_len =
     (if name_len < max_len then do {
        b \<leftarrow> rd8 mem (node_name + name_len);
        (if b \<noteq> 0 then name_len_loop mem node_name max_len (name_len + 1) else Some name_len) }
      else Some name_len)"
  by auto
termination
  by (relation "measure (\<lambda>(_, _, max_len, name_len). max_len - name_len)") auto

declare name_len_loop.simps [simp del] str_equal.simps [simp del]

section \<open>The command line\<close>







section \<open>The devices\<close>

text \<open>\<^verbatim>\<open>(device_t){0}\<close>, and a string pointer into the tree as the string it points to.\<close>

definition zero_device :: device where
  "zero_device = \<lparr>dev_compatible = None, dev_name = None, reg_base = 0, reg_size = 0, vendor_id = 0, device_id = 0,
     dev_bus = 0, device_num = 0, dev_function = 0, dev_driver = None, dev_state = DEVICE_STATE_DISCOVERED,
     mmio_virt = 0, driver_data = 0, dev_parent = None, first_child = None, next_sibling = None, dev_depth = 0,
     dev_next = None\<rparr>"

definition string_at :: "u8 list \<Rightarrow> nat \<Rightarrow> string" where
  "string_at mem ptr = map (\<lambda>b. char_of (unat b)) (takeWhile (\<lambda>b. b \<noteq> 0) (drop ptr mem))"

record fdt_scan =
  fs_ptr :: nat
  fs_depth :: int
  fs_count :: int
  fs_device :: device
  fs_has_reg :: bool
  fs_has_compatible :: bool
  fs_reported :: "device list"

definition enum_begin :: "u8 list \<Rightarrow> nat \<Rightarrow> fdt_scan \<Rightarrow> ((device list \<times> int) + fdt_scan) option" where
  "enum_begin mem struct_end s =
     (if fs_ptr s \<ge> struct_end then Some (Inl (fs_reported s, fs_count s))
      else do {
        name_len \<leftarrow> name_len_loop mem (fs_ptr s) (struct_end - fs_ptr s) 0;
        (if name_len \<ge> struct_end - fs_ptr s then Some (Inl (fs_reported s, fs_count s))
         else (let s = s\<lparr>fs_has_reg := False, fs_has_compatible := False,
                   fs_device := zero_device\<lparr>dev_name := Some (string_at mem (fs_ptr s)), dev_depth := fs_depth s\<rparr>,
                   fs_ptr := fs_ptr s + unat (align_up (word_of_nat (name_len + 1)))\<rparr> in
               if fs_ptr s > struct_end then Some (Inl (fs_reported s, fs_count s))
               else Some (Inr (s\<lparr>fs_depth := fs_depth s + 1\<rparr>)))) })"

definition enum_end_node :: "bool \<Rightarrow> fdt_scan \<Rightarrow> fdt_scan" where
  "enum_end_node callback s =
     (let s = (if fs_has_reg s \<and> fs_has_compatible s \<and> callback
               then s\<lparr>fs_reported := fs_reported s @ [fs_device s], fs_count := fs_count s + 1\<rparr> else s) in
      s\<lparr>fs_depth := fs_depth s - 1\<rparr>)"

definition enum_reg :: "u8 list \<Rightarrow> nat \<Rightarrow> u32 \<Rightarrow> nat \<Rightarrow> fdt_scan \<Rightarrow> fdt_scan option" where
  "enum_reg mem struct_end prop_len prop_data s =
     (if prop_len \<ge> 16 \<and> prop_data + 16 \<le> struct_end then do {
        addr_hi \<leftarrow> read_be32_unaligned mem prop_data;
        addr_lo \<leftarrow> read_be32_unaligned mem (prop_data + 4);
        size_hi \<leftarrow> read_be32_unaligned mem (prop_data + 8);
        size_lo \<leftarrow> read_be32_unaligned mem (prop_data + 12);
        Some (s\<lparr>fs_device := (fs_device s)\<lparr>reg_base := push_bit 32 (ucast addr_hi) OR ucast addr_lo,
                  reg_size := push_bit 32 (ucast size_hi) OR ucast size_lo\<rparr>, fs_has_reg := True\<rparr>) }
      else Some s)"

definition enum_prop :: "u8 list \<Rightarrow> nat \<Rightarrow> nat \<Rightarrow> fdt_scan \<Rightarrow> ((device list \<times> int) + fdt_scan) option" where
  "enum_prop mem struct_end strings_base s =
     (if fs_ptr s + 8 > struct_end then Some (Inl (fs_reported s, fs_count s))
      else do {
        prop_len \<leftarrow> be32_at mem (fs_ptr s);
        prop_nameoff \<leftarrow> be32_at mem (fs_ptr s + 4);
        (let prop_data = fs_ptr s + 8; prop_name = strings_base + unat prop_nameoff in
         if prop_data + unat prop_len > struct_end then Some (Inl (fs_reported s, fs_count s))
         else do {
           is_reg \<leftarrow> str_equal mem prop_name ''reg'';
           s \<leftarrow> (if is_reg then enum_reg mem struct_end prop_len prop_data s
                else do {
                  is_compatible \<leftarrow> str_equal mem prop_name ''compatible'';
                  Some (if is_compatible \<and> prop_len > 0
                        then s\<lparr>fs_device := (fs_device s)\<lparr>dev_compatible := Some (string_at mem prop_data)\<rparr>,
                               fs_has_compatible := True\<rparr>
                        else s) });
           (let s = s\<lparr>fs_ptr := prop_data + unat (align_up prop_len)\<rparr> in
            Some (if fs_ptr s > struct_end then Inl (fs_reported s, fs_count s) else Inr s)) }) })"

definition enum_step :: "u8 list \<Rightarrow> bool \<Rightarrow> nat \<Rightarrow> nat \<Rightarrow> fdt_scan \<Rightarrow> ((device list \<times> int) + fdt_scan) option" where
  "enum_step mem callback struct_end strings_base s =
     (if fs_ptr s \<ge> struct_end then Some (Inl (fs_reported s, fs_count s))
      else do {
        token \<leftarrow> be32_at mem (fs_ptr s);
        (let s = s\<lparr>fs_ptr := fs_ptr s + 4\<rparr> in
         if token = FDT_BEGIN_NODE then enum_begin mem struct_end s
         else if token = FDT_END_NODE then Some (Inr (enum_end_node callback s))
         else if token = FDT_PROP then enum_prop mem struct_end strings_base s
         else if token = FDT_NOP then Some (Inr s)
         else Some (Inl (fs_reported s, fs_count s))) })"

text \<open>
  The result is the list of devices passed to the callback, in order, and the returned count.
\<close>

definition fdt_enumerate_devices :: "u8 list option \<Rightarrow> bool \<Rightarrow> (device list \<times> int) option" where
  "fdt_enumerate_devices fdt_addr callback = (case fdt_addr of
     None \<Rightarrow> Some ([], -1)
   | Some mem \<Rightarrow> do {
       magic \<leftarrow> be32_at mem 0;
       (if magic \<noteq> FDT_MAGIC then Some ([], -1)
        else do {
        header \<leftarrow> read_header mem;
        struct_size \<leftarrow> be32_at mem 36;
        (if fh_off_dt_struct header > fh_totalsize header \<or> fh_off_dt_strings header > fh_totalsize header \<or>
                fh_off_dt_struct header + struct_size > fh_totalsize header
        then Some ([], -1)
        else step_loop (enum_step mem callback (unat (fh_off_dt_struct header) + unat (struct_size))
               (unat (fh_off_dt_strings header)))
          \<lparr>fs_ptr = unat (fh_off_dt_struct header), fs_depth = 0, fs_count = 0, fs_device = zero_device,
           fs_has_reg = False, fs_has_compatible = False, fs_reported = []\<rparr>) }) })"

section \<open>Reading the blob\<close>

lemma be32_at_eq: "be32_at mem ptr = ntohl_unaligned (drop ptr mem)"
proof -
  have "be32_to_cpu (ucast b0 OR push_bit 8 (ucast b1) OR push_bit 16 (ucast b2) OR push_bit 24 (ucast b3)) =
     push_bit 24 (ucast b0) OR push_bit 16 (ucast b1) OR push_bit 8 (ucast b2) OR ucast b3" for b0 b1 b2 b3 :: u8
    unfolding be32_to_cpu_def by (rule bits32) (simp add: bit_simps bit_beyond)
  then show ?thesis
    by (simp add: be32_at_def ld32_def ntohl_unaligned_def map_option_bind split: bind_splits)
qed

lemma read_be32_eq: "read_be32_unaligned mem ptr = ntohl_unaligned (drop ptr mem)"
  by (simp add: read_be32_unaligned_def ntohl_unaligned_def)

lemma be32_at_here: "drop ptr mem = be32 v @ rest \<Longrightarrow> be32_at mem ptr = Some v"
  by (simp add: be32_at_eq ntohl_unaligned_be32)

lemma align_up_eq: "n + 3 < 4294967296 \<Longrightarrow> unat (align_up (word_of_nat n)) = (n + 3) div 4 * 4"
proof -
  assume n: "n + 3 < 4294967296"
  have *: "v AND NOT 3 = push_bit 2 (drop_bit 2 v)" for v :: u32
    by (rule bits32) (simp add: bit_simps, simp add: numeral_2_eq_2 numeral_3_eq_3)
  define v :: u32 where "v = word_of_nat n + 3"
  have v: "unat v = n + 3"
    using n by (simp add: v_def unat_word_ariths unat_of_nat take_bit_eq_mod)
  have "(n + 3) div 4 * 4 < 4294967296"
    using n by (intro order_le_less_trans [OF div_times_less_eq_dividend])
  then show ?thesis
    using v unfolding align_up_def v_def [symmetric] * by (simp add: unat_shr push_bit_eq_mult unat_word_ariths)
qed

lemma str_equal_eq:
  assumes "drop ptr mem = bytes nm @ 0 # rest" and "NUL \<notin> set nm" and "NUL \<notin> set lit"
  shows "str_equal mem ptr lit = Some (nm = lit)"
  using assms
proof (induction nm arbitrary: ptr lit)
  case Nil
  then have "rd8 mem ptr = Some 0"
    using rd8_drop [of ptr mem 0] by (simp add: bytes_def)
  then show ?case
    using Nil.prems(3) by (cases lit) (auto simp: str_equal.simps of_char_0 eq_commute [of 0])
next
  case (Cons c nm)
  have rd: "rd8 mem ptr = Some (of_char c)"
    using Cons.prems(1) rd8_drop [of ptr mem 0] by (simp add: bytes_def)
  have "drop (ptr + 1) mem = bytes nm @ 0 # rest"
    using Cons.prems(1) drop_Suc [of ptr mem] tl_drop [of ptr mem] by (simp add: bytes_def)
  then show ?case
    using Cons.IH [of "ptr + 1"] Cons.prems(2,3) rd
    by (cases lit) (auto simp: str_equal.simps of_char_0 of_char_inj8 bytes_def)
qed

lemma name_len_eq:
  assumes "drop ptr mem = bytes nm @ 0 # rest" and "NUL \<notin> set nm" and "length nm < max_len"
  shows "name_len_loop mem ptr max_len 0 = Some (length nm)"
proof -
  have rd: "rd8 mem (ptr + k) = Some (if k < length nm then of_char (nm ! k) else 0)" if "k \<le> length nm" for k
    using rd8_drop [of ptr mem k, symmetric] that assms(1) by (simp add: rd8_def bytes_def nth_append)
  have "k \<le> length nm \<Longrightarrow> name_len_loop mem ptr max_len k = Some (length nm)" for k
  proof (induction "length nm - k" arbitrary: k)
    case 0
    then show ?case
      using rd [of k] assms(3) by (subst name_len_loop.simps) simp
  next
    case (Suc n)
    then have "k < length nm"
      by simp
    then have "of_char (nm ! k) \<noteq> (0 :: u8)"
      using assms(2) nth_mem [of k nm] by (metis of_char_0)
    then show ?case
      using rd [of k] Suc assms(3) by (subst name_len_loop.simps) simp
  qed
  then show ?thesis
    by simp
qed

lemma string_at_eq:
  assumes "drop ptr mem = bytes nm @ 0 # rest" and "NUL \<notin> set nm"
  shows "string_at mem ptr = nm"
proof -
  have "takeWhile (\<lambda>b. b \<noteq> 0) (bytes nm @ 0 # rest) = bytes nm"
    using assms(2) by (subst takeWhile_append2) (auto simp: bytes_def of_char_0)
  then show ?thesis
    by (simp add: string_at_def assms(1)) (simp add: bytes_def byte_char comp_def)
qed

section \<open>Device trees and their encoding\<close>

text \<open>
  The structure block of the devicetree specification: a node is its name, its properties and its
  children, in this order; \<open>nameoff\<close> gives the offset of a property name in the strings block.
\<close>

datatype fdt_node = FNode (node_name: string) (node_props: "(string \<times> u8 list) list") (node_kids: "fdt_node list")

definition pad4 :: "u8 list \<Rightarrow> u8 list" where
  "pad4 bs = bs @ replicate ((length bs + 3) div 4 * 4 - length bs) 0"

definition enc_prop :: "(string \<Rightarrow> u32) \<Rightarrow> string \<times> u8 list \<Rightarrow> u8 list" where
  "enc_prop nameoff p = be32 FDT_PROP @ be32 (word_of_nat (length (snd p))) @ be32 (nameoff (fst p)) @ pad4 (snd p)"

primrec enc_node :: "(string \<Rightarrow> u32) \<Rightarrow> fdt_node \<Rightarrow> u8 list" where
  "enc_node nameoff (FNode nm ps ks) = be32 FDT_BEGIN_NODE @ pad4 (bytes nm @ [0]) @
     concat (map (enc_prop nameoff) ps) @ concat (map (enc_node nameoff) ks) @ be32 FDT_END_NODE"

definition prop_ok :: "u8 list \<Rightarrow> nat \<Rightarrow> (string \<Rightarrow> u32) \<Rightarrow> string \<times> u8 list \<Rightarrow> bool" where
  "prop_ok mem strs nameoff p \<longleftrightarrow> NUL \<notin> set (fst p) \<and>
     (\<exists>rest. drop (strs + unat (nameoff (fst p))) mem = bytes (fst p) @ 0 # rest) \<and>
     (fst p = ''compatible'' \<and> snd p \<noteq> [] \<longrightarrow> 0 \<in> set (snd p))"

primrec node_ok :: "u8 list \<Rightarrow> nat \<Rightarrow> (string \<Rightarrow> u32) \<Rightarrow> fdt_node \<Rightarrow> bool" where
  "node_ok mem strs nameoff (FNode nm ps ks) \<longleftrightarrow> NUL \<notin> set nm \<and> list_all (prop_ok mem strs nameoff) ps \<and>
     list_all (\<lambda>b. b) (map (node_ok mem strs nameoff) ks)"

lemma length_pad4: "length (pad4 bs) = (length bs + 3) div 4 * 4"
proof -
  have "length bs \<le> (length bs + 3) div 4 * 4"
    by linarith
  then show ?thesis
    by (simp add: pad4_def)
qed

lemma align_up_pad4:
  assumes "length (pad4 bs) < 4294967296"
  shows "unat (align_up (word_of_nat (length bs))) = length (pad4 bs)"
proof -
  have "length bs + 3 < 4294967296"
    using assms unfolding length_pad4 by presburger
  then show ?thesis
    by (simp add: align_up_eq length_pad4)
qed

lemma drop_after: "drop ptr mem = xs @ rest \<Longrightarrow> n = length xs \<Longrightarrow> drop (ptr + n) mem = rest"
  by (metis add.commute append_eq_conv_conj drop_drop)

lemma begin_layout:
  assumes d: "drop ptr mem = be32 FDT_BEGIN_NODE @ pad4 (bytes nm @ [0]) @ rest" and nm: "NUL \<notin> set nm"
    and e: "ptr + 4 + length (pad4 (bytes nm @ [0])) \<le> lim" "lim < 4294967296"
  shows "be32_at mem ptr = Some FDT_BEGIN_NODE"
    and "name_len_loop mem (ptr + 4) (lim - (ptr + 4)) 0 = Some (length nm)"
    and "unat (align_up (word_of_nat (length nm + 1))) = length (pad4 (bytes nm @ [0]))"
    and "\<not> lim - (ptr + 4) \<le> length nm"
    and "string_at mem (ptr + 4) = nm"
    and "NUL \<notin> set lit \<Longrightarrow> str_equal mem (ptr + 4) lit = Some (nm = lit)"
proof -
  show "be32_at mem ptr = Some FDT_BEGIN_NODE"
    using d by (rule be32_at_here)
  have d4: "drop (ptr + 4) mem = bytes nm @ 0 # (replicate ((length (bytes nm @ [0]) + 3) div 4 * 4 - length (bytes nm @ [0])) 0 @ rest)"
    using drop_after [OF d] by (simp add: pad4_def)
  show "unat (align_up (word_of_nat (length nm + 1))) = length (pad4 (bytes nm @ [0]))"
    using align_up_pad4 [of "bytes nm @ [0]"] e by (simp add: bytes_def)
  have "length nm < length (pad4 (bytes nm @ [0]))"
    by (simp add: pad4_def bytes_def)
  then show "\<not> lim - (ptr + 4) \<le> length nm"
    using e by linarith
  then show "name_len_loop mem (ptr + 4) (lim - (ptr + 4)) 0 = Some (length nm)"
    by (intro name_len_eq [OF d4 nm]) simp
  show "string_at mem (ptr + 4) = nm"
    by (rule string_at_eq [OF d4 nm])
  show "NUL \<notin> set lit \<Longrightarrow> str_equal mem (ptr + 4) lit = Some (nm = lit)"
    by (rule str_equal_eq [OF d4 nm])
qed

lemma prop_layout:
  assumes d: "drop ptr mem = enc_prop nameoff (nm, data) @ rest" and ok: "prop_ok mem strs nameoff (nm, data)"
    and e: "ptr + length (enc_prop nameoff (nm, data)) \<le> lim" "lim < 4294967296"
  shows "be32_at mem ptr = Some FDT_PROP" and "be32_at mem (ptr + 4) = Some (word_of_nat (length data))"
    and "be32_at mem (ptr + 8) = Some (nameoff nm)"
    and "\<exists>rest. drop (ptr + 12) mem = data @ rest"
    and "length (enc_prop nameoff (nm, data)) = 12 + length (pad4 data)"
    and "length data < 4294967296" and "ptr + 12 + length data \<le> lim"
    and "unat (word_of_nat (length data) :: u32) = length data"
    and "(0 :: u32) < word_of_nat (length data) \<longleftrightarrow> data \<noteq> []"
    and "unat (align_up (word_of_nat (length data))) = length (pad4 data)"
    and "NUL \<notin> set lit \<Longrightarrow> str_equal mem (strs + unat (nameoff nm)) lit = Some (nm = lit)"
proof -
  have d0: "drop ptr mem = be32 FDT_PROP @ be32 (word_of_nat (length data)) @ be32 (nameoff nm) @ pad4 data @ rest"
    using d by (simp add: enc_prop_def)
  have d4: "drop (ptr + 4) mem = be32 (word_of_nat (length data)) @ be32 (nameoff nm) @ pad4 data @ rest"
    using drop_after [OF d0, of 4] by simp
  have d8: "drop (ptr + 8) mem = be32 (nameoff nm) @ pad4 data @ rest"
    using drop_after [OF d4, of 4] by (simp add: add.assoc)
  have "drop (ptr + 12) mem = pad4 data @ rest"
    using drop_after [OF d8, of 4] by (simp add: add.assoc)
  then show "\<exists>rest. drop (ptr + 12) mem = data @ rest"
    by (simp add: pad4_def)
  show "be32_at mem ptr = Some FDT_PROP" "be32_at mem (ptr + 4) = Some (word_of_nat (length data))"
    "be32_at mem (ptr + 8) = Some (nameoff nm)"
    using d0 d4 d8 by (auto intro: be32_at_here)
  show len: "length (enc_prop nameoff (nm, data)) = 12 + length (pad4 data)"
    by (simp add: enc_prop_def)
  have "length data \<le> length (pad4 data)"
    by (simp add: pad4_def)
  then show small: "length data < 4294967296" and "ptr + 12 + length data \<le> lim"
    using e len by linarith+
  then show "unat (word_of_nat (length data) :: u32) = length data" "(0 :: u32) < word_of_nat (length data) \<longleftrightarrow> data \<noteq> []"
    by (simp_all add: word_less_nat_alt unat_of_nat take_bit_eq_mod)
  show "unat (align_up (word_of_nat (length data))) = length (pad4 data)"
    using e len by (intro align_up_pad4) linarith
  show "NUL \<notin> set lit \<Longrightarrow> str_equal mem (strs + unat (nameoff nm)) lit = Some (nm = lit)"
    using ok by (auto simp: prop_ok_def intro: str_equal_eq)
qed

section \<open>Enumeration of an encoded tree\<close>

type_synonym cur = "device \<times> bool \<times> bool"

definition cell64 :: "u8 list \<Rightarrow> nat \<Rightarrow> u64" where
  "cell64 data k = push_bit 32 (ucast (the (ntohl_unaligned (drop k data)))) OR
     ucast (the (ntohl_unaligned (drop (k + 4) data)))"

definition prop_effect :: "string \<times> u8 list \<Rightarrow> cur \<Rightarrow> cur" where
  "prop_effect p cur = (case (p, cur) of ((nm, data), (d, r, c)) \<Rightarrow>
     if nm = ''reg'' then
       if 16 \<le> length data then (d\<lparr>reg_base := cell64 data 0, reg_size := cell64 data 8\<rparr>, True, c) else cur
     else if nm = ''compatible'' \<and> data \<noteq> [] then
       (d\<lparr>dev_compatible := Some (string_at data 0)\<rparr>, r, True)
     else cur)"

definition new_node :: "string \<Rightarrow> int \<Rightarrow> cur" where
  "new_node nm depth = (zero_device\<lparr>dev_name := Some nm, dev_depth := depth\<rparr>, False, False)"

definition report :: "cur \<Rightarrow> device list" where
  "report cur = (case cur of (d, r, c) \<Rightarrow> if r \<and> c then [d] else [])"

text \<open>
  The node whose properties are current when a node closes: the last one opened, which is the node
  itself only if it has no children. It is reported, if it has both properties, at every closing.
\<close>

primrec last_open :: "fdt_node \<Rightarrow> int \<Rightarrow> cur" where
  "last_open (FNode nm ps ks) = (\<lambda>depth.
     if ks = [] then fold prop_effect ps (new_node nm depth) else last (map last_open ks) (depth + 1))"

primrec reports :: "fdt_node \<Rightarrow> int \<Rightarrow> device list" where
  "reports (FNode nm ps ks) = (\<lambda>depth. concat (map (\<lambda>f. f (depth + 1)) (map reports ks)) @
     report (last_open (FNode nm ps ks) depth))"

definition scan_of :: "nat \<Rightarrow> int \<Rightarrow> device list \<Rightarrow> cur \<Rightarrow> fdt_scan" where
  "scan_of ptr depth rep cur = \<lparr>fs_ptr = ptr, fs_depth = depth, fs_count = int (length rep), fs_device = fst cur,
     fs_has_reg = fst (snd cur), fs_has_compatible = snd (snd cur), fs_reported = rep\<rparr>"

lemma enum_step_begin:
  assumes d: "drop ptr mem = be32 FDT_BEGIN_NODE @ pad4 (bytes nm @ [0]) @ rest" and nm: "NUL \<notin> set nm"
    and e: "ptr + 4 + length (pad4 (bytes nm @ [0])) \<le> struct_end" "struct_end < 4294967296"
  shows "enum_step mem cb struct_end strs (scan_of ptr depth rep cur) =
    Some (Inr (scan_of (ptr + 4 + length (pad4 (bytes nm @ [0]))) (depth + 1) rep (new_node nm depth)))"
  using begin_layout [OF d nm e] e(1)
  by (simp add: enum_step_def scan_of_def enum_begin_def new_node_def Let_def)

lemma enum_step_end_node:
  assumes d: "drop ptr mem = be32 FDT_END_NODE @ rest" and e: "ptr + 4 \<le> struct_end"
  shows "enum_step mem True struct_end strs (scan_of ptr depth rep cur) =
    Some (Inr (scan_of (ptr + 4) (depth - 1) (rep @ report cur) cur))"
  using be32_at_here [OF d] e
  by (cases cur) (simp add: enum_step_def scan_of_def fdt_tokens enum_end_node_def report_def Let_def)

lemma ntohl_append: "4 \<le> length p \<Longrightarrow> ntohl_unaligned (p @ rest) = ntohl_unaligned p"
  using be32f.rd_take [of "p @ rest"] be32f.rd_take [of p] by simp

lemma ntohl_the: "4 \<le> length p \<Longrightarrow> ntohl_unaligned p = Some (the (ntohl_unaligned p))"
  using be32f.rd_total [of p] by auto

lemma enum_reg_eq:
  assumes "drop ptr mem = data @ rest" and "ptr + length data \<le> struct_end" and "length data < 4294967296"
  shows "enum_reg mem struct_end (word_of_nat (length data)) ptr s =
    Some (if 16 \<le> length data then s\<lparr>fs_device := (fs_device s)\<lparr>reg_base := cell64 data 0, reg_size := cell64 data 8\<rparr>,
      fs_has_reg := True\<rparr> else s)"
proof -
  have w: "(16 :: u32) \<le> word_of_nat (length data) \<longleftrightarrow> 16 \<le> length data"
    using assms(3) by (simp add: word_le_nat_alt unat_of_nat take_bit_eq_mod)
  have rd: "read_be32_unaligned mem (ptr + k) = Some (the (ntohl_unaligned (drop k data)))" if "k + 4 \<le> length data" for k
  proof -
    have "drop (ptr + k) mem = drop k data @ rest"
      using that drop_drop [of k ptr mem] by (simp add: assms(1) add.commute)
    then show ?thesis
      using that ntohl_append [of "drop k data" rest] ntohl_the [of "drop k data"] by (simp add: read_be32_eq)
  qed
  show ?thesis
    using assms(2) w rd [of 0] rd [of 4] rd [of 8] rd [of 12] by (simp add: enum_reg_def cell64_def)
qed

lemma string_at_data:
  assumes "drop ptr mem = data @ rest" and "0 \<in> set data"
  shows "string_at mem ptr = string_at data 0"
  using assms takeWhile_append1 [of 0 data "\<lambda>b. b \<noteq> 0" rest] by (simp add: string_at_def)

lemma enum_step_prop:
  assumes d: "drop ptr mem = enc_prop nameoff p @ rest" and ok: "prop_ok mem strs nameoff p"
    and e: "ptr + length (enc_prop nameoff p) \<le> struct_end" "struct_end < 4294967296"
  shows "enum_step mem cb struct_end strs (scan_of ptr depth rep cur) =
    Some (Inr (scan_of (ptr + length (enc_prop nameoff p)) depth rep (prop_effect p cur)))"
proof -
  obtain nm data where p: "p = (nm, data)"
    by (cases p)
  obtain dv r c where cur: "cur = (dv, r, c)"
    by (cases cur)
  note lay = prop_layout [OF d [unfolded p] ok [unfolded p] e [unfolded p]]
  obtain rest' where dd: "drop (ptr + 12) mem = data @ rest'"
    using lay(4) by blast
  note reg = enum_reg_eq [OF dd lay(7,6)]
  have cmp: "nm = ''compatible'' \<Longrightarrow> data \<noteq> [] \<Longrightarrow> string_at mem (ptr + 12) = string_at data 0"
    using ok by (intro string_at_data [OF dd]) (simp add: prop_ok_def p)
  show ?thesis
    using lay(1-3,5,7,8,10) e cmp
    by (simp add: enum_step_def scan_of_def fdt_tokens enum_prop_def Let_def lay(9,11) reg prop_effect_def p cur add.assoc)
qed

lemma enum_props:
  assumes "drop ptr mem = concat (map (enc_prop nameoff) ps) @ rest" and "list_all (prop_ok mem strs nameoff) ps"
    and "ptr + length (concat (map (enc_prop nameoff) ps)) \<le> struct_end" and "struct_end < 4294967296"
  shows "step_loop (enum_step mem cb struct_end strs) (scan_of ptr depth rep cur) =
    step_loop (enum_step mem cb struct_end strs)
      (scan_of (ptr + length (concat (map (enc_prop nameoff) ps))) depth rep (fold prop_effect ps cur))"
  using assms(1-3)
proof (induction ps arbitrary: ptr cur)
  case (Cons p ps)
  have d: "drop ptr mem = enc_prop nameoff p @ concat (map (enc_prop nameoff) ps) @ rest"
    using Cons.prems(1) by simp
  have step: "enum_step mem cb struct_end strs (scan_of ptr depth rep cur) =
      Some (Inr (scan_of (ptr + length (enc_prop nameoff p)) depth rep (prop_effect p cur)))"
    using Cons.prems by (intro enum_step_prop [OF d _ _ assms(4)]) simp_all
  show ?case
    using Cons.IH [OF drop_after [OF d refl], of "prop_effect p cur"] Cons.prems
    by (simp add: step_loop_Inr [of "enum_step mem cb struct_end strs", OF step] add.assoc)
qed simp

lemma enum_kids:
  assumes IH: "\<And>k ptr rep cur rest. k \<in> set ks \<Longrightarrow> drop ptr mem = enc_node nameoff k @ rest \<Longrightarrow>
      ptr + length (enc_node nameoff k) \<le> struct_end \<Longrightarrow>
      step_loop stp (scan_of ptr depth rep cur) =
      step_loop stp (scan_of (ptr + length (enc_node nameoff k)) depth (rep @ reports k depth) (last_open k depth))"
    and "drop ptr mem = concat (map (enc_node nameoff) ks) @ rest"
    and "ptr + length (concat (map (enc_node nameoff) ks)) \<le> struct_end"
  shows "step_loop stp (scan_of ptr depth rep cur) =
    step_loop stp (scan_of (ptr + length (concat (map (enc_node nameoff) ks))) depth
      (rep @ concat (map (\<lambda>k. reports k depth) ks)) (if ks = [] then cur else last (map last_open ks) depth))"
  using assms
proof (induction ks arbitrary: ptr rep cur)
  case (Cons k ks)
  have d: "drop ptr mem = enc_node nameoff k @ concat (map (enc_node nameoff) ks) @ rest"
    using Cons.prems(2) by simp
  have "step_loop stp (scan_of ptr depth rep cur) =
      step_loop stp (scan_of (ptr + length (enc_node nameoff k)) depth (rep @ reports k depth) (last_open k depth))"
    using Cons.prems(3) by (intro Cons.prems(1) [OF _ d]) simp_all
  also have "\<dots> = step_loop stp (scan_of (ptr + length (enc_node nameoff k) + length (concat (map (enc_node nameoff) ks))) depth
      ((rep @ reports k depth) @ concat (map (\<lambda>k. reports k depth) ks))
      (if ks = [] then last_open k depth else last (map last_open ks) depth))"
    using Cons.prems by (intro Cons.IH [OF _ drop_after [OF d refl]]) (simp_all add: add.assoc)
  finally show ?case
    by (simp add: add.assoc)
qed simp

lemma enum_node:
  assumes "drop ptr mem = enc_node nameoff n @ rest" and "node_ok mem strs nameoff n"
    and "ptr + length (enc_node nameoff n) \<le> struct_end" and "struct_end < 4294967296"
  shows "step_loop (enum_step mem True struct_end strs) (scan_of ptr depth rep cur) =
    step_loop (enum_step mem True struct_end strs)
      (scan_of (ptr + length (enc_node nameoff n)) depth (rep @ reports n depth) (last_open n depth))"
  using assms(1-3)
proof (induction n arbitrary: ptr depth rep cur rest)
  case (FNode nm ps ks)
  let ?loop = "step_loop (enum_step mem True struct_end strs)"
  let ?hd = "pad4 (bytes nm @ [0])" and ?ps = "concat (map (enc_prop nameoff) ps)" and ?ks = "concat (map (enc_node nameoff) ks)"
  let ?p1 = "ptr + 4 + length ?hd" let ?p2 = "?p1 + length ?ps" let ?p3 = "?p2 + length ?ks"
  have d: "drop ptr mem = be32 FDT_BEGIN_NODE @ ?hd @ ?ps @ ?ks @ be32 FDT_END_NODE @ rest"
    using FNode.prems(1) by simp
  have d1: "drop ?p1 mem = ?ps @ ?ks @ be32 FDT_END_NODE @ rest"
    using drop_after [OF d, of 4] drop_after [of "ptr + 4" mem ?hd] by simp
  note d2 = drop_after [OF d1 refl]
  note d3 = drop_after [OF d2 refl]
  have ok: "NUL \<notin> set nm" "list_all (prop_ok mem strs nameoff) ps" "\<forall>k \<in> set ks. node_ok mem strs nameoff k"
    using FNode.prems(2) by (auto simp: list_all_iff)
  have e: "?p3 + 4 \<le> struct_end"
    using FNode.prems(3) by simp
  have "?loop (scan_of ptr depth rep cur) = ?loop (scan_of ?p1 (depth + 1) rep (new_node nm depth))"
    using e by (intro step_loop_Inr enum_step_begin [OF d ok(1) _ assms(4)]) simp
  also have "\<dots> = ?loop (scan_of ?p2 (depth + 1) rep (fold prop_effect ps (new_node nm depth)))"
    using e by (intro enum_props [OF d1 ok(2) _ assms(4)]) simp
  also have "\<dots> = ?loop (scan_of ?p3 (depth + 1) (rep @ concat (map (\<lambda>k. reports k (depth + 1)) ks)) (last_open (FNode nm ps ks) depth))"
  proof -
    have kid: "?loop (scan_of q (depth + 1) rep' cur') = ?loop (scan_of (q + length (enc_node nameoff k)) (depth + 1)
        (rep' @ reports k (depth + 1)) (last_open k (depth + 1)))"
      if "k \<in> set ks" "drop q mem = enc_node nameoff k @ rest'" "q + length (enc_node nameoff k) \<le> struct_end"
      for k q rep' cur' rest'
      using ok(3) that(1) by (intro FNode.IH [OF that(1,2) _ that(3)]) simp
    have "?loop (scan_of ?p2 (depth + 1) rep (fold prop_effect ps (new_node nm depth))) =
        ?loop (scan_of ?p3 (depth + 1) (rep @ concat (map (\<lambda>k. reports k (depth + 1)) ks))
          (if ks = [] then fold prop_effect ps (new_node nm depth) else last (map last_open ks) (depth + 1)))"
      by (rule enum_kids [OF kid d2]) (assumption | use e in simp)+
    then show ?thesis
      by simp
  qed
  also have "\<dots> = ?loop (scan_of (?p3 + 4) depth (rep @ reports (FNode nm ps ks) depth) (last_open (FNode nm ps ks) depth))"
    using step_loop_Inr [of "enum_step mem True struct_end strs", OF enum_step_end_node [OF d3 e]]
    by (simp add: comp_def)
  finally show ?case
    by (simp add: add.assoc)
qed

section \<open>Well-formed blobs\<close>

text \<open>
  A blob in memory as the specification describes it: header with the magic number, structure block at its
  offset with its size and the end token, property names in the strings block.
\<close>

definition fdt_blob :: "u8 list \<Rightarrow> (string \<Rightarrow> u32) \<Rightarrow> fdt_node \<Rightarrow> bool" where
  "fdt_blob mem nameoff tree \<longleftrightarrow> (\<exists>tot so ss sz rest.
     be32_at mem 0 = Some FDT_MAGIC \<and> be32_at mem 4 = Some tot \<and> be32_at mem 8 = Some so \<and> be32_at mem 12 = Some ss \<and>
     be32_at mem 36 = Some sz \<and> unat so + unat sz \<le> unat tot \<and> ss \<le> tot \<and>
     unat sz = length (enc_node nameoff tree @ be32 FDT_END) \<and>
     drop (unat so) mem = enc_node nameoff tree @ be32 FDT_END @ rest \<and> node_ok mem (unat ss) nameoff tree)"

lemma enumerate_blob:
  assumes "fdt_blob mem nameoff tree"
  shows "fdt_enumerate_devices (Some mem) True = Some (reports tree 0, int (length (reports tree 0)))"
proof -
  obtain tot so ss sz rest where h: "be32_at mem 0 = Some FDT_MAGIC" "be32_at mem 4 = Some tot" "be32_at mem 8 = Some so"
     "be32_at mem 12 = Some ss" "be32_at mem 36 = Some sz"
    and sz: "unat so + unat sz \<le> unat tot" "ss \<le> tot" "unat sz = length (enc_node nameoff tree @ be32 FDT_END)"
    and d: "drop (unat so) mem = enc_node nameoff tree @ be32 FDT_END @ rest" and ok: "node_ok mem (unat ss) nameoff tree"
    using assms unfolding fdt_blob_def by blast
  have tot: "unat tot < 4294967296"
    by (rule unat_lt32)
  have so: "so \<le> tot" and "unat (so + sz) = unat so + unat sz"
    using sz(1) tot by (simp_all add: word_le_nat_alt unat_word_ariths)
  then have chk: "\<not> so > tot" "\<not> ss > tot" "\<not> so + sz > tot"
    using sz by (simp_all add: not_less word_le_nat_alt)
  let ?stp = "enum_step mem True (unat so + unat sz) (unat ss)"
  let ?p = "unat so + length (enc_node nameoff tree)"
  have "fdt_enumerate_devices (Some mem) True = step_loop ?stp (scan_of (unat so) 0 [] (zero_device, False, False))"
    using chk by (simp add: fdt_enumerate_devices_def h read_header_def scan_of_def)
  also have "\<dots> = step_loop ?stp (scan_of ?p 0 ([] @ reports tree 0) (last_open tree 0))"
    using sz tot by (intro enum_node [OF d ok]) simp_all
  also have "\<dots> = Some (reports tree 0, int (length (reports tree 0)))"
  proof (rule step_loop_Inl)
    show "?stp (scan_of ?p 0 ([] @ reports tree 0) (last_open tree 0)) = Some (Inl (reports tree 0, int (length (reports tree 0))))"
      using be32_at_here [OF drop_after [OF d refl]] sz(3) by (simp add: enum_step_def scan_of_def fdt_tokens)
  qed
  finally show ?thesis .
qed

section \<open>The command line of an encoded tree\<close>
















section \<open>Arbitrary blobs\<close>















section \<open>Properties\<close>



text \<open>
  C14: on every blob that encodes a tree, \<open>fdt_enumerate_devices\<close> succeeds and reports, at the closing of each
  node, the last node opened so far if it has a usable \<^verbatim>\<open>reg\<close> and \<^verbatim>\<open>compatible\<close>, with name, depth, address, size and
  compatible string as in the tree: every leaf device is reported (again at each ancestor it is the last
  descendant of), an inner node is not.
\<close>

theorem fdt_enumerate_correct:
  assumes "fdt_blob mem nameoff tree"
  shows "fdt_enumerate_devices (Some mem) True = Some (reports tree 0, int (length (reports tree 0)))"
  using assms by (rule enumerate_blob)


text \<open>A tree with a command line and one device, and its blob.\<close>

definition sample_tree :: fdt_node where
  "sample_tree = FNode [] []
     [FNode ''chosen'' [(''bootargs'', bytes ''app=mac-all'' @ [0])] [],
      FNode ''virtio_mmio@10001000'' [(''compatible'', bytes ''virtio,mmio'' @ [0]),
        (''reg'', be32 0 @ be32 0x10001000 @ be32 0 @ be32 0x1000)] []]"

definition sample_nameoff :: "string \<Rightarrow> u32" where
  "sample_nameoff nm = (if nm = ''bootargs'' then 0 else if nm = ''compatible'' then 9 else 20)"

definition sample_blob :: "u8 list" where
  "sample_blob = be32 FDT_MAGIC @ be32 204 @ be32 40 @ be32 180 @ be32 0 @ be32 17 @ be32 16 @ be32 0 @ be32 24 @ be32 140 @
     enc_node sample_nameoff sample_tree @ be32 FDT_END @
     bytes ''bootargs'' @ [0] @ bytes ''compatible'' @ [0] @ bytes ''reg'' @ [0]"

lemma sample_size: "length (enc_node sample_nameoff sample_tree) = 136"
  by (simp add: sample_tree_def enc_prop_def length_pad4) (simp add: bytes_def)

lemma sample_strings: "drop 180 sample_blob = bytes ''bootargs'' @ 0 # bytes ''compatible'' @ 0 # bytes ''reg'' @ [0]"
  by (simp add: sample_blob_def sample_size)

lemma sample_strings_at: "drop (180 + n) sample_blob = drop n (bytes ''bootargs'' @ 0 # bytes ''compatible'' @ 0 # bytes ''reg'' @ [0])"
  using drop_drop [of n 180 sample_blob] by (simp add: sample_strings add.commute)

lemma sample_ok: "node_ok sample_blob 180 sample_nameoff sample_tree"
  using sample_strings_at [of 0] sample_strings_at [of 9] sample_strings_at [of 20]
  by (auto simp: sample_tree_def prop_ok_def sample_nameoff_def bytes_def)

lemma sample_header:
  "be32_at sample_blob 0 = Some FDT_MAGIC" "be32_at sample_blob 4 = Some 204" "be32_at sample_blob 8 = Some 40"
  "be32_at sample_blob 12 = Some 180" "be32_at sample_blob 36 = Some 140"
  by (rule be32_at_here, simp add: sample_blob_def)+

lemma sample_is_blob: "fdt_blob sample_blob sample_nameoff sample_tree"
  unfolding fdt_blob_def
proof (rule exI [of _ 204], rule exI [of _ 40], rule exI [of _ 180], rule exI [of _ 140], intro exI conjI)
  show "drop (unat (40 :: u32)) sample_blob = enc_node sample_nameoff sample_tree @ be32 FDT_END @
      bytes ''bootargs'' @ [0] @ bytes ''compatible'' @ [0] @ bytes ''reg'' @ [0]"
    by (simp add: sample_blob_def)
qed (simp_all add: sample_header sample_ok sample_size)

theorem fdt_enumerate_correct_witness:
  "\<exists>d. fdt_enumerate_devices (Some sample_blob) True = Some ([d, d], 2) \<and> reg_base d = 0x10001000 \<and>
     dev_name d = Some ''virtio_mmio@10001000'' \<and> dev_depth d = 1"
proof -
  have "string_at (bytes ''virtio,mmio'' @ [0]) 0 = ''virtio,mmio''"
    by (rule string_at_eq [where rest = "[]"]) simp_all
  then have "\<exists>d. reports sample_tree 0 = [d, d] \<and> reg_base d = 0x10001000 \<and>
     dev_name d = Some ''virtio_mmio@10001000'' \<and> dev_depth d = 1"
    by (simp add: sample_tree_def report_def prop_effect_def new_node_def cell64_def ntohl_unaligned_be32 zero_device_def)
  then show ?thesis
    using fdt_enumerate_correct [OF sample_is_blob] by auto
qed


end
