(* ===== verification/Http_Hello.thy ===== *)
theory Http_Hello
  imports Ethernet Logging
begin

text \<open>
  The HTTP server of \<^verbatim>\<open>apps/http-hello/http_hello.c\<close>: the response text, the TCP sender, and the handling of
  one received frame. A \<^verbatim>\<open>buf[len++] = c\<close> sequence threads the buffer and \<^verbatim>\<open>len\<close>; what \<^verbatim>\<open>netdev_transmit\<close> is
  given is appended to the list of sent frames.
\<close>

definition HTTP_HELLO_BUFFER_SIZE :: nat where
  "HTTP_HELLO_BUFFER_SIZE = 2048"

definition HTTP_HELLO_PORT :: u16 where
  "HTTP_HELLO_PORT = 80"

section \<open>The response\<close>

type_synonym writer = "u8 list \<times> nat"

text \<open>\<^verbatim>\<open>buf[len++] = c\<close>, and a run of such stores.\<close>

definition emit :: "nat \<Rightarrow> u8 \<Rightarrow> writer \<Rightarrow> writer option" where
  "emit buf c w = (case w of (m, len) \<Rightarrow> do { m \<leftarrow> st8 m (buf + len) c; Some (m, len + 1) })"

fun emits :: "nat \<Rightarrow> u8 list \<Rightarrow> writer \<Rightarrow> writer option" where
  "emits buf [] w = Some w"
| "emits buf (c # cs) w = do { w \<leftarrow> emit buf c w; emits buf cs w }"

definition write_decimal_u8 :: "nat \<Rightarrow> u8 \<Rightarrow> u8 list \<Rightarrow> writer option" where
  "write_decimal_u8 buf value m =
     (if value \<ge> 100 then do {
        w \<leftarrow> emit buf (0x30 + value div 100) (m, 0);
        (let value = value mod 100 in do {
        w \<leftarrow> emit buf (0x30 + value div 10) w;
        emit buf (0x30 + value mod 10) w }) }
      else if value \<ge> 10 then do {
        w \<leftarrow> emit buf (0x30 + value div 10) (m, 0);
        emit buf (0x30 + value mod 10) w }
      else emit buf (0x30 + value) (m, 0))"

text \<open>\<^verbatim>\<open>len += f(buf + len, ...)\<close>\<close>

definition advance :: "(nat \<Rightarrow> u8 list \<Rightarrow> writer option) \<Rightarrow> nat \<Rightarrow> writer \<Rightarrow> writer option" where
  "advance f buf w = (case w of (m, len) \<Rightarrow> do { (m, n) \<leftarrow> f (buf + len) m; Some (m, len + n) })"

definition write_hello_ip :: "nat \<Rightarrow> u32 \<Rightarrow> u8 list \<Rightarrow> writer option" where
  "write_hello_ip buf ip_host m = do {
     w \<leftarrow> emits buf (bytes ''Hello, '') (m, 0);
     w \<leftarrow> advance (\<lambda>b. write_decimal_u8 b (ucast (drop_bit 24 ip_host AND 0xFF))) buf w;
     w \<leftarrow> emit buf (of_char CHR ''.'') w;
     w \<leftarrow> advance (\<lambda>b. write_decimal_u8 b (ucast (drop_bit 16 ip_host AND 0xFF))) buf w;
     w \<leftarrow> emit buf (of_char CHR ''.'') w;
     w \<leftarrow> advance (\<lambda>b. write_decimal_u8 b (ucast (drop_bit 8 ip_host AND 0xFF))) buf w;
     w \<leftarrow> emit buf (of_char CHR ''.'') w;
     w \<leftarrow> advance (\<lambda>b. write_decimal_u8 b (ucast (ip_host AND 0xFF))) buf w;
     emit buf 0x0A w }"

definition write_decimal_size :: "nat \<Rightarrow> nat \<Rightarrow> u8 list \<Rightarrow> writer option" where
  "write_decimal_size buf value m =
     (if value = 0 then emit buf 0x30 (m, 0)
      else do { digits \<leftarrow> decimal_loop 4 [] value; emits buf (bytes digits) (m, 0) })"

definition CRLF :: string where
  "CRLF = [CHR 0x0D, CHR 0x0A]"

definition response_head :: string where
  "response_head = ''HTTP/1.1 200 OK'' @ CRLF @ ''Connection: keep-alive'' @ CRLF @ ''Content-Type: text/plain'' @ CRLF @
     ''Content-Length: ''"

text \<open>The body is written to a local array of 32 bytes first.\<close>

definition build_http_response :: "nat \<Rightarrow> u32 \<Rightarrow> u8 list \<Rightarrow> writer option" where
  "build_http_response buf client_ip_host m = do {
     (body, body_len) \<leftarrow> write_hello_ip 0 client_ip_host (replicate 32 0);
     w \<leftarrow> emits buf (bytes response_head) (m, 0);
     w \<leftarrow> advance (\<lambda>b. write_decimal_size b body_len) buf w;
     w \<leftarrow> emits buf (bytes (CRLF @ CRLF)) w;
     emits buf (take body_len body) w }"

section \<open>The sender\<close>

text \<open>
  The frame is built in the reply buffer; \<open>payload\<close> is the memory behind the payload pointer. The result is
  the reply buffer and the length given to \<^verbatim>\<open>netdev_transmit\<close>.
\<close>

definition send_tcp_packet ::
  "arch \<Rightarrow> u8 list \<Rightarrow> u8 list \<Rightarrow> u8 list \<Rightarrow> u32 \<Rightarrow> u32 \<Rightarrow> u16 \<Rightarrow> u16 \<Rightarrow> u32 \<Rightarrow> u32 \<Rightarrow> u8 \<Rightarrow> u16 \<Rightarrow> u8 list \<Rightarrow> u16 \<Rightarrow>
   (u8 list \<times> nat) option" where
  "send_tcp_packet a reply our_mac their_mac src_ip_net dst_ip_net src_port dst_port sq ack flags window payload payload_len = do {
     m \<leftarrow> copy2 reply 0 their_mac 6 our_mac 6;
     m \<leftarrow> write_htons_unaligned m 12 ETH_P_IP;
     m \<leftarrow> ipv4_build_header a m 14 src_ip_net dst_ip_net IPPROTO_TCP (20 + payload_len) 64;
     m \<leftarrow> memcpy m 54 payload (unat payload_len);
     m \<leftarrow> tcp_build_header a m 34 src_port dst_port sq ack flags window src_ip_net dst_ip_net payload_len;
     Some (m, 54 + unat payload_len) }"

section \<open>One frame\<close>

record http_state =
  isn_counter :: u32
  reply_buffer :: "u8 list"
  sent :: "u8 list list"
  http_out :: string

definition transmit :: "u8 list \<times> nat \<Rightarrow> http_state \<Rightarrow> http_state" where
  "transmit p st = st\<lparr>reply_buffer := fst p, sent := sent st @ [take (snd p) (fst p)]\<rparr>"

definition print_out :: "string \<Rightarrow> http_state \<Rightarrow> http_state" where
  "print_out s st = st\<lparr>http_out := http_out st @ s\<rparr>"

definition http_arp :: "arch \<Rightarrow> log_tag option \<Rightarrow> u8 list \<Rightarrow> u8 list \<Rightarrow> http_state \<Rightarrow> http_state option" where
  "http_arp a tag mac buffer st = do {
     opcode \<leftarrow> ntohs_unaligned (drop 20 buffer);
     (if opcode = ARP_OP_REQUEST then do {
        target_ip \<leftarrow> ntohl_unaligned (drop 38 buffer);
        sender_ip \<leftarrow> ntohl_unaligned (drop 28 buffer);
        reply \<leftarrow> arp_build_reply a (reply_buffer st) mac target_ip (drop 22 buffer) sender_ip;
        Some (print_out (log_debug tag (''Sent ARP reply'' @ [CHR 0x0A])) (transmit (reply, ARP_PACKET_SIZE) st)) }
      else Some st) }"

record tcp_request =
  rq_src_port :: u16
  rq_seq :: u32
  rq_ack :: u32
  rq_flags :: u8
  rq_payload_len :: u16
  rq_src_ip :: u32
  rq_dst_ip :: u32

definition http_send :: "arch \<Rightarrow> u8 list \<Rightarrow> u8 list \<Rightarrow> tcp_request \<Rightarrow> u32 \<Rightarrow> u32 \<Rightarrow> u8 \<Rightarrow> u8 list \<Rightarrow> u16 \<Rightarrow> http_state \<Rightarrow> http_state option" where
  "http_send a mac buffer rq sq ack flags payload payload_len st = do {
     p \<leftarrow> send_tcp_packet a (reply_buffer st) mac (drop 6 buffer) (rq_dst_ip rq) (rq_src_ip rq) HTTP_HELLO_PORT (rq_src_port rq)
            sq ack flags 65535 payload payload_len;
     Some (transmit p st) }"

definition http_syn :: "arch \<Rightarrow> log_tag option \<Rightarrow> u8 list \<Rightarrow> u8 list \<Rightarrow> tcp_request \<Rightarrow> http_state \<Rightarrow> http_state option" where
  "http_syn a tag mac buffer rq st =
     (if rq_flags rq AND TCP_FLAG_SYN \<noteq> 0 then
        (let st = print_out (log_debug tag (''SYN received'' @ [CHR 0x0A])) st;
             our_isn = isn_counter st;
             st = st\<lparr>isn_counter := isn_counter st + 1\<rparr> in do {
         st \<leftarrow> http_send a mac buffer rq our_isn (rq_seq rq + 1) (TCP_FLAG_SYN OR TCP_FLAG_ACK) [] 0 st;
         Some (print_out (log_debug tag (''Sent SYN+ACK'' @ [CHR 0x0A])) st) })
      else Some st)"

definition http_data :: "arch \<Rightarrow> log_tag option \<Rightarrow> u8 list \<Rightarrow> u8 list \<Rightarrow> tcp_request \<Rightarrow> http_state \<Rightarrow> http_state option" where
  "http_data a tag mac buffer rq st =
     (if rq_payload_len rq > 0 then
        (let st = print_out (log_debug tag (''HTTP request received, sending response'' @ [CHR 0x0A])) st in do {
         client_ip \<leftarrow> ntohl_unaligned (drop 26 buffer);
         (http_buf, http_len) \<leftarrow> build_http_response 0 client_ip (replicate 192 0);
         st \<leftarrow> http_send a mac buffer rq (rq_ack rq) (rq_seq rq + ucast (rq_payload_len rq)) (TCP_FLAG_PSH OR TCP_FLAG_ACK)
                http_buf (word_of_nat http_len) st;
         Some (print_out (log_debug tag (''HTTP response sent'' @ [CHR 0x0A])) st) })
      else Some st)"

definition http_fin :: "arch \<Rightarrow> u8 list \<Rightarrow> u8 list \<Rightarrow> tcp_request \<Rightarrow> http_state \<Rightarrow> http_state option" where
  "http_fin a mac buffer rq st =
     (if rq_flags rq AND TCP_FLAG_FIN \<noteq> 0 \<and> rq_flags rq AND TCP_FLAG_SYN = 0 then
        http_send a mac buffer rq (rq_ack rq) (rq_seq rq + 1) TCP_FLAG_ACK [] 0 st
      else Some st)"

definition http_tcp :: "arch \<Rightarrow> log_tag option \<Rightarrow> u8 list \<Rightarrow> u8 list \<Rightarrow> tcp_request \<Rightarrow> http_state \<Rightarrow> http_state option" where
  "http_tcp a tag mac buffer rq st = do {
     st \<leftarrow> http_syn a tag mac buffer rq st;
     st \<leftarrow> http_data a tag mac buffer rq st;
     http_fin a mac buffer rq st }"

text \<open>
  The body of the receive loop after a successful \<^verbatim>\<open>netdev_receive\<close>; \<open>dev_tag\<close> is what \<^verbatim>\<open>resource_print_tag\<close> prints.
\<close>

definition http_frame ::
  "arch \<Rightarrow> log_tag option \<Rightarrow> string option \<Rightarrow> u8 list \<Rightarrow> u8 list \<Rightarrow> u64 \<Rightarrow> http_state \<Rightarrow> http_state option" where
  "http_frame a tag dev_tag mac buffer received_length st =
     (if received_length < 14 then Some st
      else do {
        eth_type \<leftarrow> ntohs_unaligned (drop 12 buffer);
        (if eth_type = ETH_P_ARP then http_arp a tag mac buffer st
         else if eth_type \<noteq> ETH_P_IP then Some st
         else if received_length < 54 then Some st
         else do {
           protocol \<leftarrow> rd8 buffer 23;
           (if protocol \<noteq> IPPROTO_TCP then Some st
            else do {
              dst_port \<leftarrow> ntohs_unaligned (drop 36 buffer);
              (if dst_port \<noteq> HTTP_HELLO_PORT then Some st
               else do {
                 src_port \<leftarrow> ntohs_unaligned (drop 34 buffer);
                 their_seq \<leftarrow> ntohl_unaligned (drop 38 buffer);
                 their_ack \<leftarrow> ntohl_unaligned (drop 42 buffer);
                 flags \<leftarrow> rd8 buffer 47;
                 off \<leftarrow> rd8 buffer 46;
                 ip_total_len \<leftarrow> ntohs_unaligned (drop 16 buffer);
                 src_ip \<leftarrow> ld32 buffer 26;
                 dst_ip \<leftarrow> ld32 buffer 30;
                 (let data_offset = drop_bit 4 off * 4;
                      rq = \<lparr>rq_src_port = src_port, rq_seq = their_seq, rq_ack = their_ack, rq_flags = flags,
                            rq_payload_len = ip_total_len - 20 - ucast data_offset, rq_src_ip = src_ip, rq_dst_ip = dst_ip\<rparr> in do {
                 s \<leftarrow> (if log_enabled tag LOG_DEBUG then ethernet_print a (Some buffer) received_length dev_tag 0 else Some []);
                 http_tcp a tag mac buffer rq (print_out s st) }) }) }) }) })"

text \<open>
  The receive loop over what \<^verbatim>\<open>netdev_receive\<close> returns in successive iterations: its result, the received
  length and the contents of the buffer.
\<close>

fun http_loop ::
  "arch \<Rightarrow> log_tag option \<Rightarrow> string option \<Rightarrow> u8 list \<Rightarrow> (int \<times> u64 \<times> u8 list) list \<Rightarrow> http_state \<Rightarrow> http_state option" where
  "http_loop a tag dev_tag mac [] st = Some st"
| "http_loop a tag dev_tag mac ((result, received_length, buffer) # rest) st =
     (if result \<noteq> 0 \<or> received_length = 0 then http_loop a tag dev_tag mac rest st
      else do {
        st \<leftarrow> http_frame a tag dev_tag mac buffer received_length st;
        http_loop a tag dev_tag mac rest st })"

section \<open>The text of the response\<close>

lemma emits_append: "emits buf (xs @ ys) w = Option.bind (emits buf xs w) (emits buf ys)"
proof (induction xs arbitrary: w)
  case (Cons c xs)
  then show ?case
    by (cases "emit buf c w") simp_all
qed simp

lemma bind_emits_Nil [simp]: "Option.bind x (emits buf []) = x"
  by (cases x) simp_all

lemma emit_emits: "emit buf c w = emits buf [c] w"
  by simp

lemma emits_bind: "emits buf (xs @ ys) = (\<lambda>w. Option.bind (emits buf xs w) (emits buf ys))"
  by (rule ext) (rule emits_append)

lemma emits_shift: "emits buf bs (m, k + len) = map_option (\<lambda>(m, n). (m, k + n)) (emits (buf + k) bs (m, len))"
proof (induction bs arbitrary: m len)
  case (Cons c cs)
  have "emits buf cs (a, k + (len + 1)) = map_option (\<lambda>(m, n). (m, k + n)) (emits (buf + k) cs (a, len + 1))" for a
    by (rule Cons.IH)
  then show ?case
    by (cases "st8 m (buf + k + len) c") (simp_all add: emit_def add.assoc)
qed simp

lemma advance_emits: "(\<And>b m. f b m = emits b bs (m, 0)) \<Longrightarrow> advance f buf w = emits buf bs w"
  using emits_shift [of buf bs "fst w" "snd w" 0]
  by (cases w) (auto simp: advance_def map_option_case split: option.splits bind_splits)

lemma emits_put:
  "buf + len \<le> length m \<Longrightarrow> emits buf bs (m, len) = map_option (\<lambda>m'. (m', len + length bs)) (put m (buf + len) bs)"
proof (induction bs arbitrary: m len)
  case (Cons c cs)
  show ?case
  proof (cases "put m (buf + len) [c]")
    case None
    then show ?thesis
      using put_None_iff [of m "buf + len" "c # cs"] put_None_iff [of m "buf + len" "[c]"]
      by (simp add: emit_def st8_eq_put)
  next
    case (Some m')
    then have "buf + (len + 1) \<le> length m'"
      using put_length [OF Some] put_None_iff [of m "buf + len" "[c]"] by simp
    moreover have "put m (buf + len) (c # cs) = put m' (buf + (len + 1)) cs"
      using put_chain_end [of "buf + (len + 1)" "buf + len" "[c]" m cs] Some by simp
    ultimately show ?thesis
      using Cons.IH [of "len + 1" m'] Some by (simp add: emit_def st8_eq_put)
  qed
qed (simp add: put_Nil)

lemma byte_digit: "d < 10 \<Longrightarrow> (of_char (digit d) :: u8) = 0x30 + word_of_nat d"
proof -
  assume "d < 10"
  have "(of_char c :: u8) = word_of_nat (of_char c)" for c
    by (cases c) (simp add: of_char_def)
  then have "(of_char (digit d) :: u8) = word_of_nat (of_char (digit d))" .
  also have "of_char (digit d) = 48 + d"
    using \<open>d < 10\<close> by (simp add: digit_def of_char_of)
  finally show ?thesis
    by simp
qed

lemma write_decimal_u8_emits: "write_decimal_u8 buf v m = emits buf (bytes (decimal (unat v))) (m, 0)"
proof -
  let ?n = "unat v"
  have word_nat: "word_of_nat (unat x) = x" for x :: u8
    by simp
  have d: "(of_char (digit (unat x)) :: u8) = 0x30 + x" if "unat x < 10" for x :: u8
    using byte_digit [OF that] by simp
  have lt: "?n < 256"
    by (rule unat_lt8)
  have u: "unat (v div 100) = ?n div 100" "unat (v mod 100) = ?n mod 100" "unat (v mod 100 div 10) = ?n mod 100 div 10"
    "unat (v mod 100 mod 10) = ?n mod 10" "unat (v div 10) = ?n div 10" "unat (v mod 10) = ?n mod 10"
    by (simp_all add: unat_div unat_mod mod_mod_cancel)
  consider "100 \<le> ?n" | "10 \<le> ?n" "?n < 100" | "?n < 10"
    by linarith
  then show ?thesis
  proof cases
    case 1
    then have "decimal ?n = [digit (unat (v div 100)), digit (unat (v mod 100 div 10)), digit (unat (v mod 100 mod 10))]"
      using lt print_u8 [of v] by (simp add: net_print_decimal_u8_def Let_def u mod_mod_cancel)
    moreover have "unat (v div 100) < 10" "unat (v mod 100 div 10) < 10" "unat (v mod 100 mod 10) < 10"
      using lt by (simp_all add: u)
    ultimately show ?thesis
      using 1 by (simp add: write_decimal_u8_def word_le_nat_alt bytes_def d Let_def) (simp add: emits.simps(2) [abs_def])
  next
    case 2
    then have "decimal ?n = [digit (unat (v div 10)), digit (unat (v mod 10))]"
      using print_u8 [of v] by (simp add: net_print_decimal_u8_def Let_def u)
    moreover have "unat (v div 10) < 10" "unat (v mod 10) < 10"
      using 2 by (simp_all add: u)
    ultimately show ?thesis
      using 2 by (simp add: write_decimal_u8_def word_le_nat_alt bytes_def d) (simp add: emits.simps(2) [abs_def])
  next
    case 3
    then have "decimal ?n = [digit ?n]"
      by (simp add: decimal.simps [of ?n])
    then show ?thesis
      using 3 by (simp add: write_decimal_u8_def word_le_nat_alt bytes_def d)
  qed
qed

lemma bytes_append: "bytes (s @ t) = bytes s @ bytes t"
  by (simp add: bytes_def)

lemma length_bytes [simp]: "length (bytes s) = length s"
  by (simp add: bytes_def)

definition hello_body :: "u32 \<Rightarrow> string" where
  "hello_body ip = ''Hello, '' @ net_print_ip ip @ [CHR 0x0A]"

definition http_text :: "u32 \<Rightarrow> string" where
  "http_text ip = response_head @ decimal (length (hello_body ip)) @ CRLF @ CRLF @ hello_body ip"

lemma write_hello_ip_emits: "write_hello_ip buf ip m = emits buf (bytes (hello_body ip)) (m, 0)"
proof -
  have adv: "advance (\<lambda>b. write_decimal_u8 b v) buf w = emits buf (bytes (decimal (unat v))) w" for v w
    by (rule advance_emits) (rule write_decimal_u8_emits)
  have "[of_char CHR ''.''] = bytes ''.''" "[0x0A] = bytes [CHR 0x0A]"
    by (simp_all add: bytes_def)
  then show ?thesis
    unfolding write_hello_ip_def hello_body_def net_print_ip_def print_u8 adv
    by (simp only: emit_emits [abs_def] emits_bind bytes_append bind_assoc append_assoc)
qed

lemma hello_body_length: "15 \<le> length (hello_body ip)" "length (hello_body ip) \<le> 23"
proof -
  have "1 \<le> length (decimal (unat v)) \<and> length (decimal (unat v)) \<le> 3" for v :: u8
    using unat_lt8 [of v] length_decimal [of 3 "unat v"] by (simp add: decimal.simps [of "unat v"] Suc_le_eq)
  note b = this [of "ucast (drop_bit 24 ip AND 0xFF)"] this [of "ucast (drop_bit 16 ip AND 0xFF)"]
    this [of "ucast (drop_bit 8 ip AND 0xFF)"] this [of "ucast (ip AND 0xFF)"]
  show "15 \<le> length (hello_body ip)" "length (hello_body ip) \<le> 23"
    using b by (simp_all add: hello_body_def net_print_ip_def print_u8)
qed

lemma write_decimal_size_emits:
  assumes "n < 10000"
  shows "write_decimal_size buf n m = emits buf (bytes (decimal n)) (m, 0)"
proof (cases "n = 0")
  case True
  then show ?thesis
    by (simp add: write_decimal_size_def decimal.simps [of 0] bytes_def)
next
  case False
  then have "decimal_loop 4 [] n = Some (decimal n)"
    using assms length_decimal [of 4 n] by (simp add: decimal_loop_eq)
  then show ?thesis
    using False by (simp add: write_decimal_size_def)
qed

lemma build_http_response_emits: "build_http_response buf ip m = emits buf (bytes (http_text ip)) (m, 0)"
proof -
  let ?body = "bytes (hello_body ip)"
  have "length ?body \<le> 32"
    using hello_body_length [of ip] by simp
  then obtain b where b: "put (replicate 32 0) 0 ?body = Some b"
    using put_total [of 0 ?body "replicate 32 0"] by auto
  have body: "write_hello_ip 0 ip (replicate 32 0) = Some (b, length ?body)" "take (length ?body) b = ?body"
    using b emits_put [of 0 0 "replicate 32 0" ?body] drop_put [OF b] by (simp_all add: write_hello_ip_emits)
  have adv: "advance (\<lambda>b. write_decimal_size b (length ?body)) buf w = emits buf (bytes (decimal (length ?body))) w" for w
    using hello_body_length [of ip] by (intro advance_emits write_decimal_size_emits) simp
  have "build_http_response buf ip m = Option.bind (emits buf (bytes response_head) (m, 0)) (\<lambda>w.
      Option.bind (emits buf (bytes (decimal (length ?body))) w) (\<lambda>w. Option.bind (emits buf (bytes (CRLF @ CRLF)) w) (emits buf ?body)))"
    unfolding build_http_response_def body(1) Option.bind.simps prod.case adv body(2) ..
  then show ?thesis
    by (simp only: http_text_def bytes_append emits_bind bind_assoc append_assoc length_bytes)
qed

lemma http_text_length: "length (http_text ip) \<le> 112"
  using hello_body_length [of ip] length_decimal [of 2 "length (hello_body ip)"]
  by (simp add: http_text_def response_head_def CRLF_def)


section \<open>The frames\<close>

text \<open>A frame carries a TCP segment when the decoders read it back and both checksums are right.\<close>

definition carries_tcp ::
  "arch \<Rightarrow> u8 list \<Rightarrow> u8 list \<Rightarrow> u8 list \<Rightarrow> u32 \<Rightarrow> u32 \<Rightarrow> u16 \<Rightarrow> u16 \<Rightarrow> u32 \<Rightarrow> u32 \<Rightarrow> u8 \<Rightarrow> u8 list \<Rightarrow> bool" where
  "carries_tcp a frame dst_mac src_mac src_ip dst_ip src_port dst_port sq ack flags payload \<longleftrightarrow>
     eth_read frame = Some \<lparr>eth_dst = dst_mac, eth_src = src_mac, eth_type = ETH_P_IP\<rparr> \<and>
     ipv4_read (drop 14 frame) = Some \<lparr>ip_version_ihl = 0x45, ip_tos = 0, ip_total_length = 40 + word_of_nat (length payload),
       ip_identification = 1, ip_flags_fragment = 0, ip_ttl = 64, ip_protocol = IPPROTO_TCP, ip_src_ip = src_ip,
       ip_dst_ip = dst_ip\<rparr> \<and>
     ipv4_verify_checksum a (drop 14 frame) = Some True \<and>
     tcp_read (drop 34 frame) = Some \<lparr>tcp_src_port = src_port, tcp_dst_port = dst_port, tcp_seq_num = sq, tcp_ack_num = ack,
       tcp_data_offset = 0x50, tcp_flags = flags, tcp_window = 65535\<rparr> \<and>
     tcp_checksum a src_ip dst_ip (drop 34 frame) (20 + word_of_nat (length payload)) = Some 0 \<and>
     drop 54 frame = payload"

lemma word16_prefix: "2 * k + 2 \<le> n \<Longrightarrow> word16 (take n p) (2 * k) = word16 p (2 * k)"
  by (simp add: word16_def)

lemma ipv4_verify_prefix:
  assumes "20 \<le> length h" and "20 \<le> n"
  shows "ipv4_verify_checksum a (take n h) = ipv4_verify_checksum a h"
proof -
  have "ipv4_word_sum (take n h) = ipv4_word_sum h"
    unfolding ipv4_word_sum_def using assms by (intro sum.cong) (simp_all add: word16_prefix)
  then show ?thesis
    using assms by (simp add: ipv4_verify_iff)
qed

lemma tcp_checksum_prefix:
  assumes "unat len \<le> n" and "unat len \<le> length seg"
  shows "tcp_checksum a src dst (take n seg) len = tcp_checksum a src dst seg len"
proof -
  have "(\<Sum>k = 0..<unat len div 2. ucast (word16 (take n seg) (2 * k)) :: u32) = (\<Sum>k = 0..<unat len div 2. ucast (word16 seg (2 * k)))"
    using assms by (intro sum.cong) (auto simp: word16_prefix)
  moreover have "odd_byte (take n seg) (unat len) = odd_byte seg (unat len)"
    using assms by (cases "unat len") (auto simp: odd_byte_def)
  ultimately have "tcp_sum a src dst (take n seg) len = tcp_sum a src dst seg len"
    using assms by (simp add: tcp_sum_eq)
  then show ?thesis
    by (simp add: tcp_checksum_def)
qed

lemma send_tcp_packet_eq:
  assumes n: "unat n \<le> length payload" and fits: "54 + unat n \<le> length reply" and small: "unat n < 65000"
    and macs: "6 \<le> length our_mac" "6 \<le> length their_mac"
  shows "\<exists>m. send_tcp_packet a reply our_mac their_mac src dst sport dport sq ack flags 65535 payload n = Some (m, 54 + unat n) \<and>
    length m = length reply \<and>
    carries_tcp a (take (54 + unat n) m) (take 6 their_mac) (take 6 our_mac) src dst sport dport sq ack flags (take (unat n) payload)"
proof -
  let ?E = "take 6 their_mac @ take 6 our_mac @ be16 ETH_P_IP"
  have lE: "length ?E = 14"
    using macs by simp
  obtain m1 where m1: "put reply 0 ?E = Some m1"
    using put_total [of 0 ?E reply] fits lE by auto
  have e1: "Option.bind (copy2 reply 0 their_mac 6 our_mac 6) (\<lambda>m. write_htons_unaligned m 12 ETH_P_IP) = Some m1"
    using macs fits m1 unfolding mem_defs by (simp add: copy2_eq_put put_chain)
  obtain ick m2 where ip: "ipv4_build_header a m1 14 src dst IPPROTO_TCP (20 + n) 64 = Some m2"
    and m2: "put m1 14 (ipv4_image (20 + (20 + n)) 64 IPPROTO_TCP ick src dst) = Some m2"
    and v2: "ipv4_verify_checksum a (drop 14 m2) = Some True"
    using ipv4_build_header_eq [of 14 m1 a src dst IPPROTO_TCP "20 + n" 64] fits put_length [OF m1] by auto
  obtain m3 where m3: "put m2 54 (take (unat n) payload) = Some m3"
    using put_total [of 54 "take (unat n) payload" m2] fits put_length [OF m1] put_length [OF m2] n by auto
  have cp: "memcpy m2 54 payload (unat n) = Some m3"
    using m3 n fits put_length [OF m1] put_length [OF m2] by (simp add: memcpy_eq_put)
  obtain tck m4 where tcp: "tcp_build_header a m3 34 sport dport sq ack flags 65535 src dst n = Some m4"
    and m4: "put m3 34 (tcp_image sport dport sq ack flags 65535 tck) = Some m4"
    and v4: "tcp_checksum a src dst (drop 34 m4) (20 + n) = Some 0"
    using tcp_build_header_eq [of 34 n m3 a sport dport sq ack flags 65535 src dst] small fits
      put_length [OF m1] put_length [OF m2] put_length [OF m3] by auto
  let ?I = "ipv4_image (40 + n) 64 IPPROTO_TCP ick src dst" and ?T = "tcp_image sport dport sq ack flags 65535 tck"
    and ?P = "take (unat n) payload"
  have lP: "length ?P = unat n" and wn: "word_of_nat (length ?P) = n"
    using n by simp_all
  have I: "ipv4_image (20 + (20 + n)) 64 IPPROTO_TCP ick src dst = ?I"
    by (simp add: add.assoc [symmetric])
  have "Option.bind (put m2 34 ?T) (\<lambda>m. put m 54 ?P) = Some m4"
    using put_commute [of 34 ?T 54 ?P m2] m3 m4 by simp
  then have m4': "put reply 0 (?E @ ?I @ ?T @ ?P) = Some m4"
    using put_chain_end [of 14 0 ?E reply "?I @ ?T @ ?P"] put_chain_end [of 34 14 ?I m1 "?T @ ?P"]
      put_chain_end [of 54 34 ?T m2 ?P] m1 m2 lE by (simp add: I)
  have frame: "take (54 + unat n) m4 = ?E @ ?I @ ?T @ ?P"
    using drop_put [OF m4'] lE lP by simp
  have d14: "drop 14 (?E @ ?I @ ?T @ ?P) = ?I @ ?T @ ?P" and d34: "drop 34 (?E @ ?I @ ?T @ ?P) = ?T @ ?P"
    and d54: "drop 54 (?E @ ?I @ ?T @ ?P) = ?P"
    using macs by simp_all
  have "ipv4_verify_checksum a (?I @ drop 34 m1) = Some True"
    using v2 drop_put [OF m2] by (simp add: I)
  then have v2': "ipv4_verify_checksum a (?I @ ?T @ ?P) = Some True"
    using ipv4_verify_prefix [of "?I @ drop 34 m1" 20 a] ipv4_verify_prefix [of "?I @ ?T @ ?P" 20 a] by simp
  have un: "unat (20 + n) = 20 + unat n"
    using small by (simp add: unat_word_ariths)
  have "take (20 + unat n) (drop 34 m4) = ?T @ ?P"
    using drop_take [of 34 "54 + unat n" m4] unfolding frame d34 by simp
  then have v4': "tcp_checksum a src dst (?T @ ?P) (20 + n) = Some 0"
    using tcp_checksum_prefix [of "20 + n" "20 + unat n" "drop 34 m4" a src dst] v4 un fits put_length [OF m4'] by simp
  have eth: "eth_read (?E @ ?I @ ?T @ ?P) = Some \<lparr>eth_dst = take 6 their_mac, eth_src = take 6 our_mac, eth_type = ETH_P_IP\<rparr>"
    using macs by (simp add: eth_read_def get_def be16f.rd_enc)
  have "carries_tcp a (take (54 + unat n) m4) (take 6 their_mac) (take 6 our_mac) src dst sport dport sq ack flags ?P"
    unfolding carries_tcp_def frame d14 d34 d54 wn using eth v2' v4' by (simp add: ipv4_image_read tcp_image_read)
  moreover have "send_tcp_packet a reply our_mac their_mac src dst sport dport sq ack flags 65535 payload n = Some (m4, 54 + unat n)"
    using e1 unfolding send_tcp_packet_def by (cases "copy2 reply 0 their_mac 6 our_mac 6") (simp_all add: ip cp tcp)
  ultimately show ?thesis
    using put_length [OF m4'] by blast
qed

section \<open>What the server answers\<close>

text \<open>
  The specification of one received frame, from its decoded headers: an ARP request is answered in the name of
  the requested address; a TCP segment to port 80 is answered by up to three segments.
\<close>

datatype reply = Arp_Reply arp_hdr | Tcp_Reply u32 u32 u8 "u8 list"

definition to_server :: "u8 list \<Rightarrow> u64 \<Rightarrow> bool" where
  "to_server buffer len \<longleftrightarrow> 54 \<le> len \<and> ntohs_unaligned (drop 12 buffer) = Some ETH_P_IP \<and>
     rd8 buffer 23 = Some IPPROTO_TCP \<and> ntohs_unaligned (drop 36 buffer) = Some HTTP_HELLO_PORT"

definition arp_request :: "u8 list \<Rightarrow> u64 \<Rightarrow> bool" where
  "arp_request buffer len \<longleftrightarrow> 14 \<le> len \<and> ntohs_unaligned (drop 12 buffer) = Some ETH_P_ARP \<and>
     ntohs_unaligned (drop 20 buffer) = Some ARP_OP_REQUEST"

definition is_reply :: "arch \<Rightarrow> u8 list \<Rightarrow> u8 list \<Rightarrow> ipv4_hdr \<Rightarrow> tcp_hdr \<Rightarrow> reply \<Rightarrow> u8 list \<Rightarrow> bool" where
  "is_reply a mac buffer i t r frame = (case r of
     Arp_Reply msg \<Rightarrow> carries_arp a frame (arp_target_mac msg) msg
   | Tcp_Reply sq ack flags payload \<Rightarrow>
       carries_tcp a frame (take 6 (drop 6 buffer)) (take 6 mac) (ip_dst_ip i) (ip_src_ip i) HTTP_HELLO_PORT (tcp_src_port t)
         sq ack flags payload)"

definition http_ok :: "http_state \<Rightarrow> bool" where
  "http_ok st \<longleftrightarrow> length (reply_buffer st) = HTTP_HELLO_BUFFER_SIZE"

lemma print_out_sel [simp]:
  "sent (print_out s st) = sent st" "isn_counter (print_out s st) = isn_counter st" "reply_buffer (print_out s st) = reply_buffer st"
  "http_ok (print_out s st) = http_ok st"
  by (simp_all add: print_out_def http_ok_def)

definition request_of :: "ipv4_hdr \<Rightarrow> tcp_hdr \<Rightarrow> tcp_request" where
  "request_of i t = \<lparr>rq_src_port = tcp_src_port t, rq_seq = tcp_seq_num t, rq_ack = tcp_ack_num t, rq_flags = tcp_flags t,
     rq_payload_len = ip_total_length i - 20 - ucast (drop_bit 4 (tcp_data_offset t) * 4), rq_src_ip = ip_src_ip i, rq_dst_ip = ip_dst_ip i\<rparr>"

lemma request_sel [simp]:
  "rq_src_port (request_of i t) = tcp_src_port t" "rq_seq (request_of i t) = tcp_seq_num t" "rq_ack (request_of i t) = tcp_ack_num t"
  "rq_flags (request_of i t) = tcp_flags t" "rq_src_ip (request_of i t) = ip_src_ip i" "rq_dst_ip (request_of i t) = ip_dst_ip i"
  by (simp_all add: request_of_def)

text \<open>\<open>answered\<close>: the state after sending exactly the replies \<open>rs\<close>, in order.\<close>

definition answered ::
  "arch \<Rightarrow> u8 list \<Rightarrow> u8 list \<Rightarrow> ipv4_hdr \<Rightarrow> tcp_hdr \<Rightarrow> reply list \<Rightarrow> u32 \<Rightarrow> http_state \<Rightarrow> http_state option \<Rightarrow> bool" where
  "answered a mac buffer i t rs isn st res \<longleftrightarrow> (\<exists>st' frames. res = Some st' \<and> http_ok st' \<and> isn_counter st' = isn \<and>
     sent st' = sent st @ frames \<and> list_all2 (is_reply a mac buffer i t) rs frames)"

lemma answered_none: "http_ok st \<Longrightarrow> answered a mac buffer i t [] (isn_counter st) st (Some st)"
  by (simp add: answered_def)

lemma answered_bind:
  assumes "answered a mac buffer i t rs isn st m"
    and "\<And>st'. http_ok st' \<Longrightarrow> isn_counter st' = isn \<Longrightarrow> answered a mac buffer i t rs' isn' st' (f st')"
  shows "answered a mac buffer i t (rs @ rs') isn' st (Option.bind m f)"
proof -
  obtain st1 fs1 where 1: "m = Some st1" "http_ok st1" "isn_counter st1 = isn" "sent st1 = sent st @ fs1"
    "list_all2 (is_reply a mac buffer i t) rs fs1"
    using assms(1) by (auto simp: answered_def)
  obtain st2 fs2 where 2: "f st1 = Some st2" "http_ok st2" "isn_counter st2 = isn'" "sent st2 = sent st1 @ fs2"
    "list_all2 (is_reply a mac buffer i t) rs' fs2"
    using assms(2) [OF 1(2,3)] by (auto simp: answered_def)
  show ?thesis
    unfolding answered_def using 1 2 list_all2_appendI [OF 1(5) 2(5)]
    by (intro exI [of _ st2] exI [of _ "fs1 @ fs2"]) simp
qed

lemma answered_print:
  "answered a mac buffer i t rs isn st res \<Longrightarrow>
   answered a mac buffer i t rs isn st (Option.bind res (\<lambda>st. Some (print_out s st)))"
  by (auto simp: answered_def)

lemma http_send_eq:
  assumes ok: "http_ok st" and buf: "12 \<le> length buffer" and mac: "6 \<le> length mac"
    and n: "unat n \<le> length payload" "unat n \<le> 1994"
  shows "answered a mac buffer i t [Tcp_Reply sq ack flags (take (unat n) payload)] (isn_counter st) st
    (http_send a mac buffer (request_of i t) sq ack flags payload n st)"
proof -
  let ?rq = "request_of i t"
  have "\<exists>m. send_tcp_packet a (reply_buffer st) mac (drop 6 buffer) (rq_dst_ip ?rq) (rq_src_ip ?rq) HTTP_HELLO_PORT (rq_src_port ?rq)
      sq ack flags 65535 payload n = Some (m, 54 + unat n) \<and> length m = length (reply_buffer st) \<and>
    carries_tcp a (take (54 + unat n) m) (take 6 (drop 6 buffer)) (take 6 mac) (rq_dst_ip ?rq) (rq_src_ip ?rq) HTTP_HELLO_PORT
      (rq_src_port ?rq) sq ack flags (take (unat n) payload)"
    using ok buf mac n by (intro send_tcp_packet_eq) (simp_all add: http_ok_def HTTP_HELLO_BUFFER_SIZE_def)
  then show ?thesis
    using ok by (auto simp: http_send_def transmit_def http_ok_def is_reply_def answered_def)
qed

lemma build_http_response_eq:
  "\<exists>b. build_http_response 0 ip (replicate 192 0) = Some (b, length (http_text ip)) \<and>
    length b = 192 \<and> take (length (http_text ip)) b = bytes (http_text ip)"
proof -
  let ?t = "bytes (http_text ip)"
  obtain b where b: "put (replicate 192 0) 0 ?t = Some b"
    using put_total [of 0 ?t "replicate 192 0"] http_text_length [of ip] by auto
  then show ?thesis
    using emits_put [of 0 0 "replicate 192 0" ?t] drop_put [OF b] put_length [OF b] by (simp add: build_http_response_emits)
qed

definition syn_replies :: "u32 \<Rightarrow> tcp_hdr \<Rightarrow> reply list" where
  "syn_replies isn t = (if tcp_flags t AND TCP_FLAG_SYN \<noteq> 0
     then [Tcp_Reply isn (tcp_seq_num t + 1) (TCP_FLAG_SYN OR TCP_FLAG_ACK) []] else [])"

definition data_replies :: "u32 \<Rightarrow> u16 \<Rightarrow> tcp_hdr \<Rightarrow> reply list" where
  "data_replies client payload_len t = (if payload_len > 0
     then [Tcp_Reply (tcp_ack_num t) (tcp_seq_num t + ucast payload_len) (TCP_FLAG_PSH OR TCP_FLAG_ACK)
       (bytes (http_text client))] else [])"

definition fin_replies :: "tcp_hdr \<Rightarrow> reply list" where
  "fin_replies t = (if tcp_flags t AND TCP_FLAG_FIN \<noteq> 0 \<and> tcp_flags t AND TCP_FLAG_SYN = 0
     then [Tcp_Reply (tcp_ack_num t) (tcp_seq_num t + 1) TCP_FLAG_ACK []] else [])"

definition next_isn :: "u32 \<Rightarrow> tcp_hdr \<Rightarrow> u32" where
  "next_isn isn t = (if tcp_flags t AND TCP_FLAG_SYN \<noteq> 0 then isn + 1 else isn)"

lemma answered_start:
  "answered a mac buffer i t rs isn st0 res \<Longrightarrow> sent st0 = sent st \<Longrightarrow> answered a mac buffer i t rs isn st res"
  by (simp add: answered_def)

lemma http_syn_eq:
  assumes "http_ok st" and "12 \<le> length buffer" and "6 \<le> length mac"
  shows "answered a mac buffer i t (syn_replies (isn_counter st) t) (next_isn (isn_counter st) t) st
    (http_syn a tag mac buffer (request_of i t) st)"
proof (cases "tcp_flags t AND TCP_FLAG_SYN \<noteq> 0")
  case True
  define st0 where "st0 = (print_out (log_debug tag (''SYN received'' @ [CHR 0x0A])) st)\<lparr>isn_counter := isn_counter st + 1\<rparr>"
  have st0: "http_ok st0" "sent st0 = sent st" "isn_counter st0 = isn_counter st + 1"
    using assms(1) by (simp_all add: st0_def http_ok_def print_out_def)
  have "answered a mac buffer i t [Tcp_Reply (isn_counter st) (tcp_seq_num t + 1) (TCP_FLAG_SYN OR TCP_FLAG_ACK) []]
      (isn_counter st0) st0 (http_send a mac buffer (request_of i t) (isn_counter st) (tcp_seq_num t + 1)
        (TCP_FLAG_SYN OR TCP_FLAG_ACK) [] 0 st0)"
    using http_send_eq [OF st0(1) assms(2,3), of 0 "[]"] by simp
  from answered_start [OF answered_print [OF this] st0(2)] show ?thesis
    using True st0(3)
    by (simp add: http_syn_def syn_replies_def next_isn_def Let_def st0_def)
next
  case False
  then show ?thesis
    using answered_none [OF assms(1)] by (simp add: http_syn_def syn_replies_def next_isn_def)
qed

lemma http_data_eq:
  assumes "http_ok st" and "12 \<le> length buffer" and "6 \<le> length mac" and client: "ntohl_unaligned (drop 26 buffer) = Some client"
  shows "answered a mac buffer i t (data_replies client (rq_payload_len (request_of i t)) t) (isn_counter st) st
    (http_data a tag mac buffer (request_of i t) st)"
proof (cases "rq_payload_len (request_of i t) > 0")
  case True
  define st0 where "st0 = print_out (log_debug tag (''HTTP request received, sending response'' @ [CHR 0x0A])) st"
  have st0: "http_ok st0" "sent st0 = sent st" "isn_counter st0 = isn_counter st"
    using assms(1) by (simp_all add: st0_def)
  obtain b where b: "build_http_response 0 client (replicate 192 0) = Some (b, length (http_text client))" "length b = 192"
    "take (length (http_text client)) b = bytes (http_text client)"
    using build_http_response_eq by blast
  have n: "unat (word_of_nat (length (http_text client)) :: u16) = length (http_text client)"
    using http_text_length [of client] by (simp add: unat_of_nat take_bit_eq_mod)
  let ?ack = "tcp_seq_num t + ucast (rq_payload_len (request_of i t))"
  have "answered a mac buffer i t [Tcp_Reply (tcp_ack_num t) ?ack (TCP_FLAG_PSH OR TCP_FLAG_ACK) (bytes (http_text client))]
      (isn_counter st0) st0 (http_send a mac buffer (request_of i t) (tcp_ack_num t) ?ack
        (TCP_FLAG_PSH OR TCP_FLAG_ACK) b (word_of_nat (length (http_text client))) st0)"
    using http_send_eq [OF st0(1) assms(2,3), of "word_of_nat (length (http_text client))" b] http_text_length [of client]
    by (simp add: n b(2,3))
  from answered_start [OF answered_print [OF this] st0(2)] show ?thesis
    using True st0(3) client b(1)
    by (simp add: http_data_def data_replies_def Let_def st0_def)
next
  case False
  then show ?thesis
    using answered_none [OF assms(1)] by (simp add: http_data_def data_replies_def)
qed

lemma http_fin_eq:
  assumes "http_ok st" and "12 \<le> length buffer" and "6 \<le> length mac"
  shows "answered a mac buffer i t (fin_replies t) (isn_counter st) st (http_fin a mac buffer (request_of i t) st)"
  using http_send_eq [OF assms, of 0 "[]"] answered_none [OF assms(1)]
  by (simp add: http_fin_def fin_replies_def)

lemma http_tcp_eq:
  assumes "http_ok st" and "12 \<le> length buffer" and "6 \<le> length mac" and "ntohl_unaligned (drop 26 buffer) = Some client"
  shows "answered a mac buffer i t (syn_replies (isn_counter st) t @ data_replies client (rq_payload_len (request_of i t)) t @ fin_replies t)
    (next_isn (isn_counter st) t) st (http_tcp a tag mac buffer (request_of i t) st)"
  unfolding http_tcp_def
proof (rule answered_bind [OF http_syn_eq [OF assms(1-3)]])
  fix st1 assume 1: "http_ok st1" "isn_counter st1 = next_isn (isn_counter st) t"
  show "answered a mac buffer i t (data_replies client (rq_payload_len (request_of i t)) t @ fin_replies t)
    (next_isn (isn_counter st) t) st1
    (Option.bind (http_data a tag mac buffer (request_of i t) st1) (http_fin a mac buffer (request_of i t)))"
    by (rule answered_bind [OF http_data_eq [OF 1(1) assms(2-4)]]) (use http_fin_eq [OF _ assms(2,3)] 1(2) in metis)
qed


section \<open>Any received frame\<close>

definition arp_answer :: "u8 list \<Rightarrow> arp_hdr \<Rightarrow> arp_hdr" where
  "arp_answer mac h = arp_message ARP_OP_REPLY mac (arp_target_ip h) (arp_sender_mac h) (arp_sender_ip h)"

definition http_replies ::
  "u8 list \<Rightarrow> u8 list \<Rightarrow> u64 \<Rightarrow> u32 \<Rightarrow> arp_hdr \<Rightarrow> ipv4_hdr \<Rightarrow> tcp_hdr \<Rightarrow> u32 \<Rightarrow> reply list" where
  "http_replies mac buffer len isn h i t client =
     (if arp_request buffer len then [Arp_Reply (arp_answer mac h)]
      else if to_server buffer len
      then syn_replies isn t @ data_replies client (rq_payload_len (request_of i t)) t @ fin_replies t
      else [])"

text \<open>The headers as the buffer holds them: ARP and IPv4 after the Ethernet header, TCP after 20 more bytes.\<close>

definition decoded :: "arch \<Rightarrow> u8 list \<Rightarrow> arp_hdr \<Rightarrow> ipv4_hdr \<Rightarrow> tcp_hdr \<Rightarrow> u32 \<Rightarrow> bool" where
  "decoded a buffer h i t client \<longleftrightarrow> arp_read a (drop 14 buffer) = Some h \<and> ipv4_read (drop 14 buffer) = Some i \<and>
     tcp_read (drop 34 buffer) = Some t \<and> ntohl_unaligned (drop 26 buffer) = Some client"

lemma decoded_total:
  assumes "54 \<le> length buffer"
  shows "\<exists>h i t client. decoded a buffer h i t client"
proof -
  have g: "\<exists>bs. get (drop 14 buffer) k n = Some bs" if "14 + k + n \<le> length buffer" for k n
    using that by (simp add: get_def)
  have b: "\<exists>b. rd8 buffer k = Some b" if "k < length buffer" for k
    using that by (simp add: rd8_def)
  have h: "\<exists>v. ntohs_unaligned (drop k buffer) = Some v" if "k + 2 \<le> length buffer" for k
    using that by (rule be16_at_total)
  have w: "\<exists>v. ntohl_unaligned (drop k buffer) = Some v" if "k + 4 \<le> length buffer" for k
    using that by (rule Byteorder.be32_at_total)
  have l: "\<exists>v. ld32 buffer k = Some v" if "k + 4 \<le> length buffer" for k
    using that by (simp add: ld32_def rd8_def)
  have "\<exists>h. arp_read a (drop 14 buffer) = Some h"
    using h [of 14] h [of 16] h [of 20] b [of 18] b [of 19] g [of 8 6] g [of 18 6] w [of 28] w [of 38] assms
    by (auto simp: arp_read_def ntohs_at_be)
  moreover have "\<exists>i. ipv4_read (drop 14 buffer) = Some i"
    using b [of 14] b [of 15] h [of 16] h [of 18] h [of 20] b [of 22] b [of 23] l [of 26] l [of 30] assms
    by (auto simp: ipv4_read_def ld_drop)
  moreover have "\<exists>t. tcp_read (drop 34 buffer) = Some t"
    using h [of 34] h [of 36] w [of 38] w [of 42] b [of 46] b [of 47] h [of 48] assms
    by (auto simp: tcp_read_def)
  moreover have "\<exists>c. ntohl_unaligned (drop 26 buffer) = Some c"
    using w [of 26] assms by simp
  ultimately show ?thesis
    unfolding decoded_def by blast
qed

lemma arp_reply_frame:
  assumes "length packet = HTTP_HELLO_BUFFER_SIZE" and "length mac = 6" and "6 \<le> length tm"
  shows "\<exists>m. arp_build_reply a packet mac si tm ti = Some m \<and> length m = length packet \<and>
    carries_arp a (take ARP_PACKET_SIZE m) (take 6 tm) (arp_message ARP_OP_REPLY mac si (take 6 tm) ti)"
proof -
  let ?im = "arp_image (take 6 tm) ARP_OP_REPLY mac si (take 6 tm) ti"
  have len: "length ?im = 42"
    using assms by (intro length_arp_image) simp_all
  obtain m where m: "put packet 0 ?im = Some m"
    using put_total [of 0 ?im packet] len assms(1) by (auto simp: HTTP_HELLO_BUFFER_SIZE_def)
  obtain m' where m': "put (replicate 42 0) 0 ?im = Some m'" "carries_arp a m' (take 6 tm) (arp_message ARP_OP_REPLY mac si (take 6 tm) ti)"
    using arp_image_carries [of "replicate 42 0" "take 6 tm" mac "take 6 tm" ARP_OP_REPLY si ti a] assms
    by (auto simp: ARP_PACKET_SIZE_def)
  have "m' = take ARP_PACKET_SIZE m"
    using drop_put [OF m] drop_put [OF m'(1)] len by (simp add: ARP_PACKET_SIZE_def)
  moreover have "arp_build_reply a packet mac si tm ti = Some m"
    using arp_build_reply_eq [of packet mac tm a si ti] m assms by (simp add: HTTP_HELLO_BUFFER_SIZE_def)
  ultimately show ?thesis
    using m'(2) put_length [OF m] by auto
qed

lemma http_arp_eq:
  assumes ok: "http_ok st" and mac: "length mac = 6" and dec: "decoded a buffer h i t client" and buf: "54 \<le> length buffer"
  shows "answered a mac buffer i t (if ntohs_unaligned (drop 20 buffer) = Some ARP_OP_REQUEST then [Arp_Reply (arp_answer mac h)] else [])
    (isn_counter st) st (http_arp a tag mac buffer st)"
proof -
  have hdr: "arp_read a (drop 14 buffer) = Some h"
    using dec by (simp add: decoded_def)
  obtain opc where opc: "ntohs_unaligned (drop 20 buffer) = Some opc"
    using be16_at_total [of 20 buffer] buf by auto
  have ips: "ntohl_unaligned (drop 38 buffer) = Some (arp_target_ip h)" "ntohl_unaligned (drop 28 buffer) = Some (arp_sender_ip h)"
    "arp_sender_mac h = take 6 (drop 22 buffer)"
    using hdr by (auto simp: arp_read_def get_def elim!: bind_eq_SomeE split: if_splits)
  have tm: "6 \<le> length (drop 22 buffer)"
    using buf by simp
  obtain m where m: "arp_build_reply a (reply_buffer st) mac (arp_target_ip h) (drop 22 buffer) (arp_sender_ip h) = Some m"
    "length m = length (reply_buffer st)"
    "carries_arp a (take ARP_PACKET_SIZE m) (take 6 (drop 22 buffer))
      (arp_message ARP_OP_REPLY mac (arp_target_ip h) (take 6 (drop 22 buffer)) (arp_sender_ip h))"
    using arp_reply_frame [OF _ mac tm, of "reply_buffer st" a "arp_target_ip h" "arp_sender_ip h"] ok
    by (auto simp: http_ok_def)
  have "answered a mac buffer i t [Arp_Reply (arp_answer mac h)] (isn_counter st) st (Some (transmit (m, ARP_PACKET_SIZE) st))"
    using ok m(2,3) by (simp add: answered_def transmit_def http_ok_def is_reply_def arp_answer_def ips(3) arp_message_def)
  from answered_print [OF this] show ?thesis
    using answered_none [OF ok] by (simp add: http_arp_def opc ips(1,2) m(1))
qed

lemma http_frame_answers:
  assumes ok: "http_ok st" and mac: "length mac = 6" and buf: "length buffer = HTTP_HELLO_BUFFER_SIZE"
    and dec: "decoded a buffer h i t client" and quiet: "\<not> log_enabled tag LOG_DEBUG"
  shows "answered a mac buffer i t (http_replies mac buffer len (isn_counter st) h i t client)
    (if to_server buffer len then next_isn (isn_counter st) t else isn_counter st) st
    (http_frame a tag dev_tag mac buffer len st)"
proof -
  have long: "54 \<le> length buffer" "12 \<le> length buffer" "6 \<le> length mac"
    using buf mac by (simp_all add: HTTP_HELLO_BUFFER_SIZE_def)
  obtain ty where ty: "ntohs_unaligned (drop 12 buffer) = Some ty"
    using be16_at_total [of 12 buffer] long by auto
  have tcp: "ntohs_unaligned (drop 36 buffer) = Some (tcp_dst_port t)" "ntohs_unaligned (drop 34 buffer) = Some (tcp_src_port t)"
    "ntohl_unaligned (drop 38 buffer) = Some (tcp_seq_num t)" "ntohl_unaligned (drop 42 buffer) = Some (tcp_ack_num t)"
    "rd8 buffer 47 = Some (tcp_flags t)" "rd8 buffer 46 = Some (tcp_data_offset t)"
    using dec by (auto simp: decoded_def tcp_read_def elim!: bind_eq_SomeE)
  have ip: "rd8 buffer 23 = Some (ip_protocol i)" "ntohs_unaligned (drop 16 buffer) = Some (ip_total_length i)"
    "ld32 buffer 26 = Some (ip_src_ip i)" "ld32 buffer 30 = Some (ip_dst_ip i)"
    using dec by (auto simp: decoded_def ipv4_read_def ld_drop elim!: bind_eq_SomeE)
  have quiet_out: "print_out [] st = st"
    by (simp add: print_out_def)
  have le: "len < 54 \<longleftrightarrow> \<not> 54 \<le> len" "len < 14 \<Longrightarrow> \<not> 54 \<le> len"
    by (auto simp: not_le intro: order_less_trans)
  have "(ETH_P_ARP :: u16) \<noteq> ETH_P_IP"
    by (simp add: ETH_P_ARP_def ETH_P_IP_def)
  show ?thesis
  proof (cases "ty = ETH_P_ARP \<or> \<not> to_server buffer len")
    case True
    then show ?thesis
      using http_arp_eq [OF ok mac dec long(1), of tag] answered_none [OF ok] ty \<open>ETH_P_ARP \<noteq> ETH_P_IP\<close> le
      by (auto simp: http_frame_def http_replies_def arp_request_def to_server_def ip(1) tcp(1) not_less split: if_splits)
  next
    case False
    then have "http_frame a tag dev_tag mac buffer len st = http_tcp a tag mac buffer (request_of i t) st"
      using ty le quiet by (auto simp: http_frame_def to_server_def tcp ip request_of_def Let_def quiet_out)
    then show ?thesis
      using False http_tcp_eq [OF ok long(2,3), of client a i t tag] dec ty
      by (auto simp: http_replies_def arp_request_def decoded_def)
  qed
qed


lemma http_loop_survives:
  assumes "http_ok st" and "length mac = 6" and "\<not> log_enabled tag LOG_DEBUG"
    and "\<forall>(result, len, buffer) \<in> set rx. length buffer = HTTP_HELLO_BUFFER_SIZE"
  shows "\<exists>st' frames. http_loop a tag dev_tag mac rx st = Some st' \<and> http_ok st' \<and> sent st' = sent st @ frames"
  using assms(1,4)
proof (induction rx arbitrary: st)
  case (Cons r rx)
  obtain result len buffer where r: "r = (result, len, buffer)"
    by (cases r)
  have buf: "length buffer = HTTP_HELLO_BUFFER_SIZE"
    using Cons.prems(2) by (simp add: r)
  obtain h i t client where dec: "decoded a buffer h i t client"
    using decoded_total [of buffer a] buf by (auto simp: HTTP_HELLO_BUFFER_SIZE_def)
  obtain st1 frames where st1: "http_frame a tag dev_tag mac buffer len st = Some st1" "http_ok st1" "sent st1 = sent st @ frames"
    using http_frame_answers [OF Cons.prems(1) assms(2) buf dec assms(3), of len dev_tag] by (auto simp: answered_def)
  show ?case
    using Cons.IH [OF Cons.prems(1)] Cons.IH [OF st1(2)] Cons.prems(2) st1 by (auto simp: r)
qed simp

section \<open>Properties\<close>

text \<open>
  C18: the response fits its buffers for every client address: \<open>build_http_response\<close> fills at most 112 of the 192
  bytes with the status line, the headers and the body, and \<^verbatim>\<open>Content-Length\<close> is the length of the body in decimal.
\<close>

theorem http_response_correct:
  "\<exists>b. build_http_response 0 ip (replicate 192 0) = Some (b, length (http_text ip)) \<and>
     take (length (http_text ip)) b = bytes (response_head @ decimal (length (hello_body ip)) @ CRLF @ CRLF @ hello_body ip) \<and>
     length (http_text ip) \<le> 112 \<and> decimal_value (decimal (length (hello_body ip))) = length (hello_body ip)"
  using build_http_response_eq [of ip] http_text_length [of ip] by (auto simp: http_text_def decimal_value_decimal)

text \<open>
  C17: for every received frame, whatever its contents, the server stays in its buffers and sends exactly the
  specified replies: a valid ARP reply to an ARP request; to a TCP segment for port 80 a SYN+ACK with a fresh
  initial sequence number, the HTTP response acknowledging the payload, an acknowledgement of a FIN, as the flags
  and the payload length ask; each frame is addressed back to its sender, with both checksums right; to anything
  else nothing. (Debug logging is off: it prints the frame.)
\<close>

theorem http_frame_correct:
  assumes "http_ok st" and "length mac = 6" and "length buffer = HTTP_HELLO_BUFFER_SIZE" and "\<not> log_enabled tag LOG_DEBUG"
  shows "\<exists>h i t client st' frames. decoded a buffer h i t client \<and>
    http_frame a tag dev_tag mac buffer len st = Some st' \<and> http_ok st' \<and> sent st' = sent st @ frames \<and>
    list_all2 (is_reply a mac buffer i t) (http_replies mac buffer len (isn_counter st) h i t client) frames \<and>
    isn_counter st' = (if to_server buffer len then next_isn (isn_counter st) t else isn_counter st)"
proof -
  obtain h i t client where dec: "decoded a buffer h i t client"
    using decoded_total [of buffer a] assms(3) by (auto simp: HTTP_HELLO_BUFFER_SIZE_def)
  then show ?thesis
    using http_frame_answers [OF assms(1-3) dec assms(4), of len dev_tag] unfolding answered_def by blast
qed

text \<open>A connection request from 10.0.2.2, port 40000.\<close>

definition sample_mac :: "u8 list" where
  "sample_mac = [0x52, 0x54, 0, 0x12, 0x34, 0x56]"

definition sample_syn :: "u8 list" where
  "sample_syn = sample_mac @ [2, 0, 0, 0, 0, 1] @ be16 ETH_P_IP @ ipv4_image 40 64 IPPROTO_TCP 0 0x0202000A 0x0F02000A @
     tcp_image 40000 80 7 0 TCP_FLAG_SYN 8192 0 @ replicate 1994 0"

definition http_boot :: http_state where
  "http_boot = \<lparr>isn_counter = 1000, reply_buffer = replicate 2048 0, sent = [], http_out = []\<rparr>"

lemma sample_syn_decoded:
  assumes "decoded a sample_syn h i t client"
  shows "t = \<lparr>tcp_src_port = 40000, tcp_dst_port = 80, tcp_seq_num = 7, tcp_ack_num = 0, tcp_data_offset = 0x50,
      tcp_flags = TCP_FLAG_SYN, tcp_window = 8192\<rparr> \<and> ip_total_length i = 40 \<and> to_server sample_syn 54 \<and> \<not> arp_request sample_syn 54"
proof -
  let ?rest = "tcp_image 40000 80 7 0 TCP_FLAG_SYN 8192 0 @ replicate 1994 0"
  have d: "drop 14 sample_syn = ipv4_image 40 64 IPPROTO_TCP 0 0x0202000A 0x0F02000A @ ?rest" "drop 34 sample_syn = ?rest"
    "drop 12 sample_syn = be16 ETH_P_IP @ ipv4_image 40 64 IPPROTO_TCP 0 0x0202000A 0x0F02000A @ ?rest"
    "drop 36 sample_syn = be16 80 @ drop 4 ?rest"
    by (simp_all add: sample_syn_def sample_mac_def tcp_image_def)
  have "rd8 sample_syn 23 = Some IPPROTO_TCP"
    using rd8_drop [of 14 sample_syn 9] unfolding d by (simp add: ipv4_image_def rd8_append)
  then have "to_server sample_syn 54" and "\<not> arp_request sample_syn 54"
    by (simp_all add: to_server_def arp_request_def d be16f.rd_enc HTTP_HELLO_PORT_def ETH_P_ARP_def ETH_P_IP_def)
  then show ?thesis
    using assms by (auto simp: decoded_def d ipv4_image_read tcp_image_read)
qed

theorem http_frame_correct_witness:
  "\<exists>i t st' frame. http_frame ARM64 None None sample_mac sample_syn 54 http_boot = Some st' \<and> sent st' = [frame] \<and>
     isn_counter st' = 1001 \<and> is_reply ARM64 sample_mac sample_syn i t (Tcp_Reply 1000 8 (TCP_FLAG_SYN OR TCP_FLAG_ACK) []) frame"
proof -
  have "http_ok http_boot" "length sample_mac = 6" "length sample_syn = HTTP_HELLO_BUFFER_SIZE" "\<not> log_enabled None LOG_DEBUG"
    by (simp_all add: http_ok_def http_boot_def HTTP_HELLO_BUFFER_SIZE_def sample_mac_def sample_syn_def log_enabled_def)
  from http_frame_correct [OF this, of ARM64 None 54] obtain h i t client st' frames where
    dec: "decoded ARM64 sample_syn h i t client" and
    r: "http_frame ARM64 None None sample_mac sample_syn 54 http_boot = Some st'" "sent st' = sent http_boot @ frames"
      "list_all2 (is_reply ARM64 sample_mac sample_syn i t)
        (http_replies sample_mac sample_syn 54 (isn_counter http_boot) h i t client) frames"
      "isn_counter st' = (if to_server sample_syn 54 then next_isn (isn_counter http_boot) t else isn_counter http_boot)"
    by blast
  have "http_replies sample_mac sample_syn 54 (isn_counter http_boot) h i t client = [Tcp_Reply 1000 8 (TCP_FLAG_SYN OR TCP_FLAG_ACK) []]"
    using sample_syn_decoded [OF dec]
    by (auto simp: http_replies_def syn_replies_def data_replies_def fin_replies_def request_of_def http_boot_def
        TCP_FLAG_SYN_def TCP_FLAG_FIN_def)
  moreover have "isn_counter st' = 1001"
    using r(4) sample_syn_decoded [OF dec] by (simp add: next_isn_def http_boot_def TCP_FLAG_SYN_def)
  ultimately show ?thesis
    using r(1-3) by (auto simp: list_all2_Cons1 http_boot_def)
qed

text \<open>
  the receive loop survives every sequence of receptions, failed ones and frames of any contents included,
  and only adds frames to what was sent.
\<close>

theorem http_loop_returns:
  assumes "http_ok st" and "length mac = 6" and "\<not> log_enabled tag LOG_DEBUG"
    and "\<forall>(result, len, buffer) \<in> set rx. length buffer = HTTP_HELLO_BUFFER_SIZE"
  shows "\<exists>st' frames. http_loop a tag dev_tag mac rx st = Some st' \<and> http_ok st' \<and> sent st' = sent st @ frames"
  using assms by (rule http_loop_survives)

theorem http_loop_returns_witness:
  "\<exists>st' frames. http_loop RISCV None None sample_mac [(-1, 0, replicate 2048 0), (0, 54, sample_syn)] http_boot = Some st' \<and>
     http_ok st' \<and> sent st' = sent http_boot @ frames"
  by (rule http_loop_returns)
    (simp_all add: http_ok_def http_boot_def HTTP_HELLO_BUFFER_SIZE_def sample_mac_def sample_syn_def log_enabled_def)

end
