(* ===== verification/Hw_Bus.thy ===== *)
theory Hw_Bus
  imports Logging "HOL-Library.State_Monad"
begin

text \<open>
  The hardware as the drivers see it. What an access to a device register, a port or to memory shared with a
  device does is not code of the repository: it is a parameter, a record \<open>bus\<close> of functions on an unknown
  environment \<open>'e\<close>. Driver code is a computation in the state monad over a \<open>world\<close>: the environment, the
  console output so far and the state of the logger; a driver that keeps static variables extends the record.
  The port instructions are the inline functions of \<^verbatim>\<open>common/common.h\<close>.
\<close>

record 'e bus =
  bus_read8 :: "u64 \<Rightarrow> 'e \<Rightarrow> u8 \<times> 'e"
  bus_read16 :: "u64 \<Rightarrow> 'e \<Rightarrow> u16 \<times> 'e"
  bus_read32 :: "u64 \<Rightarrow> 'e \<Rightarrow> u32 \<times> 'e"
  bus_write8 :: "u64 \<Rightarrow> u8 \<Rightarrow> 'e \<Rightarrow> 'e"
  bus_write16 :: "u64 \<Rightarrow> u16 \<Rightarrow> 'e \<Rightarrow> 'e"
  bus_write32 :: "u64 \<Rightarrow> u32 \<Rightarrow> 'e \<Rightarrow> 'e"
  bus_write64 :: "u64 \<Rightarrow> u64 \<Rightarrow> 'e \<Rightarrow> 'e"
  port_in8 :: "u16 \<Rightarrow> 'e \<Rightarrow> u8 \<times> 'e"
  port_in16 :: "u16 \<Rightarrow> 'e \<Rightarrow> u16 \<times> 'e"
  port_in32 :: "u16 \<Rightarrow> 'e \<Rightarrow> u32 \<times> 'e"
  port_out8 :: "u16 \<Rightarrow> u8 \<Rightarrow> 'e \<Rightarrow> 'e"
  port_out16 :: "u16 \<Rightarrow> u16 \<Rightarrow> 'e \<Rightarrow> 'e"
  port_out32 :: "u16 \<Rightarrow> u32 \<Rightarrow> 'e \<Rightarrow> 'e"

record 'e world =
  env :: 'e
  console :: string
  logger :: log_state

text \<open>A bus with nothing behind it, the base of the concrete machines of the examples.\<close>

definition idle_bus :: "'e bus" where
  "idle_bus = \<lparr>bus_read8 = \<lambda>a e. (0, e), bus_read16 = \<lambda>a e. (0, e), bus_read32 = \<lambda>a e. (0, e),
     bus_write8 = \<lambda>a v e. e, bus_write16 = \<lambda>a v e. e, bus_write32 = \<lambda>a v e. e, bus_write64 = \<lambda>a v e. e,
     port_in8 = \<lambda>a e. (0, e), port_in16 = \<lambda>a e. (0, e), port_in32 = \<lambda>a e. (0, e),
     port_out8 = \<lambda>a v e. e, port_out16 = \<lambda>a v e. e, port_out32 = \<lambda>a v e. e\<rparr>"

section \<open>Accesses\<close>

definition access :: "('e \<Rightarrow> 'a \<times> 'e) \<Rightarrow> (('e, 'z) world_scheme, 'a) state" where
  "access f = State (\<lambda>w. case f (env w) of (v, e) \<Rightarrow> (v, w\<lparr>env := e\<rparr>))"

definition command :: "('e \<Rightarrow> 'e) \<Rightarrow> (('e, 'z) world_scheme, unit) state" where
  "command f = State (\<lambda>w. ((), w\<lparr>env := f (env w)\<rparr>))"

lemma run_access [simp]: "run_state (access f) w = (fst (f (env w)), w\<lparr>env := snd (f (env w))\<rparr>)"
  by (simp add: access_def case_prod_beta)

lemma run_command [simp]: "run_state (command f) w = ((), w\<lparr>env := f (env w)\<rparr>)"
  by (simp add: command_def)

abbreviation mem_read8 :: "'e bus \<Rightarrow> u64 \<Rightarrow> (('e, 'z) world_scheme, u8) state" where
  "mem_read8 b a \<equiv> access (bus_read8 b a)"

abbreviation mem_read16 :: "'e bus \<Rightarrow> u64 \<Rightarrow> (('e, 'z) world_scheme, u16) state" where
  "mem_read16 b a \<equiv> access (bus_read16 b a)"

abbreviation mem_read32 :: "'e bus \<Rightarrow> u64 \<Rightarrow> (('e, 'z) world_scheme, u32) state" where
  "mem_read32 b a \<equiv> access (bus_read32 b a)"

abbreviation mem_write8 :: "'e bus \<Rightarrow> u64 \<Rightarrow> u8 \<Rightarrow> (('e, 'z) world_scheme, unit) state" where
  "mem_write8 b a v \<equiv> command (bus_write8 b a v)"

abbreviation mem_write16 :: "'e bus \<Rightarrow> u64 \<Rightarrow> u16 \<Rightarrow> (('e, 'z) world_scheme, unit) state" where
  "mem_write16 b a v \<equiv> command (bus_write16 b a v)"

abbreviation mem_write32 :: "'e bus \<Rightarrow> u64 \<Rightarrow> u32 \<Rightarrow> (('e, 'z) world_scheme, unit) state" where
  "mem_write32 b a v \<equiv> command (bus_write32 b a v)"

abbreviation mem_write64 :: "'e bus \<Rightarrow> u64 \<Rightarrow> u64 \<Rightarrow> (('e, 'z) world_scheme, unit) state" where
  "mem_write64 b a v \<equiv> command (bus_write64 b a v)"

definition io_inb :: "'e bus \<Rightarrow> u16 \<Rightarrow> (('e, 'z) world_scheme, u8) state" where
  "io_inb b port = access (port_in8 b port)"

definition io_outb :: "'e bus \<Rightarrow> u16 \<Rightarrow> u8 \<Rightarrow> (('e, 'z) world_scheme, unit) state" where
  "io_outb b port v = command (port_out8 b port v)"

definition io_inw :: "'e bus \<Rightarrow> u16 \<Rightarrow> (('e, 'z) world_scheme, u16) state" where
  "io_inw b port = access (port_in16 b port)"

definition io_outw :: "'e bus \<Rightarrow> u16 \<Rightarrow> u16 \<Rightarrow> (('e, 'z) world_scheme, unit) state" where
  "io_outw b port v = command (port_out16 b port v)"

definition io_inl :: "'e bus \<Rightarrow> u16 \<Rightarrow> (('e, 'z) world_scheme, u32) state" where
  "io_inl b port = access (port_in32 b port)"

definition io_outl :: "'e bus \<Rightarrow> u16 \<Rightarrow> u32 \<Rightarrow> (('e, 'z) world_scheme, unit) state" where
  "io_outl b port v = command (port_out32 b port v)"

lemmas io_defs = io_inb_def io_outb_def io_inw_def io_outw_def io_inl_def io_outl_def

section \<open>Output, static variables and loops\<close>

definition print :: "string \<Rightarrow> (('e, 'z) world_scheme, unit) state" where
  "print s = State (\<lambda>w. ((), w\<lparr>console := console w @ s\<rparr>))"

lemma run_print [simp]: "run_state (print s) w = ((), w\<lparr>console := console w @ s\<rparr>)"
  by (simp add: print_def)

definition gets :: "('s \<Rightarrow> 'a) \<Rightarrow> ('s, 'a) state" where
  "gets f = State (\<lambda>s. (f s, s))"

definition modify :: "('s \<Rightarrow> 's) \<Rightarrow> ('s, unit) state" where
  "modify f = State (\<lambda>s. ((), f s))"

lemma run_gets [simp]: "run_state (gets f) s = (f s, s)"
  by (simp add: gets_def)

lemma run_modify [simp]: "run_state (modify f) s = ((), f s)"
  by (simp add: modify_def)

text \<open>A \<^verbatim>\<open>for\<close> loop over a fixed range, and one that updates a local variable.\<close>

fun for_each :: "'a list \<Rightarrow> ('a \<Rightarrow> ('s, unit) state) \<Rightarrow> ('s, unit) state" where
  "for_each [] f = State_Monad.return ()"
| "for_each (x # xs) f = do { f x; for_each xs f }"

fun for_fold :: "'a list \<Rightarrow> ('a \<Rightarrow> 'b \<Rightarrow> ('s, 'b) state) \<Rightarrow> 'b \<Rightarrow> ('s, 'b) state" where
  "for_fold [] f acc = State_Monad.return acc"
| "for_fold (x # xs) f acc = do { acc' \<leftarrow> f x acc; for_fold xs f acc' }"

lemma for_each_append: "for_each (xs @ ys) f = do { for_each xs f; for_each ys f }"
  by (induction xs) simp_all

text \<open>The invariant rule for the loop: each body relates the state before and after it.\<close>

lemma for_each_inv:
  assumes "I s" "\<And>x s. x \<in> set xs \<Longrightarrow> I s \<Longrightarrow> I (snd (run_state (f x) s))"
  shows "I (snd (run_state (for_each xs f) s))"
  using assms by (induction xs arbitrary: s) (auto simp: case_prod_beta)

lemma for_each_prefix:
  assumes "I [] s"
    and "\<And>us x vs s. xs = us @ x # vs \<Longrightarrow> I us s \<Longrightarrow> I (us @ [x]) (snd (run_state (f x) s))"
  shows "I xs (snd (run_state (for_each xs f) s))"
proof -
  have "I (us @ vs) (snd (run_state (for_each vs f) s))" if "xs = us @ vs" "I us s" for us vs s
    using that
  proof (induction vs arbitrary: us s)
    case (Cons x vs)
    have "I (us @ [x]) (snd (run_state (f x) s))"
      using assms(2) Cons.prems by blast
    then show ?case
      using Cons.IH [of "us @ [x]"] Cons.prems by (simp add: case_prod_beta)
  qed simp
  from this [of "[]"] assms(1) show ?thesis by simp
qed

text \<open>The same for the loop with a variable: the invariant speaks of the elements done so far.\<close>

lemma for_fold_prefix:
  assumes "I [] acc s"
    and "\<And>us x vs acc s. xs = us @ x # vs \<Longrightarrow> I us acc s \<Longrightarrow>
      I (us @ [x]) (fst (run_state (f x acc) s)) (snd (run_state (f x acc) s))"
  shows "I xs (fst (run_state (for_fold xs f acc) s)) (snd (run_state (for_fold xs f acc) s))"
proof -
  have "I (us @ vs) (fst (run_state (for_fold vs f acc) s)) (snd (run_state (for_fold vs f acc) s))"
    if "xs = us @ vs" "I us acc s" for us vs acc s
    using that
  proof (induction vs arbitrary: us acc s)
    case (Cons x vs)
    have "I (us @ [x]) (fst (run_state (f x acc) s)) (snd (run_state (f x acc) s))"
      using assms(2) Cons.prems by blast
    then show ?case
      using Cons.IH [of "us @ [x]"] Cons.prems by (simp add: case_prod_beta)
  qed simp
  from this [of "[]"] assms(1) show ?thesis by simp
qed

section \<open>Postconditions\<close>

text \<open>
  \<open>wp m Q s\<close>: the computation \<open>m\<close>, started in \<open>s\<close>, ends with a result and a state that satisfy \<open>Q\<close>. The equations
  decompose a computation; what the hardware answers enters through rules for the accesses.
\<close>

definition wp :: "('s, 'a) state \<Rightarrow> ('a \<Rightarrow> 's \<Rightarrow> bool) \<Rightarrow> 's \<Rightarrow> bool" where
  "wp m Q s = Q (fst (run_state m s)) (snd (run_state m s))"

named_theorems wp_simps \<open>decomposition of driver code\<close>

lemma wp_bind [wp_simps]: "wp (State_Monad.bind m f) Q = wp m (\<lambda>a. wp (f a) Q)"
  by (simp add: fun_eq_iff wp_def case_prod_beta)

lemma wp_return [wp_simps]: "wp (State_Monad.return a) Q s = Q a s"
  by (simp add: wp_def)

lemma wp_gets [wp_simps]: "wp (gets f) Q s = Q (f s) s"
  by (simp add: wp_def)

lemma wp_modify [wp_simps]: "wp (modify f) Q s = Q () (f s)"
  by (simp add: wp_def)

lemma wp_print [wp_simps]: "wp (print t) Q w = Q () (w\<lparr>console := console w @ t\<rparr>)"
  by (simp add: wp_def)

lemma wp_access [wp_simps]: "wp (access f) Q w = Q (fst (f (env w))) (w\<lparr>env := snd (f (env w))\<rparr>)"
  by (simp add: wp_def)

lemma wp_command [wp_simps]: "wp (command f) Q w = Q () (w\<lparr>env := f (env w)\<rparr>)"
  by (simp add: wp_def)

lemma wp_if [wp_simps]: "wp (if c then m else m') Q s = (if c then wp m Q s else wp m' Q s)"
  by simp

lemma wp_mono: "wp m Q s \<Longrightarrow> (\<And>a s'. Q a s' \<Longrightarrow> R a s') \<Longrightarrow> wp m R s"
  by (simp add: wp_def)

lemma wp_seq: "wp m P s \<Longrightarrow> (\<And>a s'. P a s' \<Longrightarrow> wp (f a) Q s') \<Longrightarrow> wp (State_Monad.bind m f) Q s"
  by (simp add: wp_bind) (simp add: wp_def)

lemma wp_True: "(\<And>a s'. Q a s') \<Longrightarrow> wp m Q s"
  by (simp add: wp_def)

lemma wp_skip: "(\<And>a s'. wp (f a) Q s') \<Longrightarrow> wp (State_Monad.bind m f) Q s"
  by (simp add: wp_bind) (simp add: wp_def)

lemma wp_gets_seq: "wp (f (g s)) Q s \<Longrightarrow> wp (State_Monad.bind (gets g) f) Q s"
  by (simp add: wp_bind wp_gets)

lemma wp_ifI: "(c \<Longrightarrow> wp m Q s) \<Longrightarrow> (\<not> c \<Longrightarrow> wp m' Q s) \<Longrightarrow> wp (if c then m else m') Q s"
  by simp

lemma wp_run: "wp m (\<lambda>a s'. run_state m s = (a, s')) s"
  by (simp add: wp_def)

lemma wp_known: "run_state m s = (a, s') \<Longrightarrow> wp m Q s = Q a s'"
  by (simp add: wp_def)

lemma wpD: "wp m Q s \<Longrightarrow> run_state m s = (a, s') \<Longrightarrow> Q a s'"
  by (simp add: wp_def)

lemma wp_conj: "wp m Q s \<Longrightarrow> wp m R s \<Longrightarrow> wp m (\<lambda>a s'. Q a s' \<and> R a s') s"
  by (simp add: wp_def)

lemma wp_for_each:
  assumes "I s" "\<And>x s. x \<in> set xs \<Longrightarrow> I s \<Longrightarrow> wp (f x) (\<lambda>_. I) s"
  shows "wp (for_each xs f) (\<lambda>_. I) s"
  using assms for_each_inv [of I s xs f] by (simp add: wp_def)

lemma wp_for_fold:
  assumes "I [] acc s"
    and "\<And>us x vs acc s. xs = us @ x # vs \<Longrightarrow> I us acc s \<Longrightarrow> wp (f x acc) (I (us @ [x])) s"
  shows "wp (for_fold xs f acc) (I xs) s"
  using assms for_fold_prefix [of I acc s xs f] by (simp add: wp_def)

text \<open>The same rules for a loop that counts up, with the invariant indexed by the counter.\<close>

lemma env_update_exists [simp]: "\<exists>e'. w\<lparr>env := e\<rparr> = (w\<lparr>env := e'\<rparr> :: ('e, 'z) world_scheme)"
  by (rule exI) (rule refl)

lemma upt_split: "[0..<n] = us @ x # vs \<Longrightarrow> length us = x \<and> x < n"
proof -
  assume xs: "[0..<n] = us @ x # vs"
  have "n = length us + Suc (length vs)"
    using arg_cong [of _ _ length, OF xs] by (simp del: upt_Suc)
  moreover have "[0..<n] ! length us = x" by (simp add: xs)
  ultimately show "length us = x \<and> x < n" by (simp del: upt_Suc)
qed

lemma wp_for_upt:
  assumes "I 0 s" "\<And>x s. x < n \<Longrightarrow> I x s \<Longrightarrow> wp (f x) (\<lambda>_. I (Suc x)) s"
  shows "wp (for_each [0..<n] f) (\<lambda>_. I n) s"
proof -
  have "(\<lambda>us. I (length us)) [0..<n] (snd (run_state (for_each [0..<n] f) s))"
  proof (rule for_each_prefix)
    fix us x vs s
    assume "[0..<n] = us @ x # vs" "I (length us) s"
    then show "I (length (us @ [x])) (snd (run_state (f x) s))"
      using upt_split assms(2) [of x s] by (fastforce simp: wp_def)
  qed (simp add: assms(1))
  then show ?thesis by (simp add: wp_def)
qed

lemma wp_fold_upt:
  assumes "I 0 acc s" "\<And>x acc s. x < n \<Longrightarrow> I x acc s \<Longrightarrow> wp (f x acc) (I (Suc x)) s"
  shows "wp (for_fold [0..<n] f acc) (I n) s"
proof -
  have "wp (for_fold [0..<n] f acc) ((\<lambda>us. I (length us)) [0..<n]) s"
  proof (rule wp_for_fold [where I = "\<lambda>us. I (length us)"])
    fix us x vs acc s
    assume "[0..<n] = us @ x # vs" "I (length us) acc s"
    then show "wp (f x acc) (I (length (us @ [x]))) s"
      using upt_split assms(2) [of x acc s] by fastforce
  qed (simp add: assms(1))
  then show ?thesis by simp
qed

section \<open>Code that only accesses the hardware\<close>

text \<open>
  Most driver code touches nothing of the world but the environment: the console, the logger and the static
  variables are as before. The rules follow the structure of the code.
\<close>

definition env_only :: "(('e, 'z) world_scheme, 'a) state \<Rightarrow> bool" where
  "env_only m \<longleftrightarrow> (\<forall>w. \<exists>e. snd (run_state m w) = w\<lparr>env := e\<rparr>)"

named_theorems env_only_rules \<open>code that only accesses the hardware\<close>

lemma env_only_return [env_only_rules]: "env_only (State_Monad.return a)"
  unfolding env_only_def by (intro allI, rule_tac x = "env w" in exI) simp

lemma env_only_access [env_only_rules]: "env_only (access f)"
  by (simp add: env_only_def)

lemma env_only_command [env_only_rules]: "env_only (command f)"
  by (simp add: env_only_def)

lemma env_only_bind [env_only_rules]:
  assumes "env_only m" "\<And>a. env_only (f a)"
  shows "env_only (State_Monad.bind m f)"
  unfolding env_only_def
proof
  fix w
  obtain e where e: "snd (run_state m w) = w\<lparr>env := e\<rparr>" using assms(1) by (auto simp: env_only_def)
  obtain e' where "snd (run_state (f (fst (run_state m w))) (w\<lparr>env := e\<rparr>)) = w\<lparr>env := e\<rparr>\<lparr>env := e'\<rparr>"
    using assms(2) unfolding env_only_def by blast
  then show "\<exists>e. snd (run_state (State_Monad.bind m f) w) = w\<lparr>env := e\<rparr>"
    using e by (auto simp: case_prod_beta)
qed

lemma env_only_if [env_only_rules]: "(c \<Longrightarrow> env_only m) \<Longrightarrow> (\<not> c \<Longrightarrow> env_only m') \<Longrightarrow> env_only (if c then m else m')"
  by simp

lemma env_only_let [env_only_rules]: "env_only (f a) \<Longrightarrow> env_only (let x = a in f x)"
  by simp

lemma env_only_option [env_only_rules]:
  "env_only m \<Longrightarrow> (\<And>x. env_only (f x)) \<Longrightarrow> env_only (case v of None \<Rightarrow> m | Some x \<Rightarrow> f x)"
  by (cases v) simp_all

lemma env_only_prod [env_only_rules]: "(\<And>x y. env_only (f x y)) \<Longrightarrow> env_only (case v of (x, y) \<Rightarrow> f x y)"
  by (cases v) simp

lemma env_only_for_each [env_only_rules]: "(\<And>x. env_only (f x)) \<Longrightarrow> env_only (for_each xs f)"
  by (induction xs) (simp_all add: env_only_rules)

lemma env_only_for_fold [env_only_rules]: "(\<And>x acc. env_only (f x acc)) \<Longrightarrow> env_only (for_fold xs f acc)"
  by (induction xs arbitrary: acc) (simp_all add: env_only_rules)

lemma env_only_io [env_only_rules]:
  "env_only (io_inb b p)" "env_only (io_outb b p v8)" "env_only (io_inw b p)" "env_only (io_outw b p v16)"
  "env_only (io_inl b p)" "env_only (io_outl b p v32)"
  by (simp_all add: io_defs env_only_rules)

lemma wp_env_only: "env_only m \<Longrightarrow> wp m (\<lambda>_ w'. \<exists>e. w' = w\<lparr>env := e\<rparr>) w"
  by (simp add: wp_def env_only_def)

end
