(* ===== verification/Virtio_Mmio.thy ===== *)
theory Virtio_Mmio
  imports Hw_Bus Fdt
begin

text \<open>
  Detection of VirtIO devices behind memory-mapped registers: \<^verbatim>\<open>kernel/devices/virtio_mmio.h\<close> and
  \<^verbatim>\<open>kernel/devices/virtio_mmio.c\<close>.
\<close>

section \<open>Registers\<close>

definition VIRTIO_MMIO_MAGIC_VALUE :: u16 where "VIRTIO_MMIO_MAGIC_VALUE = 0x000"
definition VIRTIO_MMIO_VERSION :: u16 where "VIRTIO_MMIO_VERSION = 0x004"
definition VIRTIO_MMIO_DEVICE_ID :: u16 where "VIRTIO_MMIO_DEVICE_ID = 0x008"
definition VIRTIO_MMIO_DEVICE_FEATURES :: u16 where "VIRTIO_MMIO_DEVICE_FEATURES = 0x010"
definition VIRTIO_MMIO_DRIVER_FEATURES :: u16 where "VIRTIO_MMIO_DRIVER_FEATURES = 0x020"
definition VIRTIO_MMIO_GUEST_PAGE_SIZE :: u16 where "VIRTIO_MMIO_GUEST_PAGE_SIZE = 0x028"
definition VIRTIO_MMIO_QUEUE_SEL :: u16 where "VIRTIO_MMIO_QUEUE_SEL = 0x030"
definition VIRTIO_MMIO_QUEUE_NUM_MAX :: u16 where "VIRTIO_MMIO_QUEUE_NUM_MAX = 0x034"
definition VIRTIO_MMIO_QUEUE_NUM :: u16 where "VIRTIO_MMIO_QUEUE_NUM = 0x038"
definition VIRTIO_MMIO_QUEUE_ALIGN :: u16 where "VIRTIO_MMIO_QUEUE_ALIGN = 0x03c"
definition VIRTIO_MMIO_QUEUE_PFN :: u16 where "VIRTIO_MMIO_QUEUE_PFN = 0x040"
definition VIRTIO_MMIO_QUEUE_NOTIFY :: u16 where "VIRTIO_MMIO_QUEUE_NOTIFY = 0x050"
definition VIRTIO_MMIO_INTERRUPT_STATUS :: u16 where "VIRTIO_MMIO_INTERRUPT_STATUS = 0x060"
definition VIRTIO_MMIO_STATUS :: u16 where "VIRTIO_MMIO_STATUS = 0x070"

definition VIRTIO_PCI_DEVICE_FEATURES :: u16 where "VIRTIO_PCI_DEVICE_FEATURES = 0x00"
definition VIRTIO_PCI_DRIVER_FEATURES :: u16 where "VIRTIO_PCI_DRIVER_FEATURES = 0x04"
definition VIRTIO_PCI_QUEUE_PFN :: u16 where "VIRTIO_PCI_QUEUE_PFN = 0x08"
definition VIRTIO_PCI_QUEUE_NUM :: u16 where "VIRTIO_PCI_QUEUE_NUM = 0x0C"
definition VIRTIO_PCI_QUEUE_SEL :: u16 where "VIRTIO_PCI_QUEUE_SEL = 0x0E"
definition VIRTIO_PCI_QUEUE_NOTIFY :: u16 where "VIRTIO_PCI_QUEUE_NOTIFY = 0x10"
definition VIRTIO_PCI_STATUS :: u16 where "VIRTIO_PCI_STATUS = 0x12"
definition VIRTIO_PCI_ISR_STATUS :: u16 where "VIRTIO_PCI_ISR_STATUS = 0x13"

definition VIRTIO_STATUS_ACKNOWLEDGE :: u8 where "VIRTIO_STATUS_ACKNOWLEDGE = 1"
definition VIRTIO_STATUS_DRIVER :: u8 where "VIRTIO_STATUS_DRIVER = 2"
definition VIRTIO_STATUS_DRIVER_OK :: u8 where "VIRTIO_STATUS_DRIVER_OK = 4"
definition VIRTIO_STATUS_FEATURES_OK :: u8 where "VIRTIO_STATUS_FEATURES_OK = 8"
definition VIRTIO_STATUS_FAILED :: u8 where "VIRTIO_STATUS_FAILED = 128"

definition VIRTIO_TYPE_NET :: u32 where "VIRTIO_TYPE_NET = 1"
definition VIRTIO_TYPE_BLOCK :: u32 where "VIRTIO_TYPE_BLOCK = 2"
definition VIRTIO_TYPE_RNG :: u32 where "VIRTIO_TYPE_RNG = 4"

lemmas virtio_reg_defs = VIRTIO_MMIO_MAGIC_VALUE_def VIRTIO_MMIO_VERSION_def VIRTIO_MMIO_DEVICE_ID_def
  VIRTIO_MMIO_DEVICE_FEATURES_def VIRTIO_MMIO_DRIVER_FEATURES_def VIRTIO_MMIO_GUEST_PAGE_SIZE_def
  VIRTIO_MMIO_QUEUE_SEL_def VIRTIO_MMIO_QUEUE_NUM_MAX_def VIRTIO_MMIO_QUEUE_NUM_def VIRTIO_MMIO_QUEUE_ALIGN_def
  VIRTIO_MMIO_QUEUE_PFN_def VIRTIO_MMIO_QUEUE_NOTIFY_def VIRTIO_MMIO_INTERRUPT_STATUS_def VIRTIO_MMIO_STATUS_def
  VIRTIO_PCI_DEVICE_FEATURES_def VIRTIO_PCI_DRIVER_FEATURES_def VIRTIO_PCI_QUEUE_PFN_def VIRTIO_PCI_QUEUE_NUM_def
  VIRTIO_PCI_QUEUE_SEL_def VIRTIO_PCI_QUEUE_NOTIFY_def VIRTIO_PCI_STATUS_def VIRTIO_PCI_ISR_STATUS_def

lemmas virtio_status_defs = VIRTIO_STATUS_ACKNOWLEDGE_def VIRTIO_STATUS_DRIVER_def VIRTIO_STATUS_DRIVER_OK_def
  VIRTIO_STATUS_FEATURES_OK_def VIRTIO_STATUS_FAILED_def

lemmas virtio_type_defs = VIRTIO_TYPE_NET_def VIRTIO_TYPE_BLOCK_def VIRTIO_TYPE_RNG_def

record virtio_mmio_config =
  cfg_base_addr :: u64
  cfg_device_size :: u64
  cfg_device_count :: int

section \<open>Operations\<close>

definition virtio_type_to_device_id :: "u32 \<Rightarrow> u16" where
  "virtio_type_to_device_id device_type =
     (if device_type = VIRTIO_TYPE_NET then 0x1000
      else if device_type = VIRTIO_TYPE_BLOCK then 0x1001
      else if device_type = VIRTIO_TYPE_RNG then 0x1005
      else 0)"

text \<open>The flag says whether \<^verbatim>\<open>value\<close> is a non-NULL pointer; \<open>None\<close> is the result \<^verbatim>\<open>-1\<close>.\<close>

definition mmio_read32_safe :: "'e bus \<Rightarrow> u64 \<Rightarrow> bool \<Rightarrow> (('e, 'z) world_scheme, u32 option) state" where
  "mmio_read32_safe b addr value =
     (if \<not> value then State_Monad.return None
      else if addr AND 0x3 \<noteq> 0 then State_Monad.return None
      else do { v \<leftarrow> mem_read32 b addr; State_Monad.return (Some v) })"

definition mmio_write32 :: "'e bus \<Rightarrow> u64 \<Rightarrow> u32 \<Rightarrow> (('e, 'z) world_scheme, unit) state" where
  "mmio_write32 b addr v = mem_write32 b addr v"

definition mmio_read32 :: "'e bus \<Rightarrow> u64 \<Rightarrow> (('e, 'z) world_scheme, u32) state" where
  "mmio_read32 b addr = mem_read32 b addr"

definition virtio_pci_read32 :: "'e bus \<Rightarrow> u16 \<Rightarrow> u16 \<Rightarrow> (('e, 'z) world_scheme, u32) state" where
  "virtio_pci_read32 b iobase offset = io_inl b (iobase + offset)"

definition virtio_pci_write32 :: "'e bus \<Rightarrow> u16 \<Rightarrow> u16 \<Rightarrow> u32 \<Rightarrow> (('e, 'z) world_scheme, unit) state" where
  "virtio_pci_write32 b iobase offset v = io_outl b (iobase + offset) v"

text \<open>
  The checks that the probe and the body of the enumeration loop have in common, in the same order: magic value,
  version, device type. The result is the PCI-style device id, \<open>None\<close> where the probe returns \<^verbatim>\<open>-1\<close> and
  the loop continues.
\<close>

definition virtio_mmio_identify :: "'e bus \<Rightarrow> u64 \<Rightarrow> (('e, 'z) world_scheme, u16 option) state" where
  "virtio_mmio_identify b base = do {
     magic \<leftarrow> mmio_read32_safe b (base + ucast VIRTIO_MMIO_MAGIC_VALUE) True;
     if magic = None \<or> magic \<noteq> Some 0x74726976 then State_Monad.return None
     else do {
       version \<leftarrow> mmio_read32_safe b (base + ucast VIRTIO_MMIO_VERSION) True;
       if version = None \<or> version = Some 0 \<or> the version > 2 then State_Monad.return None
       else do {
         device_type \<leftarrow> mmio_read32_safe b (base + ucast VIRTIO_MMIO_DEVICE_ID) True;
         State_Monad.return (case device_type of
           None \<Rightarrow> None
         | Some t \<Rightarrow>
             if t = 0 then None
             else if virtio_type_to_device_id t = 0 then None
             else Some (virtio_type_to_device_id t)) } } }"

text \<open>
  The probe of a device structure (\<open>None\<close>: NULL): the structure with its ids filled in, or \<open>None\<close> for the
  result \<^verbatim>\<open>-1\<close>, in which case nothing is written.
\<close>

definition virtio_mmio_probe_device :: "'e bus \<Rightarrow> device option \<Rightarrow> (('e, 'z) world_scheme, device option) state" where
  "virtio_mmio_probe_device b dev = (case dev of
     None \<Rightarrow> State_Monad.return None
   | Some d \<Rightarrow>
       if reg_base d = 0 then State_Monad.return None
       else do {
         r \<leftarrow> virtio_mmio_identify b (reg_base d);
         State_Monad.return (case r of
           None \<Rightarrow> None
         | Some devid \<Rightarrow> Some (d\<lparr>vendor_id := 0x1AF4, device_id := devid\<rparr>)) })"

definition virtio_mmio_slot :: "virtio_mmio_config \<Rightarrow> int \<Rightarrow> u64" where
  "virtio_mmio_slot config i = cfg_base_addr config + word_of_int i * cfg_device_size config"

definition virtio_mmio_dev_info :: "virtio_mmio_config \<Rightarrow> int \<Rightarrow> u16 \<Rightarrow> device" where
  "virtio_mmio_dev_info config i devid = zero_device\<lparr>
     dev_compatible := Some ''virtio,mmio'', dev_name := None, reg_base := virtio_mmio_slot config i,
     reg_size := cfg_device_size config, vendor_id := 0x1AF4, device_id := devid, dev_bus := 0,
     device_num := word_of_int i, dev_function := 0\<rparr>"

text \<open>The loop from \<open>i\<close> on: the devices passed to the callback (if there is one) and the count.\<close>

function virtio_mmio_loop ::
  "'e bus \<Rightarrow> bool \<Rightarrow> virtio_mmio_config \<Rightarrow> int \<Rightarrow> device list \<Rightarrow> int \<Rightarrow> (('e, 'z) world_scheme, device list \<times> int) state" where
  "virtio_mmio_loop b callback config i reported device_count =
     (if i < cfg_device_count config then do {
        r \<leftarrow> virtio_mmio_identify b (virtio_mmio_slot config i);
        (case r of
           None \<Rightarrow> virtio_mmio_loop b callback config (i + 1) reported device_count
         | Some devid \<Rightarrow> virtio_mmio_loop b callback config (i + 1)
             (if callback then reported @ [virtio_mmio_dev_info config i devid] else reported) (device_count + 1)) }
      else State_Monad.return (reported, device_count))"
  by pat_completeness auto
termination
  by (relation "measure (\<lambda>(b, cb, config, i, reported, n). nat (cfg_device_count config - i))") auto

declare virtio_mmio_loop.simps [simp del]

definition virtio_mmio_enumerate ::
  "'e bus \<Rightarrow> bool \<Rightarrow> virtio_mmio_config option \<Rightarrow> (('e, 'z) world_scheme, device list \<times> int) state" where
  "virtio_mmio_enumerate b callback config = (case config of
     None \<Rightarrow> State_Monad.return ([], 0)
   | Some c \<Rightarrow> virtio_mmio_loop b callback c 0 [] 0)"

section \<open>What the probe finds\<close>

text \<open>
  The VirtIO specification makes the three identification registers constant and free of side effects:
  \<open>regs\<close> gives their values.
\<close>

definition id_regs :: "'e bus \<Rightarrow> (u64 \<Rightarrow> u32) \<Rightarrow> u64 \<Rightarrow> bool" where
  "id_regs b regs base \<longleftrightarrow> (\<forall>e. \<forall>a \<in> {base, base + 4, base + 8}. bus_read32 b a e = (regs a, e))"

text \<open>The device a set of registers stands for: a word-aligned block with the magic value, version 1 or 2 and one of the three known types.\<close>

definition virtio_known :: "(u32 \<times> u16) list" where
  "virtio_known = [(1, 0x1000), (2, 0x1001), (4, 0x1005)]"

definition virtio_id :: "(u64 \<Rightarrow> u32) \<Rightarrow> u64 \<Rightarrow> u16 option" where
  "virtio_id regs base =
     (if 4 dvd unat base \<and> regs base = 0x74726976 \<and> regs (base + 4) \<in> {1, 2}
      then map_of virtio_known (regs (base + 8)) else None)"

lemma aligned_iff: "(a AND 3 = 0) \<longleftrightarrow> 4 dvd unat (a :: u64)"
proof -
  have "unat (a AND 3) = unat a mod 4"
    using unat_and_mask [of a 2] by (simp add: mask_eq_exp_minus_1)
  then show ?thesis
    by (metis dvd_eq_mod_eq_0 unat_0 unat_eq_zero)
qed

lemma aligned_add:
  "4 dvd unat ((a :: u64) + 4) \<longleftrightarrow> 4 dvd unat a"
  "4 dvd unat ((a :: u64) + 8) \<longleftrightarrow> 4 dvd unat a"
  by (simp_all add: unat_word_ariths dvd_mod_iff) presburger

lemma small_version: "(v :: u32) = 0 \<or> v > 2 \<longleftrightarrow> v \<noteq> 1 \<and> v \<noteq> 2"
proof -
  have "v = 0 \<or> v > 2 \<longleftrightarrow> unat v = 0 \<or> unat v > 2"
    by (simp add: word_less_nat_alt unat_eq_zero)
  also have "\<dots> \<longleftrightarrow> unat v \<noteq> unat (1 :: u32) \<and> unat v \<noteq> unat (2 :: u32)" by auto
  finally show ?thesis by (simp only: word_unat_eq_iff [symmetric])
qed

lemma type_to_id:
  "(if t = 0 then None else if virtio_type_to_device_id t = 0 then None else Some (virtio_type_to_device_id t)) =
   map_of virtio_known t"
  by (simp add: virtio_type_to_device_id_def virtio_type_defs virtio_known_def)

lemma virtio_mmio_identify_eq:
  assumes "id_regs b regs base"
  shows "run_state (virtio_mmio_identify b base) w = (virtio_id regs base, w)"
proof -
  have rd: "bus_read32 b base e = (regs base, e)" "bus_read32 b (base + 4) e = (regs (base + 4), e)"
    "bus_read32 b (base + 8) e = (regs (base + 8), e)" for e
    using assms by (auto simp: id_regs_def)
  show ?thesis
  proof (cases "4 dvd unat base \<and> regs base = 0x74726976 \<and> regs (base + 4) \<in> {1, 2}")
    case True
    then show ?thesis
      by (auto simp: virtio_mmio_identify_def mmio_read32_safe_def virtio_reg_defs aligned_iff aligned_add rd
          virtio_id_def type_to_id [symmetric] split: option.split)
  next
    case False
    then show ?thesis
      using small_version [of "regs (base + 4)"]
      by (auto simp: virtio_mmio_identify_def mmio_read32_safe_def virtio_reg_defs aligned_iff aligned_add rd
          virtio_id_def)
  qed
qed

lemma virtio_mmio_loop_eq:
  assumes "0 \<le> i" "\<forall>j. 0 \<le> j \<and> j < cfg_device_count c \<longrightarrow> id_regs b regs (virtio_mmio_slot c j)"
  shows "run_state (virtio_mmio_loop b True c i reported n) w =
    (let devs = List.map_filter (\<lambda>j. map_option (virtio_mmio_dev_info c j) (virtio_id regs (virtio_mmio_slot c j)))
       [i..cfg_device_count c - 1]
     in ((reported @ devs, n + int (length devs)), w))"
  using assms
proof (induction b "True" c i reported n arbitrary: w rule: virtio_mmio_loop.induct)
  case (1 b c i reported n)
  show ?case
  proof (cases "i < cfg_device_count c")
    case True
    then have "[i..cfg_device_count c - 1] = i # [i + 1..cfg_device_count c - 1]"
      by (simp add: upto_rec1)
    moreover have "id_regs b regs (virtio_mmio_slot c i)"
      using 1(4,3) True by blast
    ultimately show ?thesis
      using True 1 virtio_mmio_identify_eq [of b regs "virtio_mmio_slot c i" w]
      by (subst virtio_mmio_loop.simps) (simp add: Let_def List.map_filter_simps split: option.split)
  next
    case False
    then show ?thesis
      by (subst virtio_mmio_loop.simps) (simp add: List.map_filter_simps)
  qed
qed

section \<open>Properties\<close>

text \<open>
  C19: On hardware whose identification registers read as the VirtIO specification says, the enumeration of a block
  of slots reports, in order, exactly the slots that hold a device (word-aligned, with the magic value, version 1
  or 2 and a known type) with their bus addresses and PCI-style ids, returns their number and changes nothing else;
  the probe of a single device succeeds on exactly the same registers, and only fills in the two ids.
\<close>

theorem virtio_mmio_detection:
  assumes "\<forall>i. 0 \<le> i \<and> i < cfg_device_count c \<longrightarrow> id_regs b regs (virtio_mmio_slot c i)"
    and "id_regs b regs (reg_base d)"
  shows "(let found = List.map_filter
       (\<lambda>i. map_option (virtio_mmio_dev_info c i) (virtio_id regs (virtio_mmio_slot c i))) [0..cfg_device_count c - 1]
     in run_state (virtio_mmio_enumerate b True (Some c)) w = ((found, int (length found)), w)) \<and>
    run_state (virtio_mmio_probe_device b (Some d)) w =
      (if reg_base d = 0 then None
       else map_option (\<lambda>devid. d\<lparr>vendor_id := 0x1AF4, device_id := devid\<rparr>) (virtio_id regs (reg_base d)), w)"
  using assms(1) virtio_mmio_identify_eq [OF assms(2), of w]
  by (simp add: virtio_mmio_enumerate_def virtio_mmio_loop_eq Let_def virtio_mmio_probe_device_def split: option.split)

text \<open>Eight slots from \<^verbatim>\<open>0x10001000\<close> on, an RNG in the third.\<close>

definition sample_regs :: "u64 \<Rightarrow> u32" where
  "sample_regs a = (if a = 0x10003000 then 0x74726976 else if a = 0x10003004 then 1 else if a = 0x10003008 then 4 else 0)"

definition sample_regs_bus :: "unit bus" where
  "sample_regs_bus = idle_bus\<lparr>bus_read32 := \<lambda>a e. (sample_regs a, e)\<rparr>"

definition sample_slots :: virtio_mmio_config where
  "sample_slots = \<lparr>cfg_base_addr = 0x10001000, cfg_device_size = 0x1000, cfg_device_count = 8\<rparr>"

lemma sample_found: "List.map_filter
    (\<lambda>i. map_option (virtio_mmio_dev_info sample_slots i) (virtio_id sample_regs (virtio_mmio_slot sample_slots i)))
    [0..cfg_device_count sample_slots - 1] = [virtio_mmio_dev_info sample_slots 2 0x1005]"
  by (simp add: sample_slots_def upto_rec1 List.map_filter_simps virtio_id_def virtio_mmio_slot_def sample_regs_def virtio_known_def)

theorem virtio_mmio_detection_witness:
  "fst (run_state (virtio_mmio_enumerate sample_regs_bus True (Some sample_slots)) (undefined :: unit world)) =
     ([virtio_mmio_dev_info sample_slots 2 0x1005], 1) \<and>
   fst (run_state (virtio_mmio_probe_device sample_regs_bus (Some (zero_device\<lparr>reg_base := 0x10003000\<rparr>))) (undefined :: unit world)) =
     Some (zero_device\<lparr>reg_base := 0x10003000, vendor_id := 0x1AF4, device_id := 0x1005\<rparr>)"
proof -
  have ok: "id_regs sample_regs_bus sample_regs base" for base
    by (simp add: id_regs_def sample_regs_bus_def)
  note rules = virtio_mmio_detection [of sample_slots sample_regs_bus sample_regs "zero_device\<lparr>reg_base := 0x10003000\<rparr>"
    "undefined :: unit world", unfolded sample_found Let_def]
  show ?thesis
    using rules ok by (simp add: virtio_id_def sample_regs_def virtio_known_def)
qed

end
