(* ===== verification/Pci_Config.thy ===== *)
theory Pci_Config
  imports Virtio_Mmio
begin

text \<open>
  PCI configuration space. The accessors of the enhanced (memory-mapped) mechanism are the same code in
  \<^verbatim>\<open>devices_riscv.c\<close>, \<^verbatim>\<open>devices_arm64.c\<close> and \<^verbatim>\<open>devices_amd64.c\<close>, with the base address of the
  target; so is the probing of the size of a base address register (BAR). They are defined here once, with the base
  and the 32-bit accessors as arguments; each target's theory instantiates them. The locale \<open>config_space\<close> is the
  contract between the accessors and their clients: what a read returns and what a write changes.
\<close>

type_synonym ('s, 'a) cfg_access = "u8 \<Rightarrow> u8 \<Rightarrow> u8 \<Rightarrow> u16 \<Rightarrow> ('s, 'a) state"

section \<open>The accessors\<close>

definition PCI_VENDOR_ID_OFFSET :: u16 where "PCI_VENDOR_ID_OFFSET = 0x00"
definition PCI_DEVICE_ID_OFFSET :: u16 where "PCI_DEVICE_ID_OFFSET = 0x02"
definition PCI_COMMAND_OFFSET :: u16 where "PCI_COMMAND_OFFSET = 0x04"
definition PCI_BAR0_OFFSET :: u16 where "PCI_BAR0_OFFSET = 0x10"
definition PCI_BAR1_OFFSET :: u16 where "PCI_BAR1_OFFSET = 0x14"
definition PCI_BAR4_OFFSET :: u16 where "PCI_BAR4_OFFSET = PCI_BAR0_OFFSET + 16"
definition PCI_COMMAND_MEMORY :: u16 where "PCI_COMMAND_MEMORY = 0x0002"
definition PCI_COMMAND_MASTER :: u16 where "PCI_COMMAND_MASTER = 0x0004"

lemmas pci_offset_defs = PCI_VENDOR_ID_OFFSET_def PCI_DEVICE_ID_OFFSET_def PCI_COMMAND_OFFSET_def
  PCI_BAR0_OFFSET_def PCI_BAR1_OFFSET_def PCI_BAR4_OFFSET_def

definition ecam_address :: "u64 \<Rightarrow> u8 \<Rightarrow> u8 \<Rightarrow> u8 \<Rightarrow> u16 \<Rightarrow> u64" where
  "ecam_address base bus device fn offset =
     base OR push_bit 20 (ucast bus) OR push_bit 15 (ucast device) OR push_bit 12 (ucast fn) OR ucast (offset AND 0xFFC)"

definition half_shift :: "u16 \<Rightarrow> nat" where
  "half_shift offset = unat ((offset AND 2) * 8)"

definition ecam_read16 :: "u64 \<Rightarrow> 'e bus \<Rightarrow> (('e, 'z) world_scheme, u16) cfg_access" where
  "ecam_read16 base b bus device fn offset = do {
     v \<leftarrow> mem_read32 b (ecam_address base bus device fn offset);
     State_Monad.return (ucast (drop_bit (half_shift offset) v AND 0xFFFF)) }"

definition ecam_read32 :: "u64 \<Rightarrow> 'e bus \<Rightarrow> (('e, 'z) world_scheme, u32) cfg_access" where
  "ecam_read32 base b bus device fn offset = mem_read32 b (ecam_address base bus device fn offset)"

definition ecam_write16 :: "u64 \<Rightarrow> 'e bus \<Rightarrow> u8 \<Rightarrow> u8 \<Rightarrow> u8 \<Rightarrow> u16 \<Rightarrow> u16 \<Rightarrow> (('e, 'z) world_scheme, unit) state" where
  "ecam_write16 base b bus device fn offset v = do {
     current \<leftarrow> mem_read32 b (ecam_address base bus device fn offset);
     let m = push_bit (half_shift offset) 0xFFFF;
     mem_write32 b (ecam_address base bus device fn offset)
       ((current AND NOT m) OR push_bit (half_shift offset) (ucast v)) }"

definition ecam_write32 :: "u64 \<Rightarrow> 'e bus \<Rightarrow> u8 \<Rightarrow> u8 \<Rightarrow> u8 \<Rightarrow> u16 \<Rightarrow> u32 \<Rightarrow> (('e, 'z) world_scheme, unit) state" where
  "ecam_write32 base b bus device fn offset v = mem_write32 b (ecam_address base bus device fn offset) v"

text \<open>\<^verbatim>\<open>pci_probe_bar_size\<close>, over the 32-bit accessors.\<close>

definition probe_bar_size ::
  "('s, u32) cfg_access \<Rightarrow> (u8 \<Rightarrow> u8 \<Rightarrow> u8 \<Rightarrow> u16 \<Rightarrow> u32 \<Rightarrow> ('s, unit) state) \<Rightarrow> u8 \<Rightarrow> u8 \<Rightarrow> u8 \<Rightarrow> u8 \<Rightarrow> ('s, u64) state" where
  "probe_bar_size rd wr bus device fn bar_offset = do {
     original_bar \<leftarrow> rd bus device fn (ucast bar_offset);
     wr bus device fn (ucast bar_offset) 0xFFFFFFFF;
     size_mask \<leftarrow> rd bus device fn (ucast bar_offset);
     wr bus device fn (ucast bar_offset) original_bar;
     State_Monad.return
       (if size_mask = 0 \<or> size_mask = 0xFFFFFFFF then 0
        else (let size_mask = (if original_bar AND 0x1 = 0 then size_mask AND 0xFFFFFFF0 else size_mask AND 0xFFFFFFFC)
              in ucast (NOT size_mask + 1))) }"

section \<open>What the PCI specification says\<close>

text \<open>
  A register with the mask \<open>m\<close> of writable bits keeps the others. A BAR is not implemented (reads as zero), is
  the upper half of a 64-bit one (all bits writable), or decodes a region of \<open>2 ^ n\<close> bytes: the address bits from
  \<open>n\<close> up are writable and the rest are zero, but for the type in the lowest four (memory) or two (I/O) bits.
\<close>

definition written :: "u32 \<Rightarrow> u32 \<Rightarrow> u32 \<Rightarrow> u32" where
  "written m old v = (v AND m) OR (old AND NOT m)"

definition mem_bar :: "u32 \<Rightarrow> u32 \<Rightarrow> bool" where
  "mem_bar m v \<longleftrightarrow> (\<exists>n \<in> {4..<32}. m = NOT (mask n)) \<and> v AND NOT m AND NOT 0xF = 0 \<and> v AND 1 = 0"

definition io_bar :: "u32 \<Rightarrow> u32 \<Rightarrow> bool" where
  "io_bar m v \<longleftrightarrow> (\<exists>n \<in> {2..<32}. m = NOT (mask n)) \<and> v AND NOT m = 1"

definition bar_ok :: "u32 \<Rightarrow> u32 \<Rightarrow> bool" where
  "bar_ok m v \<longleftrightarrow> m = 0 \<and> v = 0 \<or> m = -1 \<or> mem_bar m v \<or> io_bar m v"

definition bar_size :: "u32 \<Rightarrow> u64" where
  "bar_size m = (if m = 0 \<or> m = -1 then 0 else ucast (- m))"

lemma written_written: "written m (written m old v) v' = written m old v'"
  by (rule bit_word_eqI) (auto simp: written_def bit_simps)

lemma written_self: "written m v v = v"
  by (rule bit_word_eqI) (auto simp: written_def bit_simps)

lemma written_keeps: "written m old v AND NOT m = old AND NOT m"
  by (rule bit_word_eqI) (auto simp: written_def bit_simps)

lemma and_1_bit: "(x :: u32) AND 1 = 0 \<longleftrightarrow> \<not> bit x 0"
  by (simp add: and_one_eq bit_0 even_iff_mod_2_eq_zero)

lemma bar_ok_written: "bar_ok m (written m old v) \<longleftrightarrow> bar_ok m old"
proof -
  have "written m old v AND 1 = 0 \<longleftrightarrow> old AND 1 = 0" if "m = NOT (mask n)" "4 \<le> n" for n
    using that by (simp add: and_1_bit written_def bit_simps del: bit_0)
  moreover have "written m old v AND NOT m AND x = old AND NOT m AND x" for x
    by (simp add: written_keeps flip: and.assoc)
  ultimately show ?thesis
    by (auto simp: bar_ok_def mem_bar_def io_bar_def written_keeps) (auto simp: written_def)
qed

text \<open>
  Configuration space is indexed by bus, device, function and 32-bit register. A write to the command and status
  register (number 1) follows the mask in its lower half only: bits of the upper half are cleared by writing ones.
  Nothing is said of a write to the other registers but that it has no effect elsewhere.
\<close>

type_synonym cfg_reg = "u8 \<times> u8 \<times> u8 \<times> nat"

definition cfg_write :: "(cfg_reg \<Rightarrow> u32) \<Rightarrow> cfg_reg \<Rightarrow> u32 \<Rightarrow> (cfg_reg \<Rightarrow> u32) \<Rightarrow> (cfg_reg \<Rightarrow> u32) \<Rightarrow> bool" where
  "cfg_write wmask r v c c' \<longleftrightarrow> (\<forall>r'. r' \<noteq> r \<longrightarrow> c' r' = c r') \<and>
     (snd (snd (snd r)) \<in> {4..<10} \<longrightarrow> c' r = written (wmask r) (c r) v) \<and>
     (snd (snd (snd r)) = 1 \<longrightarrow> c' r AND 0xFFFF = written (wmask r) (c r) v AND 0xFFFF)"

definition cfg_valid :: "u8 \<Rightarrow> u8 \<Rightarrow> u16 \<Rightarrow> bool" where
  "cfg_valid device fn offset \<longleftrightarrow> unat device < 32 \<and> unat fn < 8 \<and> unat offset < 256"

lemma bar_literals: "(0xFFFFFFF0 :: u32) = NOT (mask 4)" "(0xFFFFFFFC :: u32) = NOT (mask 2)" "(0xFFFFFFFF :: u32) = -1" "(0xF :: u32) = mask 4"
  by (simp_all add: mask_eq_exp_minus_1)

lemma bar_size_probed:
  assumes "bar_ok m v"
  shows "(if written m v 0xFFFFFFFF = 0 \<or> written m v 0xFFFFFFFF = 0xFFFFFFFF then 0
     else (let sm = (if v AND 0x1 = 0 then written m v 0xFFFFFFFF AND 0xFFFFFFF0 else written m v 0xFFFFFFFF AND 0xFFFFFFFC)
           in ucast (NOT sm + 1))) = bar_size m"
proof -
  let ?w = "written m v 0xFFFFFFFF"
  consider "m = 0" "v = 0" | "m = -1" | "mem_bar m v" | "io_bar m v"
    using assms by (auto simp: bar_ok_def)
  then show ?thesis
  proof cases
    case 3
    then obtain n where n: "4 \<le> n" "n < 32" "m = NOT (mask n)" "v AND NOT m AND NOT (mask 4) = 0" "v AND 1 = 0"
      by (auto simp: mem_bar_def bar_literals)
    have low: "\<not> bit v k" if "4 \<le> k" "k < n" for k
    proof -
      have "\<not> bit (v AND NOT m AND NOT (mask 4)) k" by (simp add: n(4))
      then show ?thesis using that n by (simp add: bit_simps)
    qed
    have "bit ?w 31" "\<not> bit ?w 0" "bit m 31" "\<not> bit m 0"
      using n by (simp_all add: written_def bar_literals bit_simps and_1_bit del: bit_0)
    then have ne: "?w \<noteq> 0" "?w \<noteq> -1" "m \<noteq> 0" "m \<noteq> -1" by auto
    have "?w AND NOT (mask 4) = m"
      using n low by (intro bit_word_eqI) (auto simp: written_def bar_literals bit_simps)
    then show ?thesis
      using ne n(5) minus_eq_not_plus_1 [of m] by (simp add: bar_size_def bar_literals Let_def)
  next
    case 4
    then obtain n where n: "2 \<le> n" "n < 32" "m = NOT (mask n)" "v AND NOT m = 1"
      by (auto simp: io_bar_def)
    have low: "bit v k \<longleftrightarrow> k = 0" if "k < n" for k
    proof -
      have "bit (v AND NOT m) k \<longleftrightarrow> k = 0" by (simp add: n(4) bit_1_iff)
      then show ?thesis using that n by (simp add: bit_simps)
    qed
    have "bit ?w 31" "\<not> bit ?w 1" "bit m 31" "\<not> bit m 0"
      using n low [of 1] by (simp_all add: written_def bar_literals bit_simps)
    then have ne: "?w \<noteq> 0" "?w \<noteq> -1" "m \<noteq> 0" "m \<noteq> -1" by auto
    have "?w AND NOT (mask 2) = m"
      using n low by (intro bit_word_eqI) (auto simp: written_def bar_literals bit_simps)
    moreover have "v AND 1 \<noteq> 0"
      using low [of 0] n(1) by (simp add: and_1_bit del: bit_0)
    ultimately show ?thesis
      using ne minus_eq_not_plus_1 [of m] by (simp add: bar_size_def bar_literals Let_def)
  qed (simp_all add: written_def bar_size_def)
qed

text \<open>
  The contract between the accessors and their clients. \<open>cfg s\<close> is the content of configuration space, \<open>wmask\<close> the
  writable bits, \<open>rest\<close> all of the state that is not hardware, and \<open>ok\<close> the condition on it under which the accessors
  work (the port mechanism of AMD64 needs \<^verbatim>\<open>use_ecam\<close> to be false).
\<close>

locale config_space =
  fixes rd :: "u8 \<Rightarrow> u8 \<Rightarrow> u8 \<Rightarrow> u16 \<Rightarrow> ('s, u32) state"
    and wr :: "u8 \<Rightarrow> u8 \<Rightarrow> u8 \<Rightarrow> u16 \<Rightarrow> u32 \<Rightarrow> ('s, unit) state"
    and cfg :: "'s \<Rightarrow> cfg_reg \<Rightarrow> u32"
    and wmask :: "cfg_reg \<Rightarrow> u32"
    and rest :: "'s \<Rightarrow> 'r"
    and ok :: "'r \<Rightarrow> bool"
  assumes rd_value: "ok (rest s) \<Longrightarrow> cfg_valid d f off \<Longrightarrow> fst (run_state (rd b d f off) s) = cfg s (b, d, f, unat off div 4)"
    and rd_keeps: "ok (rest s) \<Longrightarrow> cfg_valid d f off \<Longrightarrow> cfg (snd (run_state (rd b d f off) s)) = cfg s"
    and rd_rest: "rest (snd (run_state (rd b d f off) s)) = rest s"
    and wr_effect: "ok (rest s) \<Longrightarrow> cfg_valid d f off \<Longrightarrow>
      cfg_write wmask (b, d, f, unat off div 4) v (cfg s) (cfg (snd (run_state (wr b d f off v) s)))"
    and wr_rest: "rest (snd (run_state (wr b d f off v) s)) = rest s"
begin

lemma wr_other: "ok (rest s) \<Longrightarrow> cfg_valid d f off \<Longrightarrow> r \<noteq> (b, d, f, unat off div 4) \<Longrightarrow>
    cfg (snd (run_state (wr b d f off v) s)) r = cfg s r"
  using wr_effect unfolding cfg_write_def by blast

lemma wr_bar: "ok (rest s) \<Longrightarrow> cfg_valid d f off \<Longrightarrow> unat off div 4 \<in> {4..<10} \<Longrightarrow> r = (b, d, f, unat off div 4) \<Longrightarrow>
    cfg (snd (run_state (wr b d f off v) s)) r = written (wmask r) (cfg s r) v"
  using wr_effect [of s d f off b v] by (simp add: cfg_write_def)

lemma wr_command: "ok (rest s) \<Longrightarrow> cfg_valid d f off \<Longrightarrow> unat off div 4 = 1 \<Longrightarrow> r = (b, d, f, 1) \<Longrightarrow>
    cfg (snd (run_state (wr b d f off v) s)) r AND 0xFFFF = written (wmask r) (cfg s r) v AND 0xFFFF"
  using wr_effect [of s d f off b v] by (simp add: cfg_write_def)

lemma probe:
  assumes "ok (rest s)" "cfg_valid d f (ucast off)" "unat off div 4 \<in> {4..<10}"
    and "bar_ok (wmask (b, d, f, unat off div 4)) (cfg s (b, d, f, unat off div 4))"
  shows "fst (run_state (probe_bar_size rd wr b d f off) s) = bar_size (wmask (b, d, f, unat off div 4))"
    and "cfg (snd (run_state (probe_bar_size rd wr b d f off) s)) = cfg s"
    and "rest (snd (run_state (probe_bar_size rd wr b d f off) s)) = rest s"
proof -
  let ?r = "(b, d, f, unat off div 4)"
  have k: "unat (ucast off :: u16) div 4 = unat off div 4" by (simp add: unat_ucast_up)
  define s1 where "s1 = snd (run_state (rd b d f (ucast off)) s)"
  define s2 where "s2 = snd (run_state (wr b d f (ucast off) 0xFFFFFFFF) s1)"
  define s3 where "s3 = snd (run_state (rd b d f (ucast off)) s2)"
  define s4 where "s4 = snd (run_state (wr b d f (ucast off) (cfg s ?r)) s3)"
  have ok: "ok (rest s1)" "ok (rest s2)" "ok (rest s3)"
    using assms(1) by (simp_all add: s1_def s2_def s3_def rd_rest wr_rest)
  have run: "run_state (probe_bar_size rd wr b d f off) s =
    ((let sm = cfg s2 ?r in if sm = 0 \<or> sm = 0xFFFFFFFF then 0
      else (let sm = (if cfg s ?r AND 0x1 = 0 then sm AND 0xFFFFFFF0 else sm AND 0xFFFFFFFC) in ucast (NOT sm + 1))), s4)"
    using assms(1,2) ok(2) by (simp add: probe_bar_size_def case_prod_beta Let_def rd_value k flip: s1_def s2_def s3_def s4_def)
  have s2: "cfg s2 ?r = written (wmask ?r) (cfg s ?r) 0xFFFFFFFF"
    using assms(1-3) ok(1) by (simp add: s1_def s2_def wr_bar [of _ d f "ucast off" ?r b] k rd_keeps)
  then show "fst (run_state (probe_bar_size rd wr b d f off) s) = bar_size (wmask ?r)"
    using bar_size_probed [OF assms(4)] by (simp add: run Let_def)
  have "cfg s4 ?r = cfg s ?r"
    using assms(2,3) s2 ok
    by (simp add: s4_def s3_def wr_bar [of _ d f "ucast off" ?r b] k rd_keeps written_written written_self)
  moreover have "cfg s4 r = cfg s r" if "r \<noteq> ?r" for r
    using assms(1,2) ok that by (simp add: s4_def s3_def s2_def s1_def k rd_keeps wr_other)
  ultimately have "cfg s4 r = cfg s r" for r by (cases "r = ?r") simp_all
  then show "cfg (snd (run_state (probe_bar_size rd wr b d f off) s)) = cfg s"
    by (auto simp: run)
  show "rest (snd (run_state (probe_bar_size rd wr b d f off) s)) = rest s"
    by (simp add: run s4_def s3_def s2_def s1_def rd_rest wr_rest)
qed

end

section \<open>The memory-mapped mechanism\<close>

text \<open>
  The PCI Express specification of the mechanism: the register \<open>k\<close> of a function is the word at this distance from the
  base. Reading it has no effect, writing it follows \<open>cfg_write\<close>.
\<close>

definition ecam_reg :: "u64 \<Rightarrow> cfg_reg \<Rightarrow> u64" where
  "ecam_reg base r = (case r of (bus, d, f, k) \<Rightarrow>
     base + word_of_nat (unat bus * 2 ^ 20 + unat d * 2 ^ 15 + unat f * 2 ^ 12 + 4 * k))"

definition ecam_hw :: "u64 \<Rightarrow> 'e bus \<Rightarrow> ('e \<Rightarrow> cfg_reg \<Rightarrow> u32) \<Rightarrow> (cfg_reg \<Rightarrow> u32) \<Rightarrow> bool" where
  "ecam_hw base b cfg wmask \<longleftrightarrow> (\<forall>bus d f k e. unat d < 32 \<and> unat f < 8 \<and> k < 64 \<longrightarrow>
     bus_read32 b (ecam_reg base (bus, d, f, k)) e = (cfg e (bus, d, f, k), e) \<and>
     (\<forall>v. cfg_write wmask (bus, d, f, k) v (cfg e) (cfg (bus_write32 b (ecam_reg base (bus, d, f, k)) v e))))"

lemma or_shifted: "take_bit n x = 0 \<Longrightarrow> unat y < 2 ^ n \<Longrightarrow> (x :: 'a::len word) OR y = x + y"
proof -
  assume x: "take_bit n x = 0" and y: "unat y < 2 ^ n"
  have y': "take_bit n y = y"
    using y by (simp add: word_unat_eq_iff unsigned_take_bit_eq take_bit_nat_eq_self)
  have "\<not> bit x i \<or> \<not> bit y i" for i
  proof (cases "i < n")
    case True
    then have "bit x i = bit (take_bit n x) i" by (simp add: bit_take_bit_iff)
    then show ?thesis by (simp add: x)
  next
    case False
    then show ?thesis using y' by (metis bit_take_bit_iff)
  qed
  then have "x AND y = 0"
    by (intro bit_word_eqI) (auto simp: bit_simps)
  then show ?thesis
    by (simp add: disjunctive_add_eq_or)
qed

lemma unat_push_or:
  assumes "unat y < 2 ^ n" "unat x * 2 ^ n + unat y < 2 ^ LENGTH('a)"
  shows "unat (push_bit n x OR y) = unat (x :: 'a::len word) * 2 ^ n + unat y"
proof -
  have "push_bit n x OR y = push_bit n x + y"
    by (rule or_shifted [OF _ assms(1)]) (simp add: take_bit_push_bit)
  moreover have "unat (push_bit n x) = unat x * 2 ^ n"
    using assms(2) unsigned_push_bit_eq [where ?'a = nat, of n x]
    by (simp add: push_bit_eq_mult [of n "unat x"] take_bit_nat_eq_self del: push_bit_nat_eq)
  ultimately show ?thesis
    using assms(2) by (simp add: unat_word_ariths)
qed

lemma unat_and_FFC: "unat (off :: u16) < 256 \<Longrightarrow> unat (off AND 0xFFC) = 4 * (unat off div 4)"
proof -
  assume *: "unat off < 256"
  have "off AND 0xFFC = push_bit 2 (drop_bit 2 off AND 0x3FF)"
    by (rule bits16) (simp add: bit_simps, simp add: numeral_2_eq_2 numeral_3_eq_3)
  moreover have "drop_bit 2 off AND 0x3FF = drop_bit 2 off AND mask 10"
    by (simp add: mask_eq_exp_minus_1)
  ultimately show ?thesis
    using * by (simp add: push_bit_eq_mult unat_word_ariths unat_and_mask unat_shr)
qed

lemma ecam_address_eq:
  assumes "cfg_valid d f off" "take_bit 28 base = 0"
  shows "ecam_address base bus d f off = ecam_reg base (bus, d, f, unat off div 4)"
proof -
  let ?o = "ucast (off AND 0xFFC) :: u64"
  let ?F = "push_bit 12 (ucast f) OR ?o"
  let ?D = "push_bit 15 (ucast d) OR ?F"
  let ?B = "push_bit 20 (ucast bus) OR ?D"
  have v: "unat d < 32" "unat f < 8" "unat off < 256"
    using assms(1) by (auto simp: cfg_valid_def)
  have o: "unat ?o = 4 * (unat off div 4)"
    using unat_and_FFC [OF v(3)] by (simp add: unat_ucast_up)
  have F: "unat ?F = unat f * 2 ^ 12 + unat ?o"
    using v o by (subst unat_push_or) (simp_all add: unat_ucast_up)
  have D: "unat ?D = unat d * 2 ^ 15 + unat ?F"
    using v o F by (subst unat_push_or) (simp_all add: unat_ucast_up)
  have B: "unat ?B = unat bus * 2 ^ 20 + unat ?D"
    using v o F D unat_lt8 [of bus] by (subst unat_push_or) (simp_all add: unat_ucast_up)
  have "base OR ?B = base + ?B"
    using B v o F D unat_lt8 [of bus] by (intro or_shifted [OF assms(2)]) simp
  moreover have "?B = word_of_nat (unat bus * 2 ^ 20 + unat d * 2 ^ 15 + unat f * 2 ^ 12 + 4 * (unat off div 4))"
  proof -
    have "unat bus * 2 ^ 20 + unat d * 2 ^ 15 + unat f * 2 ^ 12 + 4 * (unat off div 4) = unat ?B"
      using B D F o by simp
    then show ?thesis by (simp only:) simp
  qed
  ultimately show ?thesis
    by (simp add: ecam_address_def ecam_reg_def or.assoc)
qed

definition world_rest :: "('e, 'z) world_scheme \<Rightarrow> ('e, 'z) world_scheme" where
  "world_rest w = w\<lparr>env := undefined\<rparr>"

lemma world_rest_env [simp]: "world_rest (w\<lparr>env := e\<rparr>) = world_rest w"
  by (simp add: world_rest_def)

lemma ecam_config_space:
  assumes "ecam_hw base b cfg wmask" "take_bit 28 base = 0"
  shows "config_space (ecam_read32 base b) (ecam_write32 base b) (\<lambda>w. cfg (env w)) wmask world_rest (\<lambda>_. True)"
proof
  fix bus d f :: u8 and off :: u16 and v :: u32 and w :: "('a, 'b) world_scheme"
  assume valid: "cfg_valid d f off"
  have addr: "ecam_address base bus d f off = ecam_reg base (bus, d, f, unat off div 4)"
    by (rule ecam_address_eq [OF valid assms(2)])
  have k: "unat d < 32" "unat f < 8" "unat off div 4 < 64"
    using valid by (auto simp: cfg_valid_def)
  note hw = assms(1) [unfolded ecam_hw_def, rule_format, OF conjI [OF k(1) conjI [OF k(2,3)]], of bus]
  show "fst (run_state (ecam_read32 base b bus d f off) w) = cfg (env w) (bus, d, f, unat off div 4)"
    "cfg (env (snd (run_state (ecam_read32 base b bus d f off) w))) = cfg (env w)"
    "cfg_write wmask (bus, d, f, unat off div 4) v (cfg (env w)) (cfg (env (snd (run_state (ecam_write32 base b bus d f off v) w))))"
    using hw by (simp_all add: ecam_read32_def ecam_write32_def addr)
qed (simp_all add: ecam_read32_def ecam_write32_def)

section \<open>A concrete machine\<close>

text \<open>
  A machine with the registers of its configuration space behind both mechanisms; \<open>pm_address\<close> is the latch of the
  port mechanism.
\<close>

record pci_machine =
  pm_cfg :: "cfg_reg \<Rightarrow> u32"
  pm_address :: u32

definition ecam_decode :: "u64 \<Rightarrow> u64 \<Rightarrow> cfg_reg" where
  "ecam_decode base a = (let x = unat (a - base) in
     (word_of_nat (x div 2 ^ 20), word_of_nat (x div 2 ^ 15 mod 32), word_of_nat (x div 2 ^ 12 mod 8), x mod 2 ^ 12 div 4))"

definition machine_write :: "(cfg_reg \<Rightarrow> u32) \<Rightarrow> cfg_reg \<Rightarrow> u32 \<Rightarrow> pci_machine \<Rightarrow> pci_machine" where
  "machine_write wmask r v m = m\<lparr>pm_cfg := (pm_cfg m)(r := written (wmask r) (pm_cfg m r) v)\<rparr>"

definition machine_bus :: "u64 \<Rightarrow> (cfg_reg \<Rightarrow> u32) \<Rightarrow> pci_machine bus" where
  "machine_bus base wmask = idle_bus\<lparr>
     bus_read32 := \<lambda>a m. (pm_cfg m (ecam_decode base a), m),
     bus_write32 := \<lambda>a v. machine_write wmask (ecam_decode base a) v\<rparr>"

lemma ecam_decode_reg:
  assumes "unat d < 32" "unat f < 8" "k < 64"
  shows "ecam_decode base (ecam_reg base (bus, d, f, k)) = (bus, d, f, k)"
proof -
  let ?x = "unat bus * 2 ^ 20 + unat d * 2 ^ 15 + unat f * 2 ^ 12 + 4 * k"
  have "?x < 2 ^ LENGTH(64)"
    using assms unat_lt8 [of bus] by simp
  then have "unat (word_of_nat ?x :: u64) = ?x"
    by (simp only: unat_of_nat take_bit_eq_mod mod_less)
  moreover have "?x div 2 ^ 20 = unat bus" "?x div 2 ^ 15 = unat bus * 32 + unat d"
    "?x div 2 ^ 12 = (unat bus * 32 + unat d) * 8 + unat f"
    using assms by (intro div_nat_eqI; simp)+
  moreover have "?x mod 2 ^ 12 = 4 * k"
  proof -
    have "?x = 4 * k + ((unat bus * 32 + unat d) * 8 + unat f) * 2 ^ 12" by simp
    then have "?x mod 2 ^ 12 = 4 * k mod 2 ^ 12" by (simp only: mod_mult_self1)
    then show ?thesis using assms(3) by simp
  qed
  moreover have "(256 * unat bus + unat d * 8 + unat f) mod 8 = unat f"
  proof -
    have "256 * unat bus + unat d * 8 + unat f = unat f + 8 * (32 * unat bus + unat d)" by simp
    then show ?thesis using assms(2) by (simp only: mod_mult_self2) simp
  qed
  ultimately show ?thesis
    by (simp only: ecam_decode_def ecam_reg_def prod.case add_diff_cancel_left' Let_def) (simp add: assms)
qed

lemma cfg_write_machine: "cfg_write wmask r v (pm_cfg m) (pm_cfg (machine_write wmask r v m))"
  by (simp add: cfg_write_def machine_write_def)

lemma machine_ecam_hw: "ecam_hw base (machine_bus base wmask) pm_cfg wmask"
  by (simp add: ecam_hw_def machine_bus_def ecam_decode_reg cfg_write_machine)

section \<open>Rules for the accessors\<close>

text \<open>
  An access to configuration space changes the environment only. The rules say what the rest of a computation may
  assume of the environment after it; \<open>ecam_hardware\<close> is the contract of the memory-mapped mechanism.
\<close>

lemma world_rest_eq: "world_rest w' = world_rest w \<Longrightarrow> w' = w\<lparr>env := env w'\<rparr>"
  by (cases w; cases w') (simp add: world_rest_def)

lemma wp_probe_bar_size:
  assumes "config_space rd wr (\<lambda>w. cfg (env w)) wmask world_rest ok" "ok (world_rest w)"
    and "cfg_valid d f (ucast off)" "unat off div 4 \<in> {4..<10}" "r = (bus, d, f, unat off div 4)"
    and "bar_ok (wmask r) (cfg (env w) r)"
    and Q: "\<And>e. cfg e = cfg (env w) \<Longrightarrow> Q (bar_size (wmask r)) (w\<lparr>env := e\<rparr>)"
  shows "wp (probe_bar_size rd wr bus d f off) Q w"
proof -
  note p = config_space.probe [OF assms(1-4), of bus]
  let ?w = "snd (run_state (probe_bar_size rd wr bus d f off) w)"
  have "?w = w\<lparr>env := env ?w\<rparr>"
    using p(3) assms(5,6) by (intro world_rest_eq) simp
  moreover have "Q (bar_size (wmask r)) (w\<lparr>env := env ?w\<rparr>)"
    using p(2) assms(5,6) by (intro Q) simp
  ultimately show ?thesis
    using p(1) assms(5,6) by (simp add: wp_def)
qed

text \<open>The two halves of a register, as the 16-bit accessors take them.\<close>

definition half :: "u16 \<Rightarrow> u32 \<Rightarrow> u16" where
  "half offset v = ucast (drop_bit (half_shift offset) v)"

definition set_half :: "u16 \<Rightarrow> u16 \<Rightarrow> u32 \<Rightarrow> u32" where
  "set_half offset v cur = (cur AND NOT (push_bit (half_shift offset) 0xFFFF)) OR push_bit (half_shift offset) (ucast v)"

lemma ucast_and_FFFF: "(ucast ((v :: u32) AND 0xFFFF) :: u16) = ucast v"
  by (rule bit_word_eqI) (auto simp: bit_simps mask16)

locale ecam_hardware =
  fixes base :: u64
    and b :: "'e bus"
    and cfg :: "'e \<Rightarrow> cfg_reg \<Rightarrow> u32"
    and wmask :: "cfg_reg \<Rightarrow> u32"
  assumes hw: "ecam_hw base b cfg wmask"
    and base_aligned: "take_bit 28 base = 0"
begin

lemma valid_index: "cfg_valid d f off \<Longrightarrow> unat d < 32 \<and> unat f < 8 \<and> unat off div 4 < 64"
  by (auto simp: cfg_valid_def)

lemma read_addr:
  "cfg_valid d f off \<Longrightarrow> bus_read32 b (ecam_address base bus d f off) e = (cfg e (bus, d, f, unat off div 4), e)"
  using hw valid_index [of d f off] ecam_address_eq [OF _ base_aligned, of d f off bus] by (simp add: ecam_hw_def)

lemma write_addr:
  "cfg_valid d f off \<Longrightarrow>
   cfg_write wmask (bus, d, f, unat off div 4) v (cfg e) (cfg (bus_write32 b (ecam_address base bus d f off) v e))"
  using hw valid_index [of d f off] ecam_address_eq [OF _ base_aligned, of d f off bus] by (simp add: ecam_hw_def)

lemma wp_read32:
  "cfg_valid d f off \<Longrightarrow> wp (ecam_read32 base b bus d f off) Q w = Q (cfg (env w) (bus, d, f, unat off div 4)) w"
  by (simp add: ecam_read32_def wp_access read_addr)

lemma wp_read16:
  "cfg_valid d f off \<Longrightarrow> wp (ecam_read16 base b bus d f off) Q w = Q (half off (cfg (env w) (bus, d, f, unat off div 4))) w"
  by (simp add: ecam_read16_def wp_simps read_addr half_def ucast_and_FFFF)

lemma wp_write32:
  assumes "cfg_valid d f off" "r = (bus, d, f, unat off div 4)"
    and "\<And>e. cfg_write wmask r v (cfg (env w)) (cfg e) \<Longrightarrow> Q () (w\<lparr>env := e\<rparr>)"
  shows "wp (ecam_write32 base b bus d f off v) Q w"
  using assms(3) [unfolded assms(2), OF write_addr [OF assms(1)]] by (simp add: ecam_write32_def wp_simps)

lemma wp_write16:
  assumes "cfg_valid d f off" "r = (bus, d, f, unat off div 4)"
    and "\<And>e. cfg_write wmask r (set_half off v (cfg (env w) r)) (cfg (env w)) (cfg e) \<Longrightarrow> Q () (w\<lparr>env := e\<rparr>)"
  shows "wp (ecam_write16 base b bus d f off v) Q w"
  using assms(3) [unfolded assms(2), OF write_addr [OF assms(1)]]
  by (simp add: ecam_write16_def wp_simps read_addr [OF assms(1)] set_half_def)

lemma wp_probe:
  assumes "cfg_valid d f (ucast off)" "unat off div 4 \<in> {4..<10}" "r = (bus, d, f, unat off div 4)"
    and "bar_ok (wmask r) (cfg (env w) r)"
    and "\<And>e. cfg e = cfg (env w) \<Longrightarrow> Q (bar_size (wmask r)) (w\<lparr>env := e\<rparr>)"
  shows "wp (probe_bar_size (ecam_read32 base b) (ecam_write32 base b) bus d f off) Q w"
  by (rule wp_probe_bar_size [OF ecam_config_space [OF hw base_aligned] TrueI]) (use assms in auto)

end

section \<open>Sizes and addresses\<close>

text \<open>The address the allocators compute, and the numbers behind a memory BAR.\<close>

definition round_up :: "nat \<Rightarrow> nat \<Rightarrow> nat" where
  "round_up n s = (n + s - 1) div s * s"

lemma round_up:
  assumes "0 < s"
  shows "n \<le> round_up n s" "round_up n s < n + s" "s dvd round_up n s"
proof -
  have "(n + s - 1) mod s \<le> s - 1" using assms by (simp add: less_Suc_eq_le [symmetric])
  moreover have "round_up n s + (n + s - 1) mod s = n + s - 1" by (simp add: round_up_def)
  ultimately show "n \<le> round_up n s" "round_up n s < n + s" using assms by linarith+
qed (simp add: round_up_def)

lemma unat_exp: "k < LENGTH('a) \<Longrightarrow> unat (2 ^ k :: 'a::len word) = 2 ^ k"
  using unat_of_nat [where ?'a = 'a, of "2 ^ k"] by (simp add: take_bit_nat_eq_self)

lemma mem_bar_size:
  assumes "mem_bar m v"
  obtains k where "4 \<le> k" "k < 32" "m = NOT (mask k)" "bar_size m = 2 ^ k" "unat (bar_size m) = 2 ^ k"
proof -
  obtain k where k: "4 \<le> k" "k < 32" "m = NOT (mask k)"
    using assms by (auto simp: mem_bar_def)
  have "bit m 31" "\<not> bit m 0" using k by (simp_all add: bit_simps del: bit_0)
  then have "m \<noteq> 0" "m \<noteq> -1" by auto
  moreover have "- m = 2 ^ k"
    using k(3) by (simp add: minus_eq_not_plus_1 mask_eq_exp_minus_1)
  moreover have "(ucast (2 ^ k :: u32) :: u64) = 2 ^ k"
    using k(2) by (intro bit_word_eqI) (auto simp: bit_simps)
  ultimately have 1: "bar_size m = 2 ^ k" by (simp add: bar_size_def)
  moreover have "(2 :: nat) ^ k < 2 ^ 64" using k(2) by (intro power_strict_increasing) auto
  ultimately have "unat (bar_size m) = 2 ^ k"
    using unat_exp [of k, where ?'a = 64] k(2) by simp
  with k 1 that show ?thesis by blast
qed

lemma align_word:
  assumes "unat n + 2 ^ k < 2 ^ 64" "k < 64"
  shows "unat ((n + (2 ^ k - 1)) AND NOT (2 ^ k - 1 :: u64)) = round_up (unat n) (2 ^ k)"
proof -
  let ?x = "n + (2 ^ k - 1)"
  have p: "unat (2 ^ k - 1 :: u64) = 2 ^ k - 1"
    using unat_exp [of k, where ?'a = 64] assms(2) by (simp add: unat_sub word_le_nat_alt)
  have x: "unat ?x = unat n + 2 ^ k - 1"
    using assms(1) by (simp add: unat_word_ariths p)
  have "?x AND NOT (2 ^ k - 1) = push_bit k (drop_bit k ?x) OR 0"
    by (intro bit_word_eqI) (auto simp: bit_simps mask_eq_exp_minus_1 [symmetric])
  moreover have "unat ?x div 2 ^ k * 2 ^ k < 2 ^ 64"
    by (rule le_less_trans [OF div_times_less_eq_dividend]) (use unat_lt64 [of ?x] in simp)
  ultimately have "unat (?x AND NOT (2 ^ k - 1)) = unat ?x div 2 ^ k * 2 ^ k"
    using unat_push_or [of "0 :: u64" k "drop_bit k ?x"] by (simp add: unat_shr)
  then show ?thesis by (simp add: x round_up_def)
qed

text \<open>The value written to a memory BAR for the address \<open>a\<close>, and what the BAR holds afterwards.\<close>

definition granted :: "nat \<Rightarrow> u32 \<Rightarrow> u32" where
  "granted a v = word_of_nat a OR (v AND 0xF)"

lemma dvd_low_bits:
  assumes "2 ^ k dvd a" "i < k"
  shows "\<not> bit (word_of_nat a :: 'a::len word) i"
proof -
  have "bit a i = bit (take_bit k a) i" using assms(2) by (simp add: bit_take_bit_iff)
  then show ?thesis using assms(1) by (simp add: take_bit_eq_mod bit_of_nat_iff)
qed

lemma granted_bits:
  assumes "2 ^ k dvd a" "4 \<le> k" "k \<le> 32"
  shows "i < k \<Longrightarrow> bit (granted a v) i \<longleftrightarrow> i < 4 \<and> bit v i"
    and "\<not> i < k \<Longrightarrow> bit (granted a v) i \<longleftrightarrow> bit (word_of_nat a :: u32) i"
proof -
  have "\<not> bit (word_of_nat a :: u32) i" if "i < k"
    by (rule dvd_low_bits [OF assms(1) that])
  then show "i < k \<Longrightarrow> bit (granted a v) i \<longleftrightarrow> i < 4 \<and> bit v i"
    by (auto simp: granted_def bit_simps mask4 bit_beyond)
  show "\<not> i < k \<Longrightarrow> bit (granted a v) i \<longleftrightarrow> bit (word_of_nat a :: u32) i"
    using assms(2) by (auto simp: granted_def bit_simps mask4)
qed

lemma granted_held:
  assumes "mem_bar m v" "unat (bar_size m) dvd a" "a < 2 ^ 32"
  shows "written m v (granted a v) = granted a v"
    and "unat (granted a v AND 0xFFFFFFF0) = a"
    and "granted a v AND 1 = 0"
proof -
  from assms(1) obtain k where k: "4 \<le> k" "k < 32" "m = NOT (mask k)" "unat (bar_size m) = 2 ^ k"
    by (rule mem_bar_size) blast
  have v: "v AND mask k AND NOT (mask 4) = 0" "v AND 1 = 0"
    using assms(1) k(3) by (simp_all add: mem_bar_def bar_literals)
  have low: "\<not> bit v i" if "4 \<le> i" "i < k" for i
  proof -
    have "\<not> bit (v AND mask k AND NOT (mask 4)) i" by (simp add: v)
    then show ?thesis using that k(2) by (simp add: bit_simps)
  qed
  have a: "2 ^ k dvd a" using assms(2) k(4) by simp
  note bits = granted_bits [OF a k(1) less_imp_le [OF k(2)]]
  have a0: "\<not> bit (word_of_nat a :: u32) i" if "i < k" for i
    by (rule dvd_low_bits [OF a that])
  show "written m v (granted a v) = granted a v"
  proof (rule bit_word_eqI)
    fix i assume "i < LENGTH(32)"
    then show "bit (written m v (granted a v)) i = bit (granted a v) i"
      using bits [of i v] low [of i] by (cases "i < k") (auto simp: written_def k(3) bit_simps)
  qed
  have "granted a v AND NOT (mask 4) = word_of_nat a"
  proof (rule bit_word_eqI)
    fix i assume "i < LENGTH(32)"
    then show "bit (granted a v AND NOT (mask 4)) i = bit (word_of_nat a :: u32) i"
      using bits [of i v] a0 [of i] k(1) by (cases "i < k") (auto simp: bit_simps)
  qed
  then show "unat (granted a v AND 0xFFFFFFF0) = a"
    using assms(3) by (simp add: bar_literals unat_of_nat take_bit_nat_eq_self)
  show "granted a v AND 1 = 0"
    using bits(1) [of 0 v] v(2) k(1) by (simp add: and_1_bit del: bit_0)
qed

section \<open>The functions of the scan\<close>

text \<open>The pairs of bus and device number that the two nested loops of each target run through, function 0 of each.\<close>

definition pci_functions :: "nat \<Rightarrow> nat \<Rightarrow> (u8 \<times> u8) list" where
  "pci_functions buses devices = concat (map (\<lambda>bus. map (\<lambda>dev. (word_of_nat bus, word_of_nat dev)) [0..<devices]) [0..<buses])"

lemma pci_functions_eq:
  "pci_functions buses devices = map (\<lambda>(bus, dev). (word_of_nat bus, word_of_nat dev)) (List.product [0..<buses] [0..<devices])"
  by (simp add: pci_functions_def product_concat_map map_concat comp_def)

lemma word_of_nat_inj8: "a < 256 \<Longrightarrow> b < 256 \<Longrightarrow> (word_of_nat a :: u8) = word_of_nat b \<Longrightarrow> a = b"
  by (drule arg_cong [where f = unat]) (simp add: unat_of_nat take_bit_eq_mod)

lemma pci_functions_distinct:
  assumes "buses \<le> 256" "devices \<le> 256"
  shows "distinct (pci_functions buses devices)"
proof -
  have "inj_on (\<lambda>(bus, dev). (word_of_nat bus :: u8, word_of_nat dev :: u8)) (set (List.product [0..<buses] [0..<devices]))"
    using assms by (auto simp: inj_on_def intro!: word_of_nat_inj8)
  then show ?thesis by (simp add: pci_functions_eq distinct_map distinct_product)
qed

lemma pci_functions_dev: "(bus, dev) \<in> set (pci_functions 2 32) \<Longrightarrow> unat dev < 32 \<and> unat bus < 2"
  by (auto simp: pci_functions_eq unat_of_nat take_bit_eq_mod)

definition fn_vendor :: "(cfg_reg \<Rightarrow> u32) \<Rightarrow> u8 \<times> u8 \<Rightarrow> u16" where
  "fn_vendor c f = half PCI_VENDOR_ID_OFFSET (c (fst f, snd f, 0, 0))"

definition fn_present :: "(cfg_reg \<Rightarrow> u32) \<Rightarrow> u8 \<times> u8 \<Rightarrow> bool" where
  "fn_present c f \<longleftrightarrow> fn_vendor c f \<notin> {0, 0xFFFF}"

text \<open>The BARs of a device: register \<open>4 + i\<close> of function 0.\<close>

abbreviation bar_reg :: "u8 \<Rightarrow> u8 \<Rightarrow> nat \<Rightarrow> cfg_reg" where
  "bar_reg bus dev i \<equiv> (bus, dev, 0, 4 + i)"

lemma bar_offsets:
  "unat (ucast PCI_BAR0_OFFSET :: u8) div 4 = 4 + 0" "unat (ucast PCI_BAR1_OFFSET :: u8) div 4 = 4 + 1"
  "unat (ucast PCI_BAR4_OFFSET :: u8) div 4 = 4 + 4"
  by (simp_all add: pci_offset_defs)

end
