(* ===== verification/Pci_Riscv.thy ===== *)
theory Pci_Riscv
  imports Pci_Config
begin

text \<open>
  Device discovery on RISC-V, \<^verbatim>\<open>kernel/devices/devices_riscv.c\<close>: the scan of configuration space through the
  memory-mapped mechanism, the allocator of memory regions for the BARs, and the devices of the flattened device
  tree. The static variables and the devices handed to the callback (in order) extend the world.
\<close>

record 'e riscv_world = "'e world" +
  next_mmio_address :: u64
  next_mmio_device_num :: u8
  pci_log :: "nat option"
  reported :: "device list"

definition PCIE_ECAM_BASE :: u64 where "PCIE_ECAM_BASE = 0x30000000"
definition PCI_MMIO_BASE :: u64 where "PCI_MMIO_BASE = 0x40000000"
definition PCI_MMIO_SIZE :: u64 where "PCI_MMIO_SIZE = 0x10000000"
definition PCI_BAR_IO_FLAG :: u32 where "PCI_BAR_IO_FLAG = 0x1"
definition PCI_BAR_MEM_MASK :: u32 where "PCI_BAR_MEM_MASK = 0xFFFFFFF0"
definition PCI_BAR_IO_MASK :: u32 where "PCI_BAR_IO_MASK = 0xFFFFFFFC"
definition PCI_VIRTIO_VENDOR_ID :: u16 where "PCI_VIRTIO_VENDOR_ID = 0x1AF4"
definition PCI_MAX_BUSES :: nat where "PCI_MAX_BUSES = 2"
definition PCI_MAX_DEVICES :: nat where "PCI_MAX_DEVICES = 32"
definition PCI_MAX_BARS :: nat where "PCI_MAX_BARS = 6"


section \<open>Configuration space\<close>

definition pcie_ecam_address :: "u8 \<Rightarrow> u8 \<Rightarrow> u8 \<Rightarrow> u16 \<Rightarrow> u64" where
  "pcie_ecam_address = ecam_address PCIE_ECAM_BASE"

definition pcie_ecam_read16 :: "'e bus \<Rightarrow> (('e, 'z) world_scheme, u16) cfg_access" where
  "pcie_ecam_read16 = ecam_read16 PCIE_ECAM_BASE"

definition pcie_ecam_read32 :: "'e bus \<Rightarrow> (('e, 'z) world_scheme, u32) cfg_access" where
  "pcie_ecam_read32 = ecam_read32 PCIE_ECAM_BASE"

definition pcie_ecam_write32 :: "'e bus \<Rightarrow> u8 \<Rightarrow> u8 \<Rightarrow> u8 \<Rightarrow> u16 \<Rightarrow> u32 \<Rightarrow> (('e, 'z) world_scheme, unit) state" where
  "pcie_ecam_write32 = ecam_write32 PCIE_ECAM_BASE"

definition pcie_ecam_write16 :: "'e bus \<Rightarrow> u8 \<Rightarrow> u8 \<Rightarrow> u8 \<Rightarrow> u16 \<Rightarrow> u16 \<Rightarrow> (('e, 'z) world_scheme, unit) state" where
  "pcie_ecam_write16 b bus device fn offset v = do {
     let addr = pcie_ecam_address bus device fn (offset AND NOT 0x3);
     current \<leftarrow> mem_read32 b addr;
     let m = NOT (push_bit (half_shift offset) 0xFFFF);
     mem_write32 b addr ((current AND m) OR push_bit (half_shift offset) (ucast v)) }"

definition pci_probe_bar_size :: "'e bus \<Rightarrow> u8 \<Rightarrow> u8 \<Rightarrow> u8 \<Rightarrow> u8 \<Rightarrow> (('e, 'z) world_scheme, u64) state" where
  "pci_probe_bar_size b = probe_bar_size (pcie_ecam_read32 b) (pcie_ecam_write32 b)"

definition pci_assign_bar_if_needed ::
  "'e bus \<Rightarrow> u8 \<Rightarrow> u8 \<Rightarrow> u8 \<Rightarrow> u8 \<Rightarrow> u64 \<Rightarrow> (('e, 'z) riscv_world_scheme, u32) state" where
  "pci_assign_bar_if_needed b bus device fn bar_offset sz = do {
     bar_value \<leftarrow> pcie_ecam_read32 b bus device fn (ucast bar_offset);
     next_mmio \<leftarrow> gets next_mmio_address;
     if bar_value AND 0x1 \<noteq> 0 then State_Monad.return bar_value
     else if sz = 0 then State_Monad.return bar_value
     else if next_mmio + sz > PCI_MMIO_BASE + PCI_MMIO_SIZE then State_Monad.return bar_value
     else do {
       let aligned_address = (next_mmio + (sz - 1)) AND NOT (sz - 1);
       if aligned_address + sz > PCI_MMIO_BASE + PCI_MMIO_SIZE then State_Monad.return bar_value
       else do {
         let new_bar = ucast aligned_address OR (bar_value AND 0xF);
         pcie_ecam_write32 b bus device fn (ucast bar_offset) new_bar;
         modify (next_mmio_address_update (\<lambda>_. aligned_address + sz));
         State_Monad.return new_bar } } }"

definition pci_detect_ecam :: "'e bus \<Rightarrow> (('e, 'z) world_scheme, bool) state" where
  "pci_detect_ecam b = do {
     test_value \<leftarrow> mem_read32 b PCIE_ECAM_BASE;
     let vendor = (ucast (test_value AND 0xFFFF) :: u16);
     State_Monad.return (vendor \<noteq> 0x0000 \<and> vendor \<noteq> 0xFFFF) }"

definition pci_vendor_is_valid :: "u16 \<Rightarrow> bool" where
  "pci_vendor_is_valid vendor \<longleftrightarrow> vendor \<noteq> 0x0000 \<and> vendor \<noteq> 0xFFFF"

definition pci_bar_is_implemented :: "u32 \<Rightarrow> bool" where
  "pci_bar_is_implemented bar_value \<longleftrightarrow> bar_value \<noteq> 0"

definition pci_bar_is_io :: "u32 \<Rightarrow> bool" where
  "pci_bar_is_io bar_value \<longleftrightarrow> bar_value AND PCI_BAR_IO_FLAG \<noteq> 0"

definition pci_bar_get_address :: "u32 \<Rightarrow> u64" where
  "pci_bar_get_address bar_value =
     (if pci_bar_is_io bar_value then ucast (bar_value AND PCI_BAR_IO_MASK) else ucast (bar_value AND PCI_BAR_MEM_MASK))"

section \<open>Output\<close>

definition pci_bar_get_type_string :: "u32 \<Rightarrow> string" where
  "pci_bar_get_type_string bar_value = (if pci_bar_is_io bar_value then '' (I/O)'' else '' (MEM)'')"

definition pci_print_device_header :: "u16 \<Rightarrow> u16 \<Rightarrow> u8 \<Rightarrow> u8 \<Rightarrow> (('e, 'z) world_scheme, unit) state" where
  "pci_print_device_header vendor devid bus dev = print (
     ''[PCI] Device '' @ put_hex16 vendor @ '':'' @ put_hex16 devid @ '' at bus='' @ put_hex8 bus @ '' dev='' @
     put_hex8 dev @ [CHR 0x0A])"

definition pci_print_bar_info :: "u8 \<Rightarrow> u32 \<Rightarrow> u64 \<Rightarrow> (('e, 'z) world_scheme, unit) state" where
  "pci_print_bar_info bar_index bar_value sz = print (
     ''  BAR'' @ put_hex8 bar_index @ ''=0x'' @ put_hex32 bar_value @ pci_bar_get_type_string bar_value @
     '' size=0x'' @ put_hex64 sz @ [CHR 0x0A])"

definition pci_print_selected_bar :: "string \<Rightarrow> u64 \<Rightarrow> u32 \<Rightarrow> u64 \<Rightarrow> (('e, 'z) world_scheme, unit) state" where
  "pci_print_selected_bar bar_name base_address original_bar sz = print (
     ''  '' @ bar_name @ '' reg_base=0x'' @ put_hex64 base_address @ '' ('' @ bar_name @ ''=0x'' @
     put_hex32 original_bar @ '' masked), size=0x'' @ put_hex64 sz @ [CHR 0x0A])"

section \<open>The scan\<close>

record pci_bar_info =
  bi_value :: u32
  bi_size :: u64
  bi_index :: u8

definition pci_read_bar :: "'e bus \<Rightarrow> u8 \<Rightarrow> u8 \<Rightarrow> u8 \<Rightarrow> (('e, 'z) world_scheme, pci_bar_info) state" where
  "pci_read_bar b bus dev bar_index = do {
     let bar_offset = PCI_BAR0_OFFSET + ucast bar_index * 4;
     sz \<leftarrow> pci_probe_bar_size b bus dev 0 (ucast bar_offset);
     v \<leftarrow> pcie_ecam_read32 b bus dev 0 bar_offset;
     State_Monad.return \<lparr>bi_value = v, bi_size = sz, bi_index = bar_index\<rparr> }"

definition pci_print_all_bars :: "'e bus \<Rightarrow> u8 \<Rightarrow> u8 \<Rightarrow> (('e, 'z) world_scheme, unit) state" where
  "pci_print_all_bars b bus dev = for_each (map word_of_nat [0..<PCI_MAX_BARS]) (\<lambda>bar_index. do {
     info \<leftarrow> pci_read_bar b bus dev bar_index;
     if \<not> pci_bar_is_implemented (bi_value info) then State_Monad.return ()
     else pci_print_bar_info (bi_index info) (bi_value info) (bi_size info) })"

definition pci_is_virtio_with_io_bar :: "u16 \<Rightarrow> u32 \<Rightarrow> bool" where
  "pci_is_virtio_with_io_bar vendor bar0_value \<longleftrightarrow> vendor = PCI_VIRTIO_VENDOR_ID \<and> pci_bar_is_io bar0_value"

text \<open>The result is the base address and the size of \<^verbatim>\<open>pci_selected_bar_t\<close>.\<close>

definition pci_select_bar_for_device ::
  "u16 \<Rightarrow> pci_bar_info \<Rightarrow> pci_bar_info \<Rightarrow> pci_bar_info \<Rightarrow> (('e, 'z) world_scheme, u64 \<times> u64) state" where
  "pci_select_bar_for_device vendor bar0 bar1 bar4 =
     (if pci_is_virtio_with_io_bar vendor (bi_value bar0) then do {
        print (''  VirtIO device detected, using BAR4 for MMIO'' @ [CHR 0x0A]);
        pci_print_selected_bar ''BAR4'' (pci_bar_get_address (bi_value bar4)) (bi_value bar4) (bi_size bar4);
        State_Monad.return (pci_bar_get_address (bi_value bar4), bi_size bar4) }
      else if pci_bar_is_io (bi_value bar0) \<and> bi_size bar1 > 0 \<and> \<not> pci_bar_is_io (bi_value bar1) then do {
        print (''  BAR0 is I/O, using BAR1 for MMIO'' @ [CHR 0x0A]);
        pci_print_selected_bar ''BAR1'' (pci_bar_get_address (bi_value bar1)) (bi_value bar1) (bi_size bar1);
        State_Monad.return (pci_bar_get_address (bi_value bar1), bi_size bar1) }
      else do {
        pci_print_selected_bar ''BAR0'' (pci_bar_get_address (bi_value bar0)) (bi_value bar0) (bi_size bar0);
        State_Monad.return (pci_bar_get_address (bi_value bar0), bi_size bar0) })"

definition pci_create_device_info :: "u8 \<Rightarrow> u8 \<Rightarrow> u16 \<Rightarrow> u16 \<Rightarrow> u64 \<Rightarrow> u64 \<Rightarrow> device" where
  "pci_create_device_info bus dev vendor devid base sz = zero_device\<lparr>
     dev_compatible := None, dev_name := None, reg_base := base, reg_size := sz, vendor_id := vendor, device_id := devid,
     dev_bus := bus, device_num := dev, dev_function := 0, dev_driver := None, dev_state := DEVICE_STATE_DISCOVERED,
     mmio_virt := 0, dev_parent := None, first_child := None, next_sibling := None, dev_depth := 0, dev_next := None\<rparr>"

definition assign_bar :: "'e bus \<Rightarrow> u8 \<Rightarrow> u8 \<Rightarrow> u16 \<Rightarrow> pci_bar_info \<Rightarrow> (('e, 'z) riscv_world_scheme, pci_bar_info) state" where
  "assign_bar b bus dev offset bar =
     (if bi_size bar > 0 then do {
        v \<leftarrow> pci_assign_bar_if_needed b bus dev 0 (ucast offset) (bi_size bar);
        State_Monad.return (bar\<lparr>bi_value := v\<rparr>) }
      else State_Monad.return bar)"

definition pci_process_device :: "'e bus \<Rightarrow> bool \<Rightarrow> u8 \<Rightarrow> u8 \<Rightarrow> int \<Rightarrow> (('e, 'z) riscv_world_scheme, int) state" where
  "pci_process_device b callback bus dev device_count = do {
     vendor \<leftarrow> pcie_ecam_read16 b bus dev 0 PCI_VENDOR_ID_OFFSET;
     if \<not> pci_vendor_is_valid vendor then State_Monad.return device_count
     else do {
       devid \<leftarrow> pcie_ecam_read16 b bus dev 0 PCI_DEVICE_ID_OFFSET;
       pci_print_device_header vendor devid bus dev;
       bar0 \<leftarrow> pci_read_bar b bus dev 0;
       bar1 \<leftarrow> pci_read_bar b bus dev 1;
       bar4 \<leftarrow> pci_read_bar b bus dev 4;
       bar0 \<leftarrow> assign_bar b bus dev PCI_BAR0_OFFSET bar0;
       bar1 \<leftarrow> assign_bar b bus dev PCI_BAR1_OFFSET bar1;
       bar4 \<leftarrow> assign_bar b bus dev PCI_BAR4_OFFSET bar4;
       pci_print_all_bars b bus dev;
       (base_address, sz) \<leftarrow> pci_select_bar_for_device vendor bar0 bar1 bar4;
       cmd \<leftarrow> pcie_ecam_read16 b bus dev 0 PCI_COMMAND_OFFSET;
       pcie_ecam_write16 b bus dev 0 PCI_COMMAND_OFFSET (cmd OR (PCI_COMMAND_MEMORY OR PCI_COMMAND_MASTER));
       let device_info = pci_create_device_info bus dev vendor devid base_address sz;
       modify (reported_update (\<lambda>rs. if callback then rs @ [device_info] else rs));
       State_Monad.return (device_count + 1) } }"

definition pcie_enumerate_devices :: "'e bus \<Rightarrow> bool \<Rightarrow> (('e, 'z) riscv_world_scheme, int) state" where
  "pcie_enumerate_devices b callback =
     for_fold (pci_functions PCI_MAX_BUSES PCI_MAX_DEVICES) (\<lambda>(bus, dev). pci_process_device b callback bus dev) 0"

section \<open>The device tree\<close>

definition probe_virtio_callback :: "'e bus \<Rightarrow> bool \<Rightarrow> device \<Rightarrow> (('e, 'z) riscv_world_scheme, unit) state" where
  "probe_virtio_callback b user_callback device =
     (if (case dev_compatible device of None \<Rightarrow> True | Some c \<Rightarrow> strcmp c ''virtio,mmio'' \<noteq> 0)
      then modify (reported_update (\<lambda>rs. if user_callback then rs @ [device] else rs))
      else do {
        r \<leftarrow> virtio_mmio_probe_device b (Some device);
        (case r of
           None \<Rightarrow> State_Monad.return ()
         | Some mutable_device \<Rightarrow> do {
             n \<leftarrow> gets next_mmio_device_num;
             modify (next_mmio_device_num_update (\<lambda>_. n + 1));
             let mutable_device = mutable_device\<lparr>dev_bus := 0, device_num := n\<rparr>;
             modify (reported_update (\<lambda>rs. if user_callback then rs @ [mutable_device] else rs)) }) })"

text \<open>
  \<open>fdt\<close> is the memory at the address of \<^verbatim>\<open>device_get_fdt\<close> (\<open>None\<close>: the address is 0). The tree parser
  touches no hardware, so its result does not depend on when the callback runs: \<open>discover_devices\<close> is the function
  with the devices and the count that the parser delivers. There is no value when the parser reads outside that memory.
\<close>

definition discover_devices :: "'e bus \<Rightarrow> device list \<Rightarrow> int \<Rightarrow> bool \<Rightarrow> (('e, 'z) riscv_world_scheme, int) state" where
  "discover_devices b tree tree_count callback = do {
     tag \<leftarrow> gets pci_log;
     lg \<leftarrow> gets logger;
     let (tag, lg) = (case tag of None \<Rightarrow> log_register lg ''pci'' LOG_INFO | Some t \<Rightarrow> (Some t, lg));
     modify (\<lambda>w. w\<lparr>logger := lg, pci_log := tag\<rparr>);
     ecam \<leftarrow> pci_detect_ecam b;
     total_devices \<leftarrow> (if ecam then do {
         (if log_enabled (log_deref lg tag) LOG_DEBUG
          then print (log_prefix (log_deref lg tag) LOG_DEBUG @ ''Using PCIe ECAM at 0x'' @ put_hex64 PCIE_ECAM_BASE @ [CHR 0x0A])
          else State_Monad.return ());
         pcie_enumerate_devices b callback }
       else State_Monad.return 0);
     for_each tree (probe_virtio_callback b callback);
     State_Monad.return (total_devices + tree_count) }"


definition devices_find :: "string option \<Rightarrow> int" where
  "devices_find compatible = 0"

definition devices_get_name :: "u16 \<Rightarrow> u16 \<Rightarrow> string option" where
  "devices_get_name vendor devid = None"

section \<open>The accessors\<close>

lemma riscv_base: "take_bit 28 PCIE_ECAM_BASE = 0"
  by (simp add: PCIE_ECAM_BASE_def)

locale riscv_hardware = ecam_hardware PCIE_ECAM_BASE b cfg wmask
  for b :: "'e bus" and cfg :: "'e \<Rightarrow> cfg_reg \<Rightarrow> u32" and wmask :: "cfg_reg \<Rightarrow> u32"

lemma riscv_hardwareI: "ecam_hw PCIE_ECAM_BASE b cfg wmask \<Longrightarrow> riscv_hardware b cfg wmask"
  by unfold_locales (simp_all add: riscv_base)

lemma riscv_write16_eq: "pcie_ecam_write16 b bus d f off v = ecam_write16 PCIE_ECAM_BASE b bus d f off v"
proof -
  have "(off AND NOT 3) AND 0xFFC = off AND 0xFFC"
    by (rule bits16) (simp add: bit_simps)
  then have "pcie_ecam_address bus d f (off AND NOT 3) = ecam_address PCIE_ECAM_BASE bus d f off"
    by (simp only: pcie_ecam_address_def ecam_address_def)
  then show ?thesis
    by (simp add: pcie_ecam_write16_def ecam_write16_def Let_def)
qed

definition MMIO_LIMIT :: nat where
  "MMIO_LIMIT = 0x50000000"

context riscv_hardware
begin

lemma bar_index:
  assumes "i < 6" "bi = word_of_nat i"
  shows "unat (ucast (PCI_BAR0_OFFSET + ucast (bi :: u8) * 4) :: u8) div 4 = 4 + i"
    and "unat (PCI_BAR0_OFFSET + ucast bi * 4) div 4 = 4 + i"
    and "unat (PCI_BAR0_OFFSET + ucast bi * 4) < 256"
    and "ucast (ucast (PCI_BAR0_OFFSET + ucast bi * 4) :: u8) = PCI_BAR0_OFFSET + ucast bi * 4"
proof -
  have "i \<in> {0, 1, 2, 3, 4, 5}" using assms(1) by auto
  then show "unat (ucast (PCI_BAR0_OFFSET + ucast (bi :: u8) * 4) :: u8) div 4 = 4 + i"
    "unat (PCI_BAR0_OFFSET + ucast bi * 4) div 4 = 4 + i" "unat (PCI_BAR0_OFFSET + ucast bi * 4) < 256"
    "ucast (ucast (PCI_BAR0_OFFSET + ucast bi * 4) :: u8) = PCI_BAR0_OFFSET + ucast bi * 4"
    by (auto simp: assms(2) PCI_BAR0_OFFSET_def)
qed

lemma wp_read_bar:
  assumes "unat dev < 32" "i < 6" "bi = word_of_nat i" "r = bar_reg bus dev i"
    and "bar_ok (wmask r) (cfg (env w) r)"
    and "\<And>e. cfg e = cfg (env w) \<Longrightarrow>
      Q \<lparr>bi_value = cfg (env w) r, bi_size = bar_size (wmask r), bi_index = bi\<rparr> (w\<lparr>env := e\<rparr>)"
  shows "wp (pci_read_bar b bus dev bi) Q w"
proof -
  note ix = bar_index [OF assms(2,3)]
  have v: "cfg_valid dev 0 (PCI_BAR0_OFFSET + ucast bi * 4)"
    using assms(1) ix(3) by (simp add: cfg_valid_def)
  show ?thesis
    unfolding pci_read_bar_def Let_def wp_bind pci_probe_bar_size_def pcie_ecam_read32_def pcie_ecam_write32_def
  proof (rule wp_probe [where r = r])
    fix e assume "cfg e = cfg (env w)"
    then show "wp (ecam_read32 PCIE_ECAM_BASE b bus dev 0 (PCI_BAR0_OFFSET + ucast bi * 4))
      (\<lambda>a. wp (State_Monad.return \<lparr>bi_value = a, bi_size = bar_size (wmask r), bi_index = bi\<rparr>) Q) (w\<lparr>env := e\<rparr>)"
      using assms(6) by (simp add: wp_read32 [OF v] wp_return ix assms(4))
  qed (use assms v ix in simp_all)
qed

lemma wp_print_all_bars:
  assumes "unat dev < 32" "\<And>i. i < 6 \<Longrightarrow> bar_ok (wmask (bar_reg bus dev i)) (cfg (env w) (bar_reg bus dev i))"
    and "\<And>e c. cfg e = cfg (env w) \<Longrightarrow> Q () (w\<lparr>env := e, console := c\<rparr>)"
  shows "wp (pci_print_all_bars b bus dev) Q w"
proof -
  let ?I = "\<lambda>w'. w' = w\<lparr>env := env w', console := console w'\<rparr> \<and> cfg (env w') = cfg (env w)"
  have "wp (pci_print_all_bars b bus dev) (\<lambda>_. ?I) w"
    unfolding pci_print_all_bars_def
  proof (rule wp_for_each)
    fix bi :: u8 and w' assume "bi \<in> set (map word_of_nat [0..<PCI_MAX_BARS])" and w': "?I w'"
    then obtain i where i: "i < 6" "bi = word_of_nat i" by (auto simp: PCI_MAX_BARS_def)
    show "wp (do {
       info \<leftarrow> pci_read_bar b bus dev bi;
       if \<not> pci_bar_is_implemented (bi_value info) then State_Monad.return ()
       else pci_print_bar_info (bi_index info) (bi_value info) (bi_size info) }) (\<lambda>_. ?I) w'"
      unfolding wp_bind
    proof (rule wp_read_bar [OF assms(1) i refl])
      fix e assume e: "cfg e = cfg (env w')"
      have "w'\<lparr>env := e\<rparr> = w\<lparr>env := e, console := console w'\<rparr>"
        by (subst conjunct1 [OF w']) simp
      with e w' show "wp
        (if \<not> pci_bar_is_implemented (bi_value \<lparr>bi_value = cfg (env w') (bar_reg bus dev i), bi_size = bar_size (wmask (bar_reg bus dev i)), bi_index = bi\<rparr>)
         then State_Monad.return ()
         else pci_print_bar_info (bi_index \<lparr>bi_value = cfg (env w') (bar_reg bus dev i), bi_size = bar_size (wmask (bar_reg bus dev i)), bi_index = bi\<rparr>)
           (bi_value \<lparr>bi_value = cfg (env w') (bar_reg bus dev i), bi_size = bar_size (wmask (bar_reg bus dev i)), bi_index = bi\<rparr>)
           (bi_size \<lparr>bi_value = cfg (env w') (bar_reg bus dev i), bi_size = bar_size (wmask (bar_reg bus dev i)), bi_index = bi\<rparr>))
        (\<lambda>_. ?I) (w'\<lparr>env := e\<rparr>)"
        by (simp add: wp_simps pci_print_bar_info_def)
    qed (use assms(2) i w' in simp)
  qed simp
  then show ?thesis
  proof (rule wp_mono)
    fix a :: unit and w' assume "?I w'"
    then show "Q a w'" using assms(3) [of "env w'" "console w'"] by (cases a) simp
  qed
qed

lemma bar_ok_mem: "bar_ok m v \<Longrightarrow> v AND 1 = 0 \<Longrightarrow> bar_size m \<noteq> 0 \<Longrightarrow> mem_bar m v"
  by (auto simp: bar_ok_def bar_size_def io_bar_def and_1_bit simp del: bit_0) (metis bit_1_0 bit_and_iff)

lemma wp_assign:
  assumes "unat dev < 32" "i < 6" "unat off div 4 = 4 + i" "r = bar_reg bus dev i"
    and "bar_ok (wmask r) v" "v = cfg (env w) r" "sz = bar_size (wmask r)"
    and "n = unat (next_mmio_address w)" "n \<le> MMIO_LIMIT" "s = unat sz"
    and skip: "\<not> (mem_bar (wmask r) v \<and> round_up n s + s \<le> MMIO_LIMIT) \<Longrightarrow> Q v w"
    and grant: "\<And>e. mem_bar (wmask r) v \<Longrightarrow> round_up n s + s \<le> MMIO_LIMIT \<Longrightarrow>
      cfg e = (cfg (env w))(r := granted (round_up n s) v) \<Longrightarrow>
      Q (granted (round_up n s) v) (w\<lparr>env := e, next_mmio_address := word_of_nat (round_up n s + s)\<rparr>)"
  shows "wp (pci_assign_bar_if_needed b bus dev 0 off sz) Q (w :: ('e, 'z) riscv_world_scheme)"
proof -
  have o: "unat (ucast off :: u16) div 4 = 4 + i" using assms(3) by (simp add: unat_ucast_up)
  have valid: "cfg_valid dev 0 (ucast off)"
    using assms(1) unat_lt8 [of off] by (simp add: cfg_valid_def unat_ucast_up)
  have rd: "wp (pcie_ecam_read32 b bus dev 0 (ucast off)) R w = R v w" for R
    using assms(4,6) o by (simp add: pcie_ecam_read32_def wp_read32 [OF valid])
  show ?thesis
  proof (cases "mem_bar (wmask r) v")
    case False
    then have "v AND 1 \<noteq> 0 \<or> sz = 0" using bar_ok_mem assms(5,7) by blast
    with skip False show ?thesis
      by (auto simp: pci_assign_bar_if_needed_def wp_simps rd)
  next
    case True
    then obtain k where k: "4 \<le> k" "k < 32" "wmask r = NOT (mask k)" "sz = 2 ^ k" "s = 2 ^ k"
      using assms(7,10) by (metis mem_bar_size)
    have v: "v AND 1 = 0" using True by (simp add: mem_bar_def)
    have s: "s \<le> 2 ^ 31" "0 < s" using k power_increasing [of k 31 "2 :: nat"] by simp_all
    have lim: "unat (PCI_MMIO_BASE + PCI_MMIO_SIZE) = MMIO_LIMIT"
      by (simp add: PCI_MMIO_BASE_def PCI_MMIO_SIZE_def MMIO_LIMIT_def)
    have n: "n \<le> 0x50000000" using assms(9) by (simp add: MMIO_LIMIT_def)
    define a where "a = (next_mmio_address w + (sz - 1)) AND NOT (sz - 1)"
    have a: "unat a = round_up n s"
      using align_word [of "next_mmio_address w" k] n s k assms(8) by (simp add: a_def)
    have sz: "sz \<noteq> 0" using s(2) assms(10) by auto
    note ru = round_up [OF s(2), of n]
    have b1: "unat (next_mmio_address w + sz) = n + s"
      using n s assms(8,10) by (simp add: unat_word_ariths)
    have b2: "unat (a + sz) = round_up n s + s"
      using n s ru assms(10) by (simp add: unat_word_ariths a)
    have gt1: "next_mmio_address w + sz > PCI_MMIO_BASE + PCI_MMIO_SIZE \<longleftrightarrow> n + s > MMIO_LIMIT"
      by (simp only: word_less_nat_alt b1 lim)
    have gt2: "a + sz > PCI_MMIO_BASE + PCI_MMIO_SIZE \<longleftrightarrow> round_up n s + s > MMIO_LIMIT"
      by (simp only: word_less_nat_alt b2 lim)
    show ?thesis
    proof (cases "round_up n s + s \<le> MMIO_LIMIT")
      case fits: True
      have fin: "(ucast a :: u32) OR (v AND 0xF) = granted (round_up n s) v"
        by (simp add: granted_def flip: a) 
      have eq: "a + sz = word_of_nat (round_up n s + s)"
        by (simp flip: b2) 
      have "wp (pcie_ecam_write32 b bus dev 0 (ucast off) (granted (round_up n s) v))
        (\<lambda>_. wp (modify (next_mmio_address_update (\<lambda>_. a + sz)))
           (\<lambda>_. wp (State_Monad.return (granted (round_up n s) v)) Q)) w"
        unfolding pcie_ecam_write32_def
      proof (rule wp_write32 [where r = r])
        fix e assume e: "cfg_write wmask r (granted (round_up n s) v) (cfg (env w)) (cfg e)"
        have "written (wmask r) v (granted (round_up n s) v) = granted (round_up n s) v"
          using True ru fits assms(7,10) by (intro granted_held) (auto simp: MMIO_LIMIT_def)
        with e have "cfg e = (cfg (env w))(r := granted (round_up n s) v)"
          using assms(2,4,6) by (auto simp: cfg_write_def)
        then show "wp (modify (next_mmio_address_update (\<lambda>_. a + sz)))
           (\<lambda>_. wp (State_Monad.return (granted (round_up n s) v)) Q) (w\<lparr>env := e\<rparr>)"
          using grant [OF True fits] by (simp add: wp_simps eq)
      qed (use valid o assms(4) in simp_all)
      then show ?thesis
        using v sz fits ru gt1 gt2
        by (simp add: pci_assign_bar_if_needed_def wp_simps rd Let_def fin flip: a_def)
    next
      case False
      then show ?thesis
        using v skip gt1 gt2 by (simp add: pci_assign_bar_if_needed_def wp_simps rd Let_def flip: a_def)
    qed
  qed
qed

end

section \<open>The allocator\<close>

text \<open>
  A memory BAR decodes the region of \<open>region_size\<close> bytes from \<open>region_base\<close>. \<open>alloc_inv\<close>: the BARs in \<open>G\<close> have been
  given regions below \<open>n\<close>, in the window, aligned to their size and pairwise disjoint; no other register has changed
  since \<open>c0\<close>, command and status registers apart.
\<close>

definition region_base :: "(cfg_reg \<Rightarrow> u32) \<Rightarrow> cfg_reg \<Rightarrow> nat" where
  "region_base c r = unat (c r AND 0xFFFFFFF0)"

definition region_size :: "(cfg_reg \<Rightarrow> u32) \<Rightarrow> cfg_reg \<Rightarrow> nat" where
  "region_size wmask r = unat (bar_size (wmask r))"

definition regions_ok :: "(cfg_reg \<Rightarrow> u32) \<Rightarrow> (cfg_reg \<Rightarrow> u32) \<Rightarrow> cfg_reg set \<Rightarrow> nat \<Rightarrow> bool" where
  "regions_ok wmask c G n \<longleftrightarrow>
     (\<forall>r \<in> G. mem_bar (wmask r) (c r) \<and> unat PCI_MMIO_BASE \<le> region_base c r \<and>
        region_base c r + region_size wmask r \<le> n \<and> region_size wmask r dvd region_base c r) \<and>
     (\<forall>r \<in> G. \<forall>r' \<in> G. r \<noteq> r' \<longrightarrow>
        region_base c r + region_size wmask r \<le> region_base c r' \<or> region_base c r' + region_size wmask r' \<le> region_base c r)"

definition alloc_inv :: "(cfg_reg \<Rightarrow> u32) \<Rightarrow> (cfg_reg \<Rightarrow> u32) \<Rightarrow> cfg_reg set \<Rightarrow> (cfg_reg \<Rightarrow> u32) \<Rightarrow> nat \<Rightarrow> bool" where
  "alloc_inv wmask c0 G c n \<longleftrightarrow> unat PCI_MMIO_BASE \<le> n \<and> n \<le> MMIO_LIMIT \<and> regions_ok wmask c G n \<and>
     (\<forall>bus d f k. (bus, d, f, k) \<notin> G \<and> k \<noteq> 1 \<longrightarrow> c (bus, d, f, k) = c0 (bus, d, f, k))"

text \<open>A BAR is settled when it has a region, is no memory BAR, or can get none any more: an aligned region might not fit in what is left of the window.\<close>

definition settled :: "(cfg_reg \<Rightarrow> u32) \<Rightarrow> cfg_reg set \<Rightarrow> (cfg_reg \<Rightarrow> u32) \<Rightarrow> nat \<Rightarrow> cfg_reg \<Rightarrow> bool" where
  "settled wmask G c n r \<longleftrightarrow> r \<in> G \<or> \<not> mem_bar (wmask r) (c r) \<or> n + 2 * region_size wmask r > MMIO_LIMIT"

lemma mem_bar_granted:
  assumes "mem_bar m v" "unat (bar_size m) dvd a" "a < 2 ^ 32"
  shows "mem_bar m (granted a v)"
proof -
  note g = granted_held [OF assms]
  have "granted a v AND NOT m = v AND NOT m" using written_keeps [of m v "granted a v"] g(1) by simp
  then have "granted a v AND NOT m AND NOT 0xF = v AND NOT m AND NOT 0xF"
    by (simp add: and.assoc [symmetric])
  then show ?thesis using assms(1) g(3) by (simp add: mem_bar_def)
qed

lemma alloc_grant:
  assumes inv: "alloc_inv wmask c0 G c n" and r: "mem_bar (wmask r) (c r)" "r \<notin> G"
    and s: "s = region_size wmask r" "round_up n s + s \<le> MMIO_LIMIT"
  shows "alloc_inv wmask c0 (insert r G) (c(r := granted (round_up n s) (c r))) (round_up n s + s)"
proof -
  let ?a = "round_up n s" and ?c = "c(r := granted (round_up n s) (c r))"
  have s0: "0 < s" using r(1) s(1) by (metis mem_bar_size region_size_def zero_less_numeral zero_less_power)
  note ru = round_up [OF s0, of n]
  have d: "unat (bar_size (wmask r)) dvd ?a" "?a < 2 ^ 32"
    using ru(3) s by (auto simp: region_size_def MMIO_LIMIT_def)
  have new: "region_base ?c r = ?a" "mem_bar (wmask r) (?c r)"
    using granted_held(2) [OF r(1) d] mem_bar_granted [OF r(1) d] by (simp_all add: region_base_def)
  have old: "region_base ?c r' = region_base c r'" "?c r' = c r'" if "r' \<in> G" for r'
    using that r(2) by (auto simp: region_base_def)
  have G: "mem_bar (wmask r') (c r')" "unat PCI_MMIO_BASE \<le> region_base c r'"
     "region_base c r' + region_size wmask r' \<le> n" "region_size wmask r' dvd region_base c r'" if "r' \<in> G" for r'
    using inv that by (auto simp: alloc_inv_def regions_ok_def)
  have dis: "region_base c p + region_size wmask p \<le> region_base c q \<or> region_base c q + region_size wmask q \<le> region_base c p"
    if "p \<in> G" "q \<in> G" "p \<noteq> q" for p q
    using inv that by (auto simp: alloc_inv_def regions_ok_def)
  have n: "unat PCI_MMIO_BASE \<le> n" using inv by (simp add: alloc_inv_def)
  have "regions_ok wmask ?c (insert r G) (?a + s)"
    unfolding regions_ok_def
  proof (intro conjI ballI impI)
    fix p q assume "p \<in> insert r G" "q \<in> insert r G" "p \<noteq> q"
    then show "region_base ?c p + region_size wmask p \<le> region_base ?c q \<or> region_base ?c q + region_size wmask q \<le> region_base ?c p"
      using dis [of p q] G(3) [of p] G(3) [of q] ru(1) new(1) old(1) [of p] old(1) [of q]
      by (cases "p = r"; cases "q = r") (simp_all del: fun_upd_apply)
  next
    fix p assume p: "p \<in> insert r G"
    show "mem_bar (wmask p) (?c p)" using p new(2) G(1) old(2) by (cases "p = r") auto
    show "unat PCI_MMIO_BASE \<le> region_base ?c p" using p new(1) G(2) old(1) n ru(1) by (cases "p = r") auto
    show "region_base ?c p + region_size wmask p \<le> ?a + s"
      using p new(1) G(3) [of p] old(1) s(1) ru(1) by (cases "p = r") auto
    show "region_size wmask p dvd region_base ?c p" using p new(1) G(4) old(1) ru(3) s(1) by (cases "p = r") auto
  qed
  then show ?thesis
    using inv s(2) n ru(1) by (auto simp: alloc_inv_def)
qed

lemma settled_mono:
  "settled wmask G c n r \<Longrightarrow> G \<subseteq> G' \<Longrightarrow> n \<le> n' \<Longrightarrow> c' r = c r \<Longrightarrow> settled wmask G' c' n' r"
  by (auto simp: settled_def)

context riscv_hardware
begin

lemma wp_assign_bar:
  assumes "unat dev < 32" "i < 6" "unat (ucast off :: u8) div 4 = 4 + i" "r = bar_reg bus dev i" "r \<notin> G"
    and inv: "alloc_inv wmask c0 G (cfg (env w)) n" "n = unat (next_mmio_address w)"
    and "bar_ok (wmask r) (cfg (env w) r)" "bar = \<lparr>bi_value = cfg (env w) r, bi_size = bar_size (wmask r), bi_index = bi\<rparr>"
    and Q: "\<And>e n' G'. alloc_inv wmask c0 G' (cfg e) n' \<Longrightarrow> n' < 2 ^ 64 \<Longrightarrow> G \<subseteq> G' \<Longrightarrow> G' \<subseteq> insert r G \<Longrightarrow> n \<le> n' \<Longrightarrow>
       settled wmask G' (cfg e) n' r \<Longrightarrow> bar_ok (wmask r) (cfg e r) \<Longrightarrow> (\<And>r'. r' \<noteq> r \<Longrightarrow> cfg e r' = cfg (env w) r') \<Longrightarrow>
       Q \<lparr>bi_value = cfg e r, bi_size = bar_size (wmask r), bi_index = bi\<rparr> (w\<lparr>env := e, next_mmio_address := word_of_nat n'\<rparr>)"
  shows "wp (assign_bar b bus dev off bar) Q (w :: ('e, 'z) riscv_world_scheme)"
proof -
  have n: "n \<le> MMIO_LIMIT" using inv(1) by (simp add: alloc_inv_def)
  have same: "w\<lparr>next_mmio_address := word_of_nat n\<rparr> = w"
    using inv(2) by simp
  have skip: "Q bar w" if "settled wmask G (cfg (env w)) n r"
  proof -
    have "n < 2 ^ 64" using n by (simp add: MMIO_LIMIT_def)
    then show ?thesis
      using Q [of G "env w" n] inv(1) that assms(8,9) by (simp add: same subset_insertI)
  qed
  show ?thesis
  proof (cases "bi_size bar > 0")
    case False
    then have "\<not> mem_bar (wmask r) (cfg (env w) r)"
      using assms(9) by (auto elim!: mem_bar_size simp: word_gt_0)
    then show ?thesis using False skip by (simp add: assign_bar_def wp_simps settled_def)
  next
    case True
    let ?s = "region_size wmask r"
    have "wp (pci_assign_bar_if_needed b bus dev 0 (ucast off) (bi_size bar))
       (\<lambda>v. wp (State_Monad.return (bar\<lparr>bi_value := v\<rparr>)) Q) w"
    proof (rule wp_assign [where n = n and s = ?s and r = r and v = "cfg (env w) r"])
      assume nofit: "\<not> (mem_bar (wmask r) (cfg (env w) r) \<and> round_up n ?s + ?s \<le> MMIO_LIMIT)"
      have "settled wmask G (cfg (env w)) n r"
      proof (cases "mem_bar (wmask r) (cfg (env w) r)")
        case True
        then have "0 < ?s" by (metis mem_bar_size region_size_def zero_less_numeral zero_less_power)
        then show ?thesis using nofit True round_up(2) [of ?s n] by (simp add: settled_def)
      qed (simp add: settled_def)
      then show "wp (State_Monad.return (bar\<lparr>bi_value := cfg (env w) r\<rparr>)) Q w"
        using skip assms(9) by (simp add: wp_simps)
    next
      fix e assume m: "mem_bar (wmask r) (cfg (env w) r)" and fits: "round_up n ?s + ?s \<le> MMIO_LIMIT"
        and e: "cfg e = (cfg (env w))(r := granted (round_up n ?s) (cfg (env w) r))"
      have s0: "0 < ?s" using m by (metis mem_bar_size region_size_def zero_less_numeral zero_less_power)
      have "bar_ok (wmask r) (cfg e r)"
        using mem_bar_granted [OF m, of "round_up n ?s"] round_up(3) [OF s0, of n] fits
        by (simp add: e bar_ok_def region_size_def MMIO_LIMIT_def)
      then have "Q \<lparr>bi_value = cfg e r, bi_size = bar_size (wmask r), bi_index = bi\<rparr>
        (w\<lparr>env := e, next_mmio_address := word_of_nat (round_up n ?s + ?s)\<rparr>)"
        using alloc_grant [OF inv(1) m assms(5) refl fits] fits round_up(1) [OF s0, of n]
        by (intro Q [where G' = "insert r G"]) (auto simp: e MMIO_LIMIT_def settled_def)
      then show "wp (State_Monad.return (bar\<lparr>bi_value := granted (round_up n ?s) (cfg (env w) r)\<rparr>)) Q
        (w\<lparr>env := e, next_mmio_address := word_of_nat (round_up n ?s + ?s)\<rparr>)"
        using e assms(9) by (simp add: wp_simps)
    qed (use assms n in \<open>simp_all add: region_size_def\<close>)
    then show ?thesis using True by (simp add: assign_bar_def wp_bind)
  qed
qed

end

text \<open>The BAR a device is reported with, and the report.\<close>

definition chosen_bar :: "u16 \<Rightarrow> (nat \<Rightarrow> u32) \<Rightarrow> (nat \<Rightarrow> u64) \<Rightarrow> nat" where
  "chosen_bar vendor v s =
     (if v 0 AND 1 \<noteq> 0 \<and> vendor = 0x1AF4 then 4 else if v 0 AND 1 \<noteq> 0 \<and> s 1 \<noteq> 0 \<and> v 1 AND 1 = 0 then 1 else 0)"

definition fn_report :: "(cfg_reg \<Rightarrow> u32) \<Rightarrow> (cfg_reg \<Rightarrow> u32) \<Rightarrow> u8 \<times> u8 \<Rightarrow> device" where
  "fn_report wmask c f = (let bar = bar_reg (fst f) (snd f);
       i = chosen_bar (fn_vendor c f) (\<lambda>i. c (bar i)) (\<lambda>i. bar_size (wmask (bar i))) in
     pci_create_device_info (fst f) (snd f) (fn_vendor c f) (half PCI_DEVICE_ID_OFFSET (c (fst f, snd f, 0, 0)))
       (pci_bar_get_address (c (bar i))) (bar_size (wmask (bar i))))"

lemma wp_select:
  assumes "\<And>c. Q (pci_bar_get_address (v i), s i) (w\<lparr>console := c\<rparr>)" "i = chosen_bar vendor v s"
    and "bar0 = \<lparr>bi_value = v 0, bi_size = s 0, bi_index = 0\<rparr>" "bar1 = \<lparr>bi_value = v 1, bi_size = s 1, bi_index = 1\<rparr>"
    and "bar4 = \<lparr>bi_value = v 4, bi_size = s 4, bi_index = 4\<rparr>"
  shows "wp (pci_select_bar_for_device vendor bar0 bar1 bar4) Q w"
proof -
  note defs = pci_select_bar_for_device_def wp_simps pci_print_selected_bar_def assms(3-5)
    pci_is_virtio_with_io_bar_def PCI_VIRTIO_VENDOR_ID_def pci_bar_is_io_def PCI_BAR_IO_FLAG_def word_gt_0
  consider "v 0 AND 1 \<noteq> 0" "vendor = 0x1AF4" "i = 4"
    | "\<not> (v 0 AND 1 \<noteq> 0 \<and> vendor = 0x1AF4)" "v 0 AND 1 \<noteq> 0 \<and> s 1 \<noteq> 0 \<and> v 1 AND 1 = 0" "i = 1"
    | "\<not> (v 0 AND 1 \<noteq> 0 \<and> vendor = 0x1AF4)" "\<not> (v 0 AND 1 \<noteq> 0 \<and> s 1 \<noteq> 0 \<and> v 1 AND 1 = 0)" "i = 0"
    using assms(2) by (auto simp: chosen_bar_def split: if_splits)
  then show ?thesis
  proof cases
    case 1
    then show ?thesis using assms(1) by (simp add: defs del: One_nat_def)
  next
    case 2
    then show ?thesis using assms(1) by (auto simp add: defs simp del: One_nat_def)
  next
    case 3
    then show ?thesis using assms(1) by (auto simp add: defs simp del: One_nat_def)
  qed
qed

definition bar_info_of :: "(cfg_reg \<Rightarrow> u32) \<Rightarrow> (cfg_reg \<Rightarrow> u32) \<Rightarrow> u8 \<Rightarrow> u8 \<Rightarrow> nat \<Rightarrow> pci_bar_info" where
  "bar_info_of wmask c bus dev i =
     \<lparr>bi_value = c (bar_reg bus dev i), bi_size = bar_size (wmask (bar_reg bus dev i)), bi_index = word_of_nat i\<rparr>"

context riscv_hardware
begin

lemma bar_ok_alloc:
  assumes "alloc_inv wmask c0 G c n" "bar_ok (wmask (bar_reg bus dev i)) (c0 (bar_reg bus dev i))"
  shows "bar_ok (wmask (bar_reg bus dev i)) (c (bar_reg bus dev i))"
proof (cases "bar_reg bus dev i \<in> G")
  case True
  then have "mem_bar (wmask (bar_reg bus dev i)) (c (bar_reg bus dev i))"
    using assms(1) unfolding alloc_inv_def regions_ok_def by blast
  then show ?thesis by (simp add: bar_ok_def)
next
  case False
  then have "c (bar_reg bus dev i) = c0 (bar_reg bus dev i)"
    using assms(1) by (simp add: alloc_inv_def)
  then show ?thesis using assms(2) by simp
qed

lemma alloc_inv_command:
  assumes "alloc_inv wmask c0 G c n" "\<And>r. r \<noteq> (bus, dev, 0, 1) \<Longrightarrow> c' r = c r" "\<forall>r \<in> G. snd (snd (snd r)) \<noteq> 1"
  shows "alloc_inv wmask c0 G c' n"
proof -
  have G: "c' r = c r" if "r \<in> G" for r
    using assms(3) that by (intro assms(2)) auto
  have "regions_ok wmask c G n" using assms(1) by (simp add: alloc_inv_def)
  then have "regions_ok wmask c' G n" using G by (simp add: regions_ok_def region_base_def)
  moreover have "c' (p, d, f, k) = c0 (p, d, f, k)" if "(p, d, f, k) \<notin> G" "k \<noteq> 1" for p d f k
    using assms(1) assms(2) [of "(p, d, f, k)"] that by (simp add: alloc_inv_def)
  ultimately show ?thesis
    using assms(1) by (simp add: alloc_inv_def)
qed

lemma wp_read_bars:
  assumes "unat dev < 32" "\<And>i. i < 6 \<Longrightarrow> bar_ok (wmask (bar_reg bus dev i)) (cfg (env w) (bar_reg bus dev i))"
    and "\<And>e. cfg e = cfg (env w) \<Longrightarrow>
      K (bar_info_of wmask (cfg (env w)) bus dev 0) (bar_info_of wmask (cfg (env w)) bus dev 1) (bar_info_of wmask (cfg (env w)) bus dev 4) (w\<lparr>env := e\<rparr>)"
  shows "wp (pci_read_bar b bus dev 0) (\<lambda>bar0. wp (pci_read_bar b bus dev 1) (\<lambda>bar1.
     wp (pci_read_bar b bus dev 4) (K bar0 bar1))) w"
proof -
  note rule = wp_read_bar [OF assms(1) _ _ refl]
  show ?thesis
  proof (rule rule [of 0])
    fix e assume e: "cfg e = cfg (env w)"
    let ?w = "w\<lparr>env := e\<rparr>"
    show "wp (pci_read_bar b bus dev 1) (\<lambda>bar1. wp (pci_read_bar b bus dev 4)
      (K \<lparr>bi_value = cfg (env w) (bar_reg bus dev 0), bi_size = bar_size (wmask (bar_reg bus dev 0)), bi_index = 0\<rparr> bar1)) ?w"
    proof (rule rule [of 1])
      fix e' assume e': "cfg e' = cfg (env ?w)"
      show "wp (pci_read_bar b bus dev 4) (K
        \<lparr>bi_value = cfg (env w) (bar_reg bus dev 0), bi_size = bar_size (wmask (bar_reg bus dev 0)), bi_index = 0\<rparr>
        \<lparr>bi_value = cfg (env ?w) (bar_reg bus dev 1), bi_size = bar_size (wmask (bar_reg bus dev 1)), bi_index = 1\<rparr>) (?w\<lparr>env := e'\<rparr>)"
        by (rule rule [of 4]) (use assms(2) [of 4] assms(3) e e' in \<open>simp_all add: bar_info_of_def\<close>)
    qed (use assms(2) [of 1] e in simp_all)
  qed (use assms(2) [of 0] in simp_all)
qed

lemma wp_assign_next:
  assumes "unat dev < 32" "i < 6" "unat (ucast off :: u8) div 4 = 4 + i" "bar_reg bus dev i \<notin> G"
    and "alloc_inv wmask c0 G (cfg (env w)) n" "n = unat (next_mmio_address w)"
    and "bar_ok (wmask (bar_reg bus dev i)) (c0 (bar_reg bus dev i))" "c (bar_reg bus dev i) = cfg (env w) (bar_reg bus dev i)"
    and "\<And>e n' G'. alloc_inv wmask c0 G' (cfg e) n' \<Longrightarrow> n' < 2 ^ 64 \<Longrightarrow> G \<subseteq> G' \<Longrightarrow> G' \<subseteq> insert (bar_reg bus dev i) G \<Longrightarrow> n \<le> n' \<Longrightarrow>
       settled wmask G' (cfg e) n' (bar_reg bus dev i) \<Longrightarrow> (\<And>r'. r' \<noteq> bar_reg bus dev i \<Longrightarrow> cfg e r' = cfg (env w) r') \<Longrightarrow>
       Q (bar_info_of wmask (cfg e) bus dev i) (w\<lparr>env := e, next_mmio_address := word_of_nat n'\<rparr>)"
  shows "wp (assign_bar b bus dev off (bar_info_of wmask c bus dev i)) Q (w :: ('e, 'z) riscv_world_scheme)"
proof (rule wp_assign_bar [OF assms(1-3) refl assms(4-6)])
  show "bar_ok (wmask (bar_reg bus dev i)) (cfg (env w) (bar_reg bus dev i))"
    by (rule bar_ok_alloc [OF assms(5,7)])
  show "bar_info_of wmask c bus dev i = \<lparr>bi_value = cfg (env w) (bar_reg bus dev i),
      bi_size = bar_size (wmask (bar_reg bus dev i)), bi_index = word_of_nat i\<rparr>"
    using assms(8) by (simp add: bar_info_of_def)
qed (use assms(9) in \<open>simp add: bar_info_of_def\<close>)

lemma wp_assign_bars:
  assumes dev: "unat dev < 32"
    and inv: "alloc_inv wmask c0 G (cfg (env w)) n" "n = unat (next_mmio_address w)"
    and bars: "\<And>i. i < 6 \<Longrightarrow> bar_ok (wmask (bar_reg bus dev i)) (c0 (bar_reg bus dev i))"
    and fresh: "\<And>i. bar_reg bus dev i \<notin> G" and c: "c = cfg (env w)"
    and K: "\<And>e n' G'. alloc_inv wmask c0 G' (cfg e) n' \<Longrightarrow> n' < 2 ^ 64 \<Longrightarrow> G \<subseteq> G' \<Longrightarrow>
       G' \<subseteq> G \<union> bar_reg bus dev ` {0, 1, 4} \<Longrightarrow> n \<le> n' \<Longrightarrow>
       (\<And>i. i \<in> {0, 1, 4} \<Longrightarrow> settled wmask G' (cfg e) n' (bar_reg bus dev i)) \<Longrightarrow>
       (\<And>r. r \<notin> bar_reg bus dev ` {0, 1, 4} \<Longrightarrow> cfg e r = c r) \<Longrightarrow>
       K (bar_info_of wmask (cfg e) bus dev 0) (bar_info_of wmask (cfg e) bus dev 1) (bar_info_of wmask (cfg e) bus dev 4)
         (w\<lparr>env := e, next_mmio_address := word_of_nat n'\<rparr>)"
  shows "wp (assign_bar b bus dev PCI_BAR0_OFFSET (bar_info_of wmask c bus dev 0)) (\<lambda>bar0.
     wp (assign_bar b bus dev PCI_BAR1_OFFSET (bar_info_of wmask c bus dev 1)) (\<lambda>bar1.
     wp (assign_bar b bus dev PCI_BAR4_OFFSET (bar_info_of wmask c bus dev 4)) (K bar0 bar1))) (w :: ('e, 'z) riscv_world_scheme)"
proof (rule wp_assign_next [of dev 0 PCI_BAR0_OFFSET bus G c0 w n c, OF dev _ bar_offsets(1) fresh inv bars], goal_cases)
  case (4 e n1 G1)
  let ?w = "w\<lparr>env := e, next_mmio_address := word_of_nat n1\<rparr>"
  have u1: "unat (next_mmio_address ?w) = n1" using 4(2) by (simp add: unat_of_nat take_bit_nat_eq_self)
  have f1: "bar_reg bus dev i \<notin> G1" if "i \<noteq> 0" for i using that fresh 4(4) by auto
  have c1: "bar_info_of wmask (cfg e) bus dev i = bar_info_of wmask c bus dev i" if "i \<noteq> 0" for i
    using 4(7) that c by (simp add: bar_info_of_def)
  show ?case
  proof (rule wp_assign_next [of dev 1 PCI_BAR1_OFFSET bus G1 c0 ?w n1 c, OF dev _ bar_offsets(2) f1 _ u1 [symmetric] bars], goal_cases)
    case (6 e2 n2 G2)
    let ?w2 = "?w\<lparr>env := e2, next_mmio_address := word_of_nat n2\<rparr>"
    have u2: "unat (next_mmio_address ?w2) = n2" using 6(2) by (simp add: unat_of_nat take_bit_nat_eq_self)
    have f2: "bar_reg bus dev i \<notin> G2" if "i \<noteq> 0" "i \<noteq> 1" for i using that f1 6(4) by auto
    show ?case
    proof (rule wp_assign_next [of dev 4 PCI_BAR4_OFFSET bus G2 c0 ?w2 n2 c, OF dev _ bar_offsets(3) f2 _ u2 [symmetric] bars], goal_cases)
      case (7 e3 n3 G3)
      have e2: "cfg e2 (bar_reg bus dev 0) = cfg e (bar_reg bus dev 0)" using 6(7) by simp
      have e3: "cfg e3 (bar_reg bus dev i) = cfg e2 (bar_reg bus dev i)" if "i \<noteq> 4" for i
        using 7(7) that by simp
      have s0: "settled wmask G3 (cfg e3) n3 (bar_reg bus dev 0)"
        by (rule settled_mono [OF 4(6)]) (use 6(3,5) 7(3,5) e2 e3 [of 0] in auto)
      have s1: "settled wmask G3 (cfg e3) n3 (bar_reg bus dev 1)"
        by (rule settled_mono [OF 6(6)]) (use 7(3,5) e3 [of 1] in auto)
      have i: "bar_info_of wmask (cfg e) bus dev 0 = bar_info_of wmask (cfg e3) bus dev 0"
        "bar_info_of wmask (cfg e2) bus dev 1 = bar_info_of wmask (cfg e3) bus dev 1"
        using e2 e3 [of 0] e3 [of 1] by (simp_all add: bar_info_of_def)
      have "K (bar_info_of wmask (cfg e3) bus dev 0) (bar_info_of wmask (cfg e3) bus dev 1)
        (bar_info_of wmask (cfg e3) bus dev 4) (w\<lparr>env := e3, next_mmio_address := word_of_nat n3\<rparr>)"
      proof (rule K [OF 7(1,2)])
        show "G \<subseteq> G3" "G3 \<subseteq> G \<union> bar_reg bus dev ` {0, 1, 4}" "n \<le> n3"
          using 4(3,4,5) 6(3,4,5) 7(3,4,5) by auto
        show "settled wmask G3 (cfg e3) n3 (bar_reg bus dev i)" if "i \<in> {0, 1, 4}" for i
          using that s0 s1 7(6) by auto
        show "cfg e3 r = c r" if "r \<notin> bar_reg bus dev ` {0, 1, 4}" for r
        proof -
          have "r \<noteq> bar_reg bus dev 0" "r \<noteq> bar_reg bus dev 1" "r \<noteq> bar_reg bus dev 4" using that by auto
          then show ?thesis using 4(7) 6(7) 7(7) c by simp
        qed
      qed
      then show ?case by (simp add: i del: One_nat_def)
    qed (use 4 6 c in \<open>simp_all\<close>)
  qed (use 4 c in \<open>simp_all\<close>)
qed (simp_all add: c)

lemma wp_process_tail:
  assumes dev: "unat dev < 32" and inv: "alloc_inv wmask c0 G (cfg (env w)) n"
    and bars: "\<And>i. i < 6 \<Longrightarrow> bar_ok (wmask (bar_reg bus dev i)) (c0 (bar_reg bus dev i))"
    and c: "c = cfg (env w)" and v: "v = (\<lambda>i. c (bar_reg bus dev i))" and s: "s = (\<lambda>i. bar_size (wmask (bar_reg bus dev i)))"
    and Q: "\<And>w'. next_mmio_address w' = next_mmio_address w \<Longrightarrow> (\<And>r. r \<noteq> (bus, dev, 0, 1) \<Longrightarrow> cfg (env w') r = c r) \<Longrightarrow>
      reported w' = reported w @ [pci_create_device_info bus dev vendor devid
        (pci_bar_get_address (v (chosen_bar vendor v s))) (s (chosen_bar vendor v s))] \<Longrightarrow>
      next_mmio_device_num w' = next_mmio_device_num w \<Longrightarrow> Q (m + 1) w'"
  shows "wp (pci_print_all_bars b bus dev) (\<lambda>_. wp (pci_select_bar_for_device vendor (bar_info_of wmask c bus dev 0)
      (bar_info_of wmask c bus dev 1) (bar_info_of wmask c bus dev 4)) (\<lambda>a. wp (case a of (base_address, sz) \<Rightarrow> do {
         cmd \<leftarrow> pcie_ecam_read16 b bus dev 0 PCI_COMMAND_OFFSET;
         pcie_ecam_write16 b bus dev 0 PCI_COMMAND_OFFSET (cmd OR (PCI_COMMAND_MEMORY OR PCI_COMMAND_MASTER));
         let device_info = pci_create_device_info bus dev vendor devid base_address sz;
         modify (reported_update (\<lambda>rs. if True then rs @ [device_info] else rs));
         State_Monad.return (m + 1) }) Q)) (w :: ('e, 'z) riscv_world_scheme)"
proof (rule wp_print_all_bars [OF dev])
  show "bar_ok (wmask (bar_reg bus dev i)) (cfg (env w) (bar_reg bus dev i))" if "i < 6" for i
    by (rule bar_ok_alloc [OF inv bars [OF that]])
  fix e con assume e: "cfg e = cfg (env w)"
  have valid: "cfg_valid dev 0 PCI_COMMAND_OFFSET" "unat PCI_COMMAND_OFFSET div 4 = 1"
    using dev by (simp_all add: cfg_valid_def pci_offset_defs)
  let ?w = "w\<lparr>env := e, console := con\<rparr>"
  show "wp (pci_select_bar_for_device vendor (bar_info_of wmask c bus dev 0)
      (bar_info_of wmask c bus dev 1) (bar_info_of wmask c bus dev 4)) (\<lambda>a. wp (case a of (base_address, sz) \<Rightarrow> do {
         cmd \<leftarrow> pcie_ecam_read16 b bus dev 0 PCI_COMMAND_OFFSET;
         pcie_ecam_write16 b bus dev 0 PCI_COMMAND_OFFSET (cmd OR (PCI_COMMAND_MEMORY OR PCI_COMMAND_MASTER));
         let device_info = pci_create_device_info bus dev vendor devid base_address sz;
         modify (reported_update (\<lambda>rs. if True then rs @ [device_info] else rs));
         State_Monad.return (m + 1) }) Q) ?w"
  proof (rule wp_select [where v = v and s = s, OF _ refl])
    fix con'
    let ?w' = "?w\<lparr>console := con'\<rparr>"
    have "wp (pcie_ecam_write16 b bus dev 0 PCI_COMMAND_OFFSET x) (\<lambda>_. wp (modify (reported_update (\<lambda>rs. rs @ [pci_create_device_info bus dev
        vendor devid (pci_bar_get_address (v (chosen_bar vendor v s))) (s (chosen_bar vendor v s))])))
      (\<lambda>_. wp (State_Monad.return (m + 1)) Q)) ?w'" for x
      unfolding riscv_write16_eq
    proof (rule wp_write16 [OF valid(1) refl])
      fix e' assume w: "cfg_write wmask (bus, dev, 0, unat PCI_COMMAND_OFFSET div 4)
        (set_half PCI_COMMAND_OFFSET x (cfg (env ?w') (bus, dev, 0, unat PCI_COMMAND_OFFSET div 4))) (cfg (env ?w')) (cfg e')"
      have "cfg e' r = c r" if "r \<noteq> (bus, dev, 0, 1)" for r
        using w that unfolding cfg_write_def valid(2) by (cases r) (simp add: e c)
      then show "wp (modify (reported_update (\<lambda>rs. rs @ [pci_create_device_info bus dev
        vendor devid (pci_bar_get_address (v (chosen_bar vendor v s))) (s (chosen_bar vendor v s))])))
      (\<lambda>_. wp (State_Monad.return (m + 1)) Q) (?w'\<lparr>env := e'\<rparr>)"
        by (simp add: wp_simps del: One_nat_def) (intro Q; simp)
    qed
    then show "wp (case (pci_bar_get_address (v (chosen_bar vendor v s)), s (chosen_bar vendor v s)) of (base_address, sz) \<Rightarrow> do {
         cmd \<leftarrow> pcie_ecam_read16 b bus dev 0 PCI_COMMAND_OFFSET;
         pcie_ecam_write16 b bus dev 0 PCI_COMMAND_OFFSET (cmd OR (PCI_COMMAND_MEMORY OR PCI_COMMAND_MASTER));
         let device_info = pci_create_device_info bus dev vendor devid base_address sz;
         modify (reported_update (\<lambda>rs. if True then rs @ [device_info] else rs));
         State_Monad.return (m + 1) }) Q ?w'"
      by (simp add: wp_bind Let_def pcie_ecam_read16_def wp_read16 [OF valid(1)])
  qed (simp_all add: bar_info_of_def v s)
qed

lemma wp_process_body:
  assumes dev: "unat dev < 32" and vendor: "vendor = fn_vendor (cfg (env w)) (bus, dev)"
    and devid: "devid = half PCI_DEVICE_ID_OFFSET (cfg (env w) (bus, dev, 0, 0))"
    and inv: "alloc_inv wmask c0 G (cfg (env w)) (unat (next_mmio_address w))"
    and bars: "\<And>i. i < 6 \<Longrightarrow> bar_ok (wmask (bar_reg bus dev i)) (c0 (bar_reg bus dev i))"
    and fresh: "\<And>i. bar_reg bus dev i \<notin> G" and G1: "\<forall>r \<in> G. snd (snd (snd r)) \<noteq> 1"
    and Q: "\<And>w' G'. alloc_inv wmask c0 G' (cfg (env w')) (unat (next_mmio_address w')) \<Longrightarrow> G \<subseteq> G' \<Longrightarrow>
       G' \<subseteq> G \<union> bar_reg bus dev ` {0, 1, 4} \<Longrightarrow> unat (next_mmio_address w) \<le> unat (next_mmio_address w') \<Longrightarrow>
       (\<And>i. i \<in> {0, 1, 4} \<Longrightarrow> settled wmask G' (cfg (env w')) (unat (next_mmio_address w')) (bar_reg bus dev i)) \<Longrightarrow>
       (\<And>r. r \<notin> insert (bus, dev, 0, 1) (bar_reg bus dev ` {0, 1, 4}) \<Longrightarrow> cfg (env w') r = cfg (env w) r) \<Longrightarrow>
       reported w' = reported w @ [fn_report wmask (cfg (env w')) (bus, dev)] \<Longrightarrow>
       next_mmio_device_num w' = next_mmio_device_num w \<Longrightarrow> Q (m + 1) w'"
  shows "wp
    (do {
       bar0 \<leftarrow> pci_read_bar b bus dev 0;
       bar1 \<leftarrow> pci_read_bar b bus dev 1;
       bar4 \<leftarrow> pci_read_bar b bus dev 4;
       bar0 \<leftarrow> assign_bar b bus dev PCI_BAR0_OFFSET bar0;
       bar1 \<leftarrow> assign_bar b bus dev PCI_BAR1_OFFSET bar1;
       bar4 \<leftarrow> assign_bar b bus dev PCI_BAR4_OFFSET bar4;
       pci_print_all_bars b bus dev;
       (base_address, sz) \<leftarrow> pci_select_bar_for_device vendor bar0 bar1 bar4;
       cmd \<leftarrow> pcie_ecam_read16 b bus dev 0 PCI_COMMAND_OFFSET;
       pcie_ecam_write16 b bus dev 0 PCI_COMMAND_OFFSET (cmd OR (PCI_COMMAND_MEMORY OR PCI_COMMAND_MASTER));
       let device_info = pci_create_device_info bus dev vendor devid base_address sz;
       modify (reported_update (\<lambda>rs. if True then rs @ [device_info] else rs));
       State_Monad.return (m + 1) }) Q (w :: ('e, 'z) riscv_world_scheme)"
proof -
  let ?n = "unat (next_mmio_address w)" and ?bars = "bar_reg bus dev ` {0, 1, 4}"
  have okc: "bar_ok (wmask (bar_reg bus dev i)) (cfg (env w) (bar_reg bus dev i))" if "i < 6" for i
    by (rule bar_ok_alloc [OF inv bars [OF that]])
  show ?thesis
    unfolding wp_bind
  proof (rule wp_read_bars [OF dev okc], assumption, rule wp_assign_bars [where n = ?n and G = G and ?c0.0 = c0], goal_cases)
    case (7 e1 e n' G')
    let ?w = "w\<lparr>env := e1, env := e, next_mmio_address := word_of_nat n'\<rparr>"
    have n': "unat (next_mmio_address ?w) = n'" using 7(3) by (simp add: unat_of_nat take_bit_nat_eq_self)
    have G': "\<forall>r \<in> G'. snd (snd (snd r)) \<noteq> 1" using G1 7(5) by auto
    show ?case
    proof (rule wp_process_tail [where ?c0.0 = c0 and c = "cfg e", OF dev _ bars _ refl refl], goal_cases)
      case (4 w')
      have c': "fn_vendor (cfg (env w')) (bus, dev) = vendor" "half PCI_DEVICE_ID_OFFSET (cfg (env w') (bus, dev, 0, 0)) = devid"
        using 4(2) [of "(bus, dev, 0, 0)"] 7(8) [of "(bus, dev, 0, 0)"] vendor devid by (auto simp: fn_vendor_def)
      have cb: "cfg (env w') (bar_reg bus dev i) = cfg e (bar_reg bus dev i)" for i
        using 4(2) [of "bar_reg bus dev i"] by simp
      show ?case
      proof (rule Q [of G' w'])
        show "alloc_inv wmask c0 G' (cfg (env w')) (unat (next_mmio_address w'))"
          using alloc_inv_command [OF 7(2) 4(2) G'] 4(1) n' by simp
        show "reported w' = reported w @ [fn_report wmask (cfg (env w')) (bus, dev)]"
          using 4(3) by (simp add: fn_report_def Let_def c' cb)
        show "settled wmask G' (cfg (env w')) (unat (next_mmio_address w')) (bar_reg bus dev i)" if "i \<in> {0, 1, 4}" for i
          using settled_mono [OF 7(7) [OF that], of G' n' "cfg (env w')"] 4(1) n' cb [of i] by simp
        show "cfg (env w') r = cfg (env w) r" if "r \<notin> insert (bus, dev, 0, 1) ?bars" for r
          using that 4(2) [of r] 7(8) [of r] 7(1) by auto
      qed (use 7(4-6) 4(1,4) n' in auto)
    qed (use 7(2) in auto)
  qed (use dev inv bars fresh in auto)
qed

text \<open>One iteration of the scan, for a function that is there: its three BARs are settled and it is reported.\<close>

lemma wp_process:
  assumes dev: "unat dev < 32" and present: "fn_present (cfg (env w)) (bus, dev)"
    and inv: "alloc_inv wmask c0 G (cfg (env w)) (unat (next_mmio_address w))"
    and bars: "\<And>i. i < 6 \<Longrightarrow> bar_ok (wmask (bar_reg bus dev i)) (c0 (bar_reg bus dev i))"
    and fresh: "\<And>i. bar_reg bus dev i \<notin> G" and G1: "\<forall>r \<in> G. snd (snd (snd r)) \<noteq> 1"
    and Q: "\<And>w' G'. alloc_inv wmask c0 G' (cfg (env w')) (unat (next_mmio_address w')) \<Longrightarrow> G \<subseteq> G' \<Longrightarrow>
       G' \<subseteq> G \<union> bar_reg bus dev ` {0, 1, 4} \<Longrightarrow> unat (next_mmio_address w) \<le> unat (next_mmio_address w') \<Longrightarrow>
       (\<And>i. i \<in> {0, 1, 4} \<Longrightarrow> settled wmask G' (cfg (env w')) (unat (next_mmio_address w')) (bar_reg bus dev i)) \<Longrightarrow>
       (\<And>r. r \<notin> insert (bus, dev, 0, 1) (bar_reg bus dev ` {0, 1, 4}) \<Longrightarrow> cfg (env w') r = cfg (env w) r) \<Longrightarrow>
       reported w' = reported w @ [fn_report wmask (cfg (env w')) (bus, dev)] \<Longrightarrow>
       next_mmio_device_num w' = next_mmio_device_num w \<Longrightarrow> Q (m + 1) w'"
  shows "wp (pci_process_device b True bus dev m) Q (w :: ('e, 'z) riscv_world_scheme)"
proof -
  have v: "cfg_valid dev 0 PCI_VENDOR_ID_OFFSET" "cfg_valid dev 0 PCI_DEVICE_ID_OFFSET"
    using dev by (simp_all add: cfg_valid_def pci_offset_defs)
  have k: "unat PCI_VENDOR_ID_OFFSET div 4 = 0" "unat PCI_DEVICE_ID_OFFSET div 4 = 0"
    by (simp_all add: pci_offset_defs)
  let ?v = "fn_vendor (cfg (env w)) (bus, dev)"
  have vendor: "half PCI_VENDOR_ID_OFFSET (cfg (env w) (bus, dev, 0, 0)) = ?v" "pci_vendor_is_valid ?v"
    using present by (simp_all add: fn_present_def fn_vendor_def pci_vendor_is_valid_def)
  note ids = wp_read16 [OF v(1), folded pcie_ecam_read16_def] wp_read16 [OF v(2), folded pcie_ecam_read16_def] k
  show ?thesis
    unfolding pci_process_device_def
    by (simp only: wp_bind [of "pcie_ecam_read16 b bus dev 0 PCI_VENDOR_ID_OFFSET"] ids vendor wp_if not_True_eq_False if_False
        wp_bind [of "pcie_ecam_read16 b bus dev 0 PCI_DEVICE_ID_OFFSET"] pci_print_device_header_def
        wp_bind [of "print t" for t] wp_print)
      (rule wp_process_body [where ?c0.0 = c0 and G = G]; use assms in simp)
qed

lemma wp_absent:
  assumes "unat dev < 32" "\<not> fn_present (cfg (env w)) (bus, dev)" "Q m w"
  shows "wp (pci_process_device b callback bus dev m) Q w"
proof -
  have v: "cfg_valid dev 0 PCI_VENDOR_ID_OFFSET" "unat PCI_VENDOR_ID_OFFSET div 4 = 0"
    using assms(1) by (simp_all add: cfg_valid_def pci_offset_defs)
  show ?thesis
    using assms(2,3) by (auto simp: pci_process_device_def wp_simps pcie_ecam_read16_def wp_read16 [OF v(1)] v(2) fn_present_def fn_vendor_def
        pci_vendor_is_valid_def)
qed

end

section \<open>The loop over the functions\<close>

lemma fn_report_cong:
  assumes "c (fst f, snd f, 0, 0) = c' (fst f, snd f, 0, 0)" "\<And>i. c (bar_reg (fst f) (snd f) i) = c' (bar_reg (fst f) (snd f) i)"
  shows "fn_report wmask c f = fn_report wmask c' f"
  by (simp add: fn_report_def Let_def fn_vendor_def assms)

definition fn_bars :: "(u8 \<times> u8) set \<Rightarrow> cfg_reg set" where
  "fn_bars fs = {(bus, dev, 0, k) |bus dev k. (bus, dev) \<in> fs \<and> k \<in> {4, 5, 8}}"

lemma mem_fn_bars [simp]: "(bus, dev, f, k) \<in> fn_bars fs \<longleftrightarrow> (bus, dev) \<in> fs \<and> f = 0 \<and> k \<in> {4, 5, 8}"
  by (auto simp: fn_bars_def)

lemma fn_bars_mono: "fs \<subseteq> fs' \<Longrightarrow> fn_bars fs \<subseteq> fn_bars fs'"
  by (auto simp: fn_bars_def)

definition scan_inv :: "(cfg_reg \<Rightarrow> u32) \<Rightarrow> (cfg_reg \<Rightarrow> u32) \<Rightarrow> (u8 \<times> u8) list \<Rightarrow> cfg_reg set \<Rightarrow> (cfg_reg \<Rightarrow> u32) \<Rightarrow> nat \<Rightarrow> bool" where
  "scan_inv wmask c0 us G c n \<longleftrightarrow> alloc_inv wmask c0 G c n \<and> G \<subseteq> fn_bars (set us) \<and>
     (\<forall>r \<in> fn_bars {f \<in> set us. fn_present c0 f}. settled wmask G c n r)"

context riscv_hardware
begin

lemma wp_scan:
  fixes w :: "('e, 'z) riscv_world_scheme"
  assumes c0: "c0 = cfg (env w)"
    and bars: "\<And>bus dev i. (bus, dev) \<in> set fs \<Longrightarrow> i < 6 \<Longrightarrow> bar_ok (wmask (bar_reg bus dev i)) (c0 (bar_reg bus dev i))"
    and fs: "distinct fs" "\<And>bus dev. (bus, dev) \<in> set fs \<Longrightarrow> unat dev < 32"
    and n: "unat PCI_MMIO_BASE \<le> unat (next_mmio_address w)" "unat (next_mmio_address w) \<le> MMIO_LIMIT"
  defines "pres us \<equiv> filter (fn_present c0) us"
  shows "wp (for_fold fs (\<lambda>(bus, dev). pci_process_device b True bus dev) 0) (\<lambda>m w'.
     m = int (length (pres fs)) \<and> reported w' = reported w @ map (fn_report wmask (cfg (env w'))) (pres fs) \<and>
     next_mmio_device_num w' = next_mmio_device_num w \<and>
     (\<exists>G. scan_inv wmask c0 fs G (cfg (env w')) (unat (next_mmio_address w')))) w"
proof (rule wp_for_fold [where I = "\<lambda>us m w'. m = int (length (pres us)) \<and>
     reported w' = reported w @ map (fn_report wmask (cfg (env w'))) (pres us) \<and>
     next_mmio_device_num w' = next_mmio_device_num w \<and>
     (\<exists>G. scan_inv wmask c0 us G (cfg (env w')) (unat (next_mmio_address w')))"], goal_cases)
  case 1
  show ?case
    using n by (auto simp: pres_def c0 scan_inv_def alloc_inv_def regions_ok_def fn_bars_def intro!: exI [of _ "{}"])
next
  case (2 us f vs m w1)
  obtain bus dev where f: "f = (bus, dev)" by (cases f)
  from 2(2) obtain G where G: "scan_inv wmask c0 us G (cfg (env w1)) (unat (next_mmio_address w1))" by blast
  have m: "m = int (length (pres us))"
    and rep: "reported w1 = reported w @ map (fn_report wmask (cfg (env w1))) (pres us)"
    and num: "next_mmio_device_num w1 = next_mmio_device_num w" using 2(2) by auto
  have inv: "alloc_inv wmask c0 G (cfg (env w1)) (unat (next_mmio_address w1))" and Gus: "G \<subseteq> fn_bars (set us)"
    and set: "\<And>r. r \<in> fn_bars {f \<in> set us. fn_present c0 f} \<Longrightarrow> settled wmask G (cfg (env w1)) (unat (next_mmio_address w1)) r"
    using G by (auto simp: scan_inv_def)
  have fin: "f \<in> set fs" "f \<notin> set us" using 2(1) fs(1) by auto
  have dev: "unat dev < 32" using fs(2) fin f by auto
  have c0_id: "cfg (env w1) (p, d, 0, 0) = c0 (p, d, 0, 0)" for p d
  proof -
    have "(p, d, 0, 0) \<notin> G" using Gus by auto
    then show ?thesis using inv by (simp add: alloc_inv_def)
  qed
  then have pres_eq: "fn_present (cfg (env w1)) = fn_present c0"
    by (auto simp: fun_eq_iff fn_present_def fn_vendor_def)
  show ?case
  proof (cases "fn_present c0 f")
    case False
    have "scan_inv wmask c0 (us @ [f]) G (cfg (env w1)) (unat (next_mmio_address w1))"
    proof -
      have "{f' \<in> set (us @ [f]). fn_present c0 f'} = {f \<in> set us. fn_present c0 f}" using False by auto
      moreover have "fn_bars (set us) \<subseteq> fn_bars (set (us @ [f]))" by (rule fn_bars_mono) auto
      ultimately show ?thesis using inv Gus set by (simp add: scan_inv_def)
    qed
    then show ?thesis
      using False m rep num dev pres_eq by (auto simp: f pres_def intro!: wp_absent)
  next
    case True
    show ?thesis
      unfolding f prod.case
    proof (rule wp_process [where ?c0.0 = c0 and G = G, OF dev _ inv], goal_cases)
      case (5 w2 G2)
      have old: "cfg (env w2) (p, d, 0, k) = cfg (env w1) (p, d, 0, k)" if "(p, d) \<noteq> (bus, dev)" for p d k
        using that by (intro 5(6)) auto
      have old0: "cfg (env w2) (bus, dev, 0, 0) = cfg (env w1) (bus, dev, 0, 0)"
        by (intro 5(6)) auto
      have rep_eq: "map (fn_report wmask (cfg (env w2))) (pres us) = map (fn_report wmask (cfg (env w1))) (pres us)"
        using fin(2) f by (intro map_cong refl fn_report_cong old) (auto simp: pres_def)
      have "scan_inv wmask c0 (us @ [f]) G2 (cfg (env w2)) (unat (next_mmio_address w2))"
        unfolding scan_inv_def
      proof (intro conjI ballI)
        show "alloc_inv wmask c0 G2 (cfg (env w2)) (unat (next_mmio_address w2))" by (rule 5(1))
        show "G2 \<subseteq> fn_bars (set (us @ [f]))" 
        proof -
          have "bar_reg bus dev ` {0, 1, 4} \<subseteq> fn_bars (set (us @ [f]))" by (auto simp: f)
          moreover have "fn_bars (set us) \<subseteq> fn_bars (set (us @ [f]))" by (rule fn_bars_mono) auto
          ultimately show ?thesis using 5(3) Gus by blast
        qed
        fix r assume r: "r \<in> fn_bars {f' \<in> set (us @ [f]). fn_present c0 f'}"
        obtain p d k where pdk: "r = (p, d, 0, k)" "k \<in> {4, 5, 8}" using r by (auto simp: fn_bars_def)
        show "settled wmask G2 (cfg (env w2)) (unat (next_mmio_address w2)) r"
        proof (cases "(p, d) = f")
          case True
          then show ?thesis using pdk f 5(5) [of 0] 5(5) [of 1] 5(5) [of 4] by auto
        next
          case False
          then have "r \<in> fn_bars {f \<in> set us. fn_present c0 f}" using r pdk by auto
          then show ?thesis
            using settled_mono [OF set 5(2,4)] old [of p d k] False f pdk(1) by simp
        qed
      qed
      moreover have "pres (us @ [f]) = pres us @ [f]" using True by (simp add: pres_def)
      ultimately show ?case
        using m rep num 5(7,8) rep_eq f by auto
    qed (use True pres_eq f bars fin Gus in auto)
  qed
qed

end

section \<open>The devices of the tree\<close>

text \<open>What the callback makes of a device of the tree, with the next number to give out.\<close>

fun tree_reports :: "(u64 \<Rightarrow> u32) \<Rightarrow> u8 \<Rightarrow> device list \<Rightarrow> device list" where
  "tree_reports regs n [] = []"
| "tree_reports regs n (d # ds) =
     (if map_option cstr (dev_compatible d) \<noteq> Some ''virtio,mmio'' then d # tree_reports regs n ds
      else case (if reg_base d = 0 then None else virtio_id regs (reg_base d)) of
        None \<Rightarrow> tree_reports regs n ds
      | Some devid \<Rightarrow> d\<lparr>vendor_id := 0x1AF4, device_id := devid, dev_bus := 0, device_num := n\<rparr> # tree_reports regs (n + 1) ds)"

lemma compat_test: "(case dev_compatible d of None \<Rightarrow> True | Some c \<Rightarrow> strcmp c ''virtio,mmio'' \<noteq> 0) \<longleftrightarrow>
    map_option cstr (dev_compatible d) \<noteq> Some ''virtio,mmio''"
  by (auto simp: strcmp_eq_0 split: option.split)

lemma reported_append: "reported_update (\<lambda>rs. rs @ ds) w = w\<lparr>reported := reported w @ ds\<rparr>"
  by (cases w) simp

lemma wp_tree:
  fixes w :: "('e, 'z) riscv_world_scheme"
  assumes "\<And>d. d \<in> set ds \<Longrightarrow> map_option cstr (dev_compatible d) = Some ''virtio,mmio'' \<Longrightarrow> id_regs b regs (reg_base d)"
    and "\<And>n. Q () (w\<lparr>next_mmio_device_num := n, reported := reported w @ tree_reports regs (next_mmio_device_num w) ds\<rparr>)"
  shows "wp (for_each ds (probe_virtio_callback b True)) Q w"
  using assms
proof (induction ds arbitrary: w)
  case Nil
  from Nil(2) [of "next_mmio_device_num w"] show ?case by (simp add: wp_simps)
next
  case (Cons d ds)
  have IH: "wp (for_each ds (probe_virtio_callback b True)) Q w'"
    if "\<And>n. Q () (w'\<lparr>next_mmio_device_num := n, reported := reported w' @ tree_reports regs (next_mmio_device_num w') ds\<rparr>)" for w'
    using Cons.IH [OF _ that] Cons.prems(1) by simp
  let ?v = "if reg_base d = 0 then None else virtio_id regs (reg_base d)"
  show ?case
  proof (cases "map_option cstr (dev_compatible d) = Some ''virtio,mmio''")
    case False
    then have "wp (probe_virtio_callback b True d) R w = R () (w\<lparr>reported := reported w @ [d]\<rparr>)" for R
      by (simp add: probe_virtio_callback_def compat_test wp_simps reported_append)
    then show ?thesis
      using Cons.prems(2) False by (simp add: wp_bind) (intro IH; simp)
  next
    case virtio: True
    have run: "run_state (virtio_mmio_identify b (reg_base d)) w = (virtio_id regs (reg_base d), w)"
      using Cons.prems(1) virtio by (intro virtio_mmio_identify_eq) simp
    have probe: "wp (virtio_mmio_probe_device b (Some d)) R w = R (if reg_base d = 0 then None
         else map_option (\<lambda>devid. d\<lparr>vendor_id := 0x1AF4, device_id := devid\<rparr>) (virtio_id regs (reg_base d))) w" for R
      by (simp add: wp_def virtio_mmio_probe_device_def run split: option.split)
    show ?thesis
    proof (cases ?v)
      case None
      then have "wp (probe_virtio_callback b True d) R w = R () w" for R
        unfolding probe_virtio_callback_def compat_test using virtio
        by (simp add: wp_bind probe wp_return split: if_splits)
      then show ?thesis
        using Cons.prems(2) virtio None by (simp add: wp_bind) (intro IH; simp)
    next
      case (Some devid)
      then have "wp (probe_virtio_callback b True d) R w = R () (w\<lparr>next_mmio_device_num := next_mmio_device_num w + 1,
          reported := reported w @ [d\<lparr>vendor_id := 0x1AF4, device_id := devid, dev_bus := 0, device_num := next_mmio_device_num w\<rparr>]\<rparr>)" for R
        unfolding probe_virtio_callback_def compat_test using virtio
        by (simp add: wp_simps probe Let_def reported_append split: if_splits)
      then show ?thesis
        using Cons.prems(2) virtio Some by (simp add: wp_bind) (intro IH; simp)
    qed
  qed
qed

context riscv_hardware
begin

lemma wp_enumerate:
  fixes w :: "('e, 'z) riscv_world_scheme"
  assumes "\<forall>bus dev i. (bus, dev) \<in> set (pci_functions 2 32) \<and> i < 6 \<longrightarrow>
      bar_ok (wmask (bar_reg bus dev i)) (cfg (env w) (bar_reg bus dev i))"
    and "unat PCI_MMIO_BASE \<le> unat (next_mmio_address w)" "unat (next_mmio_address w) \<le> MMIO_LIMIT"
  shows "wp (pcie_enumerate_devices b True) (\<lambda>m w'.
      m = int (length (filter (fn_present (cfg (env w))) (pci_functions 2 32))) \<and>
      reported w' = reported w @ map (fn_report wmask (cfg (env w'))) (filter (fn_present (cfg (env w))) (pci_functions 2 32)) \<and>
      next_mmio_device_num w' = next_mmio_device_num w \<and>
      (\<exists>G. scan_inv wmask (cfg (env w)) (pci_functions 2 32) G (cfg (env w')) (unat (next_mmio_address w')))) w"
  unfolding pcie_enumerate_devices_def PCI_MAX_BUSES_def PCI_MAX_DEVICES_def
  by (rule wp_scan [OF refl]) (use assms pci_functions_distinct [of 2 32] pci_functions_dev in auto)

lemma wp_detect: "wp (pci_detect_ecam b) Q w = Q (fn_present (cfg (env w)) (0, 0)) w"
proof -
  have "bus_read32 b (ecam_address PCIE_ECAM_BASE 0 0 0 0) (env w) = (cfg (env w) (0, 0, 0, unat (0 :: u16) div 4), env w)"
    by (rule read_addr) (simp add: cfg_valid_def)
  then have "bus_read32 b PCIE_ECAM_BASE (env w) = (cfg (env w) (0, 0, 0, 0), env w)"
    by (simp add: ecam_address_def)
  then show ?thesis
    by (simp add: pci_detect_ecam_def wp_simps Let_def ucast_and_FFFF fn_present_def fn_vendor_def half_def half_shift_def
        PCI_VENDOR_ID_OFFSET_def)
qed

lemma wp_discover:
  fixes w :: "('e, 'z) riscv_world_scheme"
  assumes bars: "\<forall>bus dev i. (bus, dev) \<in> set (pci_functions 2 32) \<and> i < 6 \<longrightarrow>
      bar_ok (wmask (bar_reg bus dev i)) (cfg (env w) (bar_reg bus dev i))"
    and n: "unat PCI_MMIO_BASE \<le> unat (next_mmio_address w)" "unat (next_mmio_address w) \<le> MMIO_LIMIT"
    and tree: "\<And>d. d \<in> set ds \<Longrightarrow> map_option cstr (dev_compatible d) = Some ''virtio,mmio'' \<Longrightarrow> id_regs b regs (reg_base d)"
  defines "present \<equiv> if fn_present (cfg (env w)) (0, 0) then filter (fn_present (cfg (env w))) (pci_functions 2 32) else []"
  shows "wp (discover_devices b ds k True) (\<lambda>n w'. n = int (length present) + k \<and>
     reported w' = reported w @ map (fn_report wmask (cfg (env w'))) present @ tree_reports regs (next_mmio_device_num w) ds) w"
proof -
  let ?Q = "\<lambda>n w'. n = int (length present) + k \<and>
     reported w' = reported w @ map (fn_report wmask (cfg (env w'))) present @ tree_reports regs (next_mmio_device_num w) ds"
  have tail: "wp (for_each ds (probe_virtio_callback b True)) (\<lambda>_. wp (State_Monad.return (int (length present) + k)) ?Q) w1"
    if "reported w1 = reported w @ map (fn_report wmask (cfg (env w1))) present" "next_mmio_device_num w1 = next_mmio_device_num w" for w1
    by (rule wp_tree [OF tree]) (use that in \<open>simp_all add: wp_return\<close>)
  have scan: "wp (pcie_enumerate_devices b True) (\<lambda>m. wp (for_each ds (probe_virtio_callback b True))
      (\<lambda>_. wp (State_Monad.return (m + k)) ?Q)) w1"
    if "fn_present (cfg (env w)) (0, 0)" "env w1 = env w" "reported w1 = reported w" "next_mmio_device_num w1 = next_mmio_device_num w"
      "next_mmio_address w1 = next_mmio_address w" for w1
  proof (rule wp_mono [OF wp_enumerate])
    fix m w2 assume *: "m = int (length (filter (fn_present (cfg (env w1))) (pci_functions 2 32))) \<and>
      reported w2 = reported w1 @ map (fn_report wmask (cfg (env w2))) (filter (fn_present (cfg (env w1))) (pci_functions 2 32)) \<and>
      next_mmio_device_num w2 = next_mmio_device_num w1 \<and>
      (\<exists>G. scan_inv wmask (cfg (env w1)) (pci_functions 2 32) G (cfg (env w2)) (unat (next_mmio_address w2)))"
    show "wp (for_each ds (probe_virtio_callback b True)) (\<lambda>_. wp (State_Monad.return (m + k)) ?Q) w2"
      using tail [of w2] * that by (simp add: present_def)
  qed (use bars n that in simp_all)
  have none: "wp (for_each ds (probe_virtio_callback b True)) (\<lambda>_. wp (State_Monad.return (0 + k)) ?Q) w1"
    if "\<not> fn_present (cfg (env w)) (0, 0)" "reported w1 = reported w" "next_mmio_device_num w1 = next_mmio_device_num w" for w1
    using tail [of w1] that by (simp add: present_def)
  show ?thesis
    unfolding discover_devices_def
    by (simp add: wp_simps wp_detect case_prod_beta Let_def del: add_0_left) (intro conjI impI scan none; simp)
qed

end

section \<open>Properties\<close>



section \<open>A machine\<close>




abbreviation riscv_bus :: "(cfg_reg \<Rightarrow> u32) \<Rightarrow> pci_machine bus" where
  "riscv_bus \<equiv> machine_bus PCIE_ECAM_BASE"

interpretation riscv_machine: riscv_hardware "riscv_bus wm" pm_cfg wm for wm
  by (rule riscv_hardwareI [OF machine_ecam_hw])

interpretation riscv_cfg: config_space "pcie_ecam_read32 (riscv_bus wm)" "pcie_ecam_write32 (riscv_bus wm)"
  "\<lambda>w. pm_cfg (env w)" wm world_rest "\<lambda>_. True" for wm
  unfolding pcie_ecam_read32_def pcie_ecam_write32_def by (rule ecam_config_space [OF machine_ecam_hw riscv_base])












end
