(* ===== verification/Pci_Arm64.thy ===== *)
theory Pci_Arm64
  imports Pci_Config
begin

text \<open>
  Device discovery on ARM64, \<^verbatim>\<open>kernel/devices/devices_arm64.c\<close>. Unlike on RISC-V a BAR that holds an address
  keeps it, and the allocator does not align the addresses it gives out.
\<close>

record 'e arm64_world = "'e world" +
  next_mmio_address :: u64
  pci_log :: "nat option"
  reported :: "device list"

definition PCIE_ECAM_BASE :: u64 where "PCIE_ECAM_BASE = 0x4010000000"
definition PCI_MMIO_BASE :: u64 where "PCI_MMIO_BASE = 0x10000000"
definition PCI_MMIO_SIZE :: u64 where "PCI_MMIO_SIZE = 0x10000000"


definition pcie_ecam_address :: "u8 \<Rightarrow> u8 \<Rightarrow> u8 \<Rightarrow> u16 \<Rightarrow> u64" where
  "pcie_ecam_address = ecam_address PCIE_ECAM_BASE"

definition pcie_ecam_read16 :: "'e bus \<Rightarrow> (('e, 'z) world_scheme, u16) cfg_access" where
  "pcie_ecam_read16 = ecam_read16 PCIE_ECAM_BASE"

definition pcie_ecam_read32 :: "'e bus \<Rightarrow> (('e, 'z) world_scheme, u32) cfg_access" where
  "pcie_ecam_read32 = ecam_read32 PCIE_ECAM_BASE"

definition pcie_ecam_write16 :: "'e bus \<Rightarrow> u8 \<Rightarrow> u8 \<Rightarrow> u8 \<Rightarrow> u16 \<Rightarrow> u16 \<Rightarrow> (('e, 'z) world_scheme, unit) state" where
  "pcie_ecam_write16 = ecam_write16 PCIE_ECAM_BASE"

definition pcie_ecam_write32 :: "'e bus \<Rightarrow> u8 \<Rightarrow> u8 \<Rightarrow> u8 \<Rightarrow> u16 \<Rightarrow> u32 \<Rightarrow> (('e, 'z) world_scheme, unit) state" where
  "pcie_ecam_write32 = ecam_write32 PCIE_ECAM_BASE"

definition pci_probe_bar_size :: "'e bus \<Rightarrow> u8 \<Rightarrow> u8 \<Rightarrow> u8 \<Rightarrow> u8 \<Rightarrow> (('e, 'z) world_scheme, u64) state" where
  "pci_probe_bar_size b = probe_bar_size (pcie_ecam_read32 b) (pcie_ecam_write32 b)"

definition pci_assign_bar_if_needed ::
  "'e bus \<Rightarrow> u8 \<Rightarrow> u8 \<Rightarrow> u8 \<Rightarrow> u8 \<Rightarrow> u64 \<Rightarrow> (('e, 'z) arm64_world_scheme, u32) state" where
  "pci_assign_bar_if_needed b bus device fn bar_offset sz = do {
     bar_value \<leftarrow> pcie_ecam_read32 b bus device fn (ucast bar_offset);
     next_mmio \<leftarrow> gets next_mmio_address;
     if bar_value AND 0x1 = 0 then
       (if bar_value AND 0xFFFFFFF0 \<noteq> 0 then State_Monad.return bar_value
        else if sz > 0 \<and> next_mmio + sz \<le> PCI_MMIO_BASE + PCI_MMIO_SIZE then do {
          let new_bar = ucast next_mmio OR (bar_value AND 0xF);
          pcie_ecam_write32 b bus device fn (ucast bar_offset) new_bar;
          modify (next_mmio_address_update (\<lambda>n. n + sz));
          State_Monad.return new_bar }
        else State_Monad.return bar_value)
     else State_Monad.return bar_value }"

definition pci_detect_ecam :: "'e bus \<Rightarrow> (('e, 'z) world_scheme, bool) state" where
  "pci_detect_ecam b = do {
     test_value \<leftarrow> mem_read32 b PCIE_ECAM_BASE;
     let vendor = (ucast (test_value AND 0xFFFF) :: u16);
     State_Monad.return (vendor \<noteq> 0x0000 \<and> vendor \<noteq> 0xFFFF) }"

text \<open>The \<^verbatim>\<open>dev_info\<close> of the scan.\<close>

definition pci_dev_info :: "u8 \<Rightarrow> u8 \<Rightarrow> u16 \<Rightarrow> u16 \<Rightarrow> u64 \<Rightarrow> u64 \<Rightarrow> device" where
  "pci_dev_info bus dev vendor devid base sz = zero_device\<lparr>
     dev_compatible := None, dev_name := None, reg_base := base, reg_size := sz, vendor_id := vendor, device_id := devid,
     dev_bus := bus, device_num := dev, dev_function := 0, dev_driver := None, dev_state := DEVICE_STATE_DISCOVERED,
     mmio_virt := 0, dev_parent := None, first_child := None, next_sibling := None, dev_depth := 0, dev_next := None\<rparr>"

text \<open>The body of the inner loop of \<^verbatim>\<open>pcie_enumerate_devices\<close>.\<close>

definition pcie_scan_device :: "'e bus \<Rightarrow> bool \<Rightarrow> u8 \<Rightarrow> u8 \<Rightarrow> int \<Rightarrow> (('e, 'z) arm64_world_scheme, int) state" where
  "pcie_scan_device b callback bus device device_count = do {
     vendor \<leftarrow> pcie_ecam_read16 b bus device 0 PCI_VENDOR_ID_OFFSET;
     if vendor = 0xFFFF \<or> vendor = 0x0000 then State_Monad.return device_count
     else do {
       device_val \<leftarrow> pcie_ecam_read16 b bus device 0 PCI_DEVICE_ID_OFFSET;
       bar0_size \<leftarrow> pci_probe_bar_size b bus device 0 (ucast PCI_BAR0_OFFSET);
       bar1_size \<leftarrow> pci_probe_bar_size b bus device 0 (ucast PCI_BAR1_OFFSET);
       bar0 \<leftarrow> pci_assign_bar_if_needed b bus device 0 (ucast PCI_BAR0_OFFSET) bar0_size;
       bar1 \<leftarrow> pci_assign_bar_if_needed b bus device 0 (ucast PCI_BAR1_OFFSET) bar1_size;
       let (base, sz) =
         (if bar0 AND 0x1 \<noteq> 0 \<and> bar1_size > 0 \<and> bar1 AND 0x1 = 0
          then (ucast (bar1 AND 0xFFFFFFF0), bar1_size)
          else (ucast (bar0 AND 0xFFFFFFF0), bar0_size));
       cmd \<leftarrow> pcie_ecam_read16 b bus device 0 PCI_COMMAND_OFFSET;
       pcie_ecam_write16 b bus device 0 PCI_COMMAND_OFFSET (cmd OR (PCI_COMMAND_MEMORY OR PCI_COMMAND_MASTER));
       let dev_info = pci_dev_info bus device vendor device_val base sz;
       modify (reported_update (\<lambda>rs. if callback then rs @ [dev_info] else rs));
       State_Monad.return (device_count + 1) } }"

definition pcie_enumerate_devices :: "'e bus \<Rightarrow> bool \<Rightarrow> (('e, 'z) arm64_world_scheme, int) state" where
  "pcie_enumerate_devices b callback =
     for_fold (pci_functions 2 32) (\<lambda>(bus, device). pcie_scan_device b callback bus device) 0"

definition probe_virtio_callback :: "'e bus \<Rightarrow> bool \<Rightarrow> device \<Rightarrow> (('e, 'z) arm64_world_scheme, unit) state" where
  "probe_virtio_callback b user_callback device =
     (if (case dev_compatible device of None \<Rightarrow> True | Some c \<Rightarrow> strcmp c ''virtio,mmio'' \<noteq> 0)
      then modify (reported_update (\<lambda>rs. if user_callback then rs @ [device] else rs))
      else do {
        r \<leftarrow> virtio_mmio_probe_device b (Some device);
        (case r of
           None \<Rightarrow> State_Monad.return ()
         | Some mutable_device \<Rightarrow> modify (reported_update (\<lambda>rs. if user_callback then rs @ [mutable_device] else rs))) })"

text \<open>As on RISC-V, the parser's devices and count are arguments of the function proper.\<close>

definition discover_devices :: "'e bus \<Rightarrow> device list \<Rightarrow> int \<Rightarrow> bool \<Rightarrow> (('e, 'z) arm64_world_scheme, int) state" where
  "discover_devices b tree tree_count callback = do {
     tag \<leftarrow> gets pci_log;
     lg \<leftarrow> gets logger;
     let (tag, lg) = (case tag of None \<Rightarrow> log_register lg ''pci'' LOG_INFO | Some t \<Rightarrow> (Some t, lg));
     modify (\<lambda>w. w\<lparr>logger := lg, pci_log := tag\<rparr>);
     ecam \<leftarrow> pci_detect_ecam b;
     total_devices \<leftarrow> (if ecam then do {
         (if log_enabled (log_deref lg tag) LOG_DEBUG
          then print (log_prefix (log_deref lg tag) LOG_DEBUG @ ''Using PCIe ECAM at 0x'' @ put_hex64 PCIE_ECAM_BASE @ [CHR 0x0A])
          else State_Monad.return ());
         pcie_enumerate_devices b callback }
       else State_Monad.return 0);
     for_each tree (probe_virtio_callback b callback);
     State_Monad.return (total_devices + tree_count) }"

definition devices_enumerate :: "'e bus \<Rightarrow> u8 list option \<Rightarrow> bool \<Rightarrow> (('e, 'z) arm64_world_scheme, int) state option" where
  "devices_enumerate b fdt callback = do {
     (tree, tree_count) \<leftarrow> (case fdt of None \<Rightarrow> Some ([], 0) | Some mem \<Rightarrow> fdt_enumerate_devices (Some mem) True);
     Some (discover_devices b tree tree_count callback) }"

definition devices_find :: "string option \<Rightarrow> int" where
  "devices_find compatible = 0"

definition devices_get_name :: "u16 \<Rightarrow> u16 \<Rightarrow> string option" where
  "devices_get_name vendor devid = None"

section \<open>The scan\<close>

lemma arm64_base: "take_bit 28 PCIE_ECAM_BASE = 0"
  by (simp add: PCIE_ECAM_BASE_def)

locale arm64_hardware = ecam_hardware PCIE_ECAM_BASE b cfg wmask
  for b :: "'e bus" and cfg :: "'e \<Rightarrow> cfg_reg \<Rightarrow> u32" and wmask :: "cfg_reg \<Rightarrow> u32"

lemma arm64_hardwareI: "ecam_hw PCIE_ECAM_BASE b cfg wmask \<Longrightarrow> arm64_hardware b cfg wmask"
  by unfold_locales (simp_all add: arm64_base)

text \<open>A BAR is in use when it is an I/O BAR or holds an address already.\<close>

definition bar_used :: "u32 \<Rightarrow> bool" where
  "bar_used v \<longleftrightarrow> v AND 1 \<noteq> 0 \<or> v AND 0xFFFFFFF0 \<noteq> 0"

text \<open>What the report of a function says for sure.\<close>

definition reports_fn :: "(cfg_reg \<Rightarrow> u32) \<Rightarrow> (cfg_reg \<Rightarrow> u32) \<Rightarrow> u8 \<times> u8 \<Rightarrow> device \<Rightarrow> bool" where
  "reports_fn wmask c f d \<longleftrightarrow> dev_bus d = fst f \<and> device_num d = snd f \<and> vendor_id d = fn_vendor c f \<and>
     device_id d = half PCI_DEVICE_ID_OFFSET (c (fst f, snd f, 0, 0)) \<and>
     (let bar0 = c (bar_reg (fst f) (snd f) 0) in bar0 AND 1 = 0 \<and> bar_used bar0 \<longrightarrow>
        reg_base d = ucast (bar0 AND 0xFFFFFFF0) \<and> reg_size d = bar_size (wmask (bar_reg (fst f) (snd f) 0)))"

context arm64_hardware
begin

lemma wp_assign:
  fixes w :: "('e, 'z) arm64_world_scheme"
  assumes "unat dev < 32" "i < 6" "unat off div 4 = 4 + i" "r = bar_reg bus dev i" "bar_ok (wmask r) (cfg (env w) r)"
    and Q: "\<And>e v n. (\<And>r'. r' \<noteq> r \<Longrightarrow> cfg e r' = cfg (env w) r') \<Longrightarrow> bar_ok (wmask r) (cfg e r) \<Longrightarrow>
      (bar_used (cfg (env w) r) \<Longrightarrow> cfg e r = cfg (env w) r \<and> v = cfg (env w) r) \<Longrightarrow>
      Q v (w\<lparr>env := e, next_mmio_address := n\<rparr>)"
  shows "wp (pci_assign_bar_if_needed b bus dev 0 off sz) Q w"
proof -
  have o: "unat (ucast off :: u16) div 4 = 4 + i" using assms(3) by (simp add: unat_ucast_up)
  have valid: "cfg_valid dev 0 (ucast off)"
    using assms(1) unat_lt8 [of off] by (simp add: cfg_valid_def unat_ucast_up)
  have keep: "Q (cfg (env w) r) w"
    using Q [of "env w" "cfg (env w) r" "next_mmio_address w"] assms(5) by simp
  have wr: "wp (pcie_ecam_write32 b bus dev 0 (ucast off) v) (\<lambda>_. wp (modify (next_mmio_address_update (\<lambda>n. n + sz)))
      (\<lambda>_. wp (State_Monad.return v) Q)) w" if "\<not> bar_used (cfg (env w) r)" for v
    unfolding pcie_ecam_write32_def
  proof (rule wp_write32 [OF valid, of r])
    fix e assume e: "cfg_write wmask r v (cfg (env w)) (cfg e)"
    have "cfg e r = written (wmask r) (cfg (env w) r) v" "\<And>r'. r' \<noteq> r \<Longrightarrow> cfg e r' = cfg (env w) r'"
      using e assms(2,4) by (auto simp: cfg_write_def)
    then have "Q v (w\<lparr>env := e, next_mmio_address := next_mmio_address w + sz\<rparr>)"
      using that assms(5) by (intro Q) (auto simp: bar_ok_written)
    moreover have "next_mmio_address_update (\<lambda>n. n + sz) (w\<lparr>env := e\<rparr>) = w\<lparr>env := e, next_mmio_address := next_mmio_address w + sz\<rparr>"
      by (cases w) simp
    ultimately show "wp (modify (next_mmio_address_update (\<lambda>n. n + sz))) (\<lambda>_. wp (State_Monad.return v) Q) (w\<lparr>env := e\<rparr>)"
      by (simp only: wp_simps)
  qed (simp add: o assms(4))
  have rd: "wp (pcie_ecam_read32 b bus dev 0 (ucast off)) R w = R (cfg (env w) r) w" for R
    using assms(4) o by (simp add: pcie_ecam_read32_def wp_read32 [OF valid])
  show ?thesis
    using keep wr by (simp add: pci_assign_bar_if_needed_def wp_simps rd Let_def bar_used_def)
qed

lemma wp_sizes:
  assumes "unat dev < 32" "bar_ok (wmask (bar_reg bus dev 0)) (cfg (env w) (bar_reg bus dev 0))"
    "bar_ok (wmask (bar_reg bus dev 1)) (cfg (env w) (bar_reg bus dev 1))"
    and "\<And>e. cfg e = cfg (env w) \<Longrightarrow> K (bar_size (wmask (bar_reg bus dev 0))) (bar_size (wmask (bar_reg bus dev 1))) (w\<lparr>env := e\<rparr>)"
  shows "wp (pci_probe_bar_size b bus dev 0 (ucast PCI_BAR0_OFFSET)) (\<lambda>s0.
     wp (pci_probe_bar_size b bus dev 0 (ucast PCI_BAR1_OFFSET)) (K s0)) w"
proof -
  have v: "cfg_valid dev 0 (ucast (ucast PCI_BAR0_OFFSET :: u8))" "cfg_valid dev 0 (ucast (ucast PCI_BAR1_OFFSET :: u8))"
    using assms(1) by (simp_all add: cfg_valid_def pci_offset_defs)
  note probe = wp_probe [folded pcie_ecam_read32_def pcie_ecam_write32_def, folded pci_probe_bar_size_def]
  show ?thesis
  proof (rule probe [OF v(1), of "bar_reg bus dev 0"])
    fix e assume "cfg e = cfg (env w)"
    then show "wp (pci_probe_bar_size b bus dev 0 (ucast PCI_BAR1_OFFSET)) (K (bar_size (wmask (bar_reg bus dev 0)))) (w\<lparr>env := e\<rparr>)"
      by (intro probe [OF v(2), of "bar_reg bus dev 1"]) (use assms(3,4) bar_offsets(2) in simp_all)
  qed (use assms(2) bar_offsets(1) in simp_all)
qed

lemma wp_assigns:
  fixes w :: "('e, 'z) arm64_world_scheme"
  assumes "unat dev < 32" "bar_ok (wmask (bar_reg bus dev 0)) (c (bar_reg bus dev 0))" "c = cfg (env w)"
    "bar_ok (wmask (bar_reg bus dev 1)) (c (bar_reg bus dev 1))"
    and K: "\<And>e v0 v1 n. (\<And>r. r \<notin> {bar_reg bus dev 0, bar_reg bus dev 1} \<Longrightarrow> cfg e r = c r) \<Longrightarrow>
      (bar_used (c (bar_reg bus dev 0)) \<Longrightarrow> cfg e (bar_reg bus dev 0) = c (bar_reg bus dev 0) \<and> v0 = c (bar_reg bus dev 0)) \<Longrightarrow>
      (bar_used (c (bar_reg bus dev 1)) \<Longrightarrow> cfg e (bar_reg bus dev 1) = c (bar_reg bus dev 1) \<and> v1 = c (bar_reg bus dev 1)) \<Longrightarrow>
      K v0 v1 (w\<lparr>env := e, next_mmio_address := n\<rparr>)"
  shows "wp (pci_assign_bar_if_needed b bus dev 0 (ucast PCI_BAR0_OFFSET) s0) (\<lambda>v0.
     wp (pci_assign_bar_if_needed b bus dev 0 (ucast PCI_BAR1_OFFSET) s1) (K v0)) w"
proof (rule wp_assign [OF assms(1) _ bar_offsets(1) refl], goal_cases)
  case (3 e v0 n)
  have c: "cfg e r = c r" if "r \<noteq> bar_reg bus dev 0" for r using 3(1) that assms(3) by simp
  show ?case
  proof (rule wp_assign [OF assms(1) _ bar_offsets(2) refl], goal_cases)
    case (3 e' v1 n')
    have "K v0 v1 (w\<lparr>env := e', next_mmio_address := n'\<rparr>)"
    proof (rule K)
      show "cfg e' r = c r" if "r \<notin> {bar_reg bus dev 0, bar_reg bus dev 1}" for r
        using 3(1) [of r] c [of r] that by simp
      show "cfg e' (bar_reg bus dev 0) = c (bar_reg bus dev 0) \<and> v0 = c (bar_reg bus dev 0)" if "bar_used (c (bar_reg bus dev 0))"
        using 3(1) [of "bar_reg bus dev 0"] \<open>bar_used (cfg (env w) (bar_reg bus dev 0)) \<Longrightarrow> _\<close> that assms(3) by simp
      show "cfg e' (bar_reg bus dev 1) = c (bar_reg bus dev 1) \<and> v1 = c (bar_reg bus dev 1)" if "bar_used (c (bar_reg bus dev 1))"
        using 3(3) c [of "bar_reg bus dev 1"] that by simp
    qed
    then show ?case by simp
  qed (use assms(4) c in simp_all)
qed (use assms(2,3) in simp_all)

text \<open>One iteration of the loop: only BARs that are not in use and the command register change.\<close>

lemma wp_scan_device:
  fixes w :: "('e, 'z) arm64_world_scheme"
  assumes dev: "unat dev < 32" and c: "c = cfg (env w)" and bars: "\<And>i. i < 6 \<Longrightarrow> bar_ok (wmask (bar_reg bus dev i)) (c (bar_reg bus dev i))"
    and absent: "\<not> fn_present c (bus, dev) \<Longrightarrow> Q m w"
    and present: "\<And>w' d. fn_present c (bus, dev) \<Longrightarrow> reported w' = reported w @ [d] \<Longrightarrow> reports_fn wmask c (bus, dev) d \<Longrightarrow>
      (\<And>r. r \<notin> {(bus, dev, 0, 1), bar_reg bus dev 0, bar_reg bus dev 1} \<Longrightarrow> cfg (env w') r = c r) \<Longrightarrow>
      (\<And>i. i < 6 \<Longrightarrow> bar_used (c (bar_reg bus dev i)) \<Longrightarrow> cfg (env w') (bar_reg bus dev i) = c (bar_reg bus dev i)) \<Longrightarrow> Q (m + 1) w'"
  shows "wp (pcie_scan_device b True bus dev m) Q w"
proof -
  have v: "cfg_valid dev 0 PCI_VENDOR_ID_OFFSET" "cfg_valid dev 0 PCI_DEVICE_ID_OFFSET" "cfg_valid dev 0 PCI_COMMAND_OFFSET"
    using dev by (simp_all add: cfg_valid_def pci_offset_defs)
  have k: "unat PCI_VENDOR_ID_OFFSET div 4 = 0" "unat PCI_DEVICE_ID_OFFSET div 4 = 0" "unat PCI_COMMAND_OFFSET div 4 = 1"
    by (simp_all add: pci_offset_defs)
  let ?r0 = "bar_reg bus dev 0" and ?r1 = "bar_reg bus dev 1"
  let ?s0 = "bar_size (wmask ?r0)" and ?s1 = "bar_size (wmask ?r1)"
  let ?v = "fn_vendor c (bus, dev)" and ?d = "half PCI_DEVICE_ID_OFFSET (c (bus, dev, 0, 0))"
  note rd = wp_read16 [folded pcie_ecam_read16_def]
  have vendor: "half PCI_VENDOR_ID_OFFSET (cfg (env w) (bus, dev, 0, 0)) = ?v" by (simp add: fn_vendor_def c)
  have tail: "wp (pcie_ecam_write16 b bus dev 0 PCI_COMMAND_OFFSET x) (\<lambda>_. wp (modify (reported_update (\<lambda>rs. rs @
        [pci_dev_info bus dev ?v ?d base sz]))) (\<lambda>_. wp (State_Monad.return (m + 1)) Q)) w1"
    if p: "fn_present c (bus, dev)" and w1: "\<And>r. r \<notin> {?r0, ?r1} \<Longrightarrow> cfg (env w1) r = c r" "reported w1 = reported w"
      "bar_used (c ?r0) \<Longrightarrow> cfg (env w1) ?r0 = c ?r0" "bar_used (c ?r1) \<Longrightarrow> cfg (env w1) ?r1 = c ?r1"
      and rep: "c ?r0 AND 1 = 0 \<Longrightarrow> bar_used (c ?r0) \<Longrightarrow> base = ucast (c ?r0 AND 0xFFFFFFF0) \<and> sz = ?s0" for w1 base sz x
    unfolding pcie_ecam_write16_def
  proof (rule wp_write16 [OF v(3) refl])
    fix e assume "cfg_write wmask (bus, dev, 0, unat PCI_COMMAND_OFFSET div 4)
      (set_half PCI_COMMAND_OFFSET x (cfg (env w1) (bus, dev, 0, unat PCI_COMMAND_OFFSET div 4))) (cfg (env w1)) (cfg e)"
    then have e: "cfg e r = cfg (env w1) r" if "r \<noteq> (bus, dev, 0, 1)" for r
      using that unfolding cfg_write_def k by (cases r) simp
    have "Q (m + 1) (w1\<lparr>env := e, reported := reported w1 @ [pci_dev_info bus dev ?v ?d base sz]\<rparr>)"
    proof (rule present [OF p])
      show "reports_fn wmask c (bus, dev) (pci_dev_info bus dev ?v ?d base sz)"
        using rep by (simp add: reports_fn_def pci_dev_info_def Let_def)
      show "cfg (env (w1\<lparr>env := e, reported := reported w1 @ [pci_dev_info bus dev ?v ?d base sz]\<rparr>)) (bar_reg bus dev i) = c (bar_reg bus dev i)"
        if "i < 6" "bar_used (c (bar_reg bus dev i))" for i
        using e [of "bar_reg bus dev i"] w1 that by (cases "i = 0 \<or> i = 1") auto
    qed (use w1 e in auto)
    moreover have "reported_update (\<lambda>rs. rs @ [pci_dev_info bus dev ?v ?d base sz]) (w1\<lparr>env := e\<rparr>) =
        w1\<lparr>env := e, reported := reported w1 @ [pci_dev_info bus dev ?v ?d base sz]\<rparr>"
      by (cases w1) simp
    ultimately show "wp (modify (reported_update (\<lambda>rs. rs @ [pci_dev_info bus dev ?v ?d base sz])))
        (\<lambda>_. wp (State_Monad.return (m + 1)) Q) (w1\<lparr>env := e\<rparr>)"
      by (simp only: wp_simps)
  qed
  show ?thesis
  proof (cases "fn_present c (bus, dev)")
    case False
    then have "?v = 0xFFFF \<or> ?v = 0" by (auto simp: fn_present_def)
    with absent [OF False] show ?thesis
      by (simp add: pcie_scan_device_def wp_simps rd [OF v(1)] k vendor)
  next
    case True
    then have nv: "(?v = 0xFFFF \<or> ?v = 0) = False" by (auto simp: fn_present_def)
    show ?thesis
      unfolding pcie_scan_device_def wp_bind rd [OF v(1)] k vendor wp_if
    proof (simp only: nv if_False wp_bind rd [OF v(2)] k, rule wp_sizes [OF dev], goal_cases)
      case (3 e1)
      have w1: "cfg (env (w\<lparr>env := e1\<rparr>)) = c" using 3 c by simp
      show ?case
      proof (rule wp_assigns [where c = c, OF dev _ w1 [symmetric]], goal_cases)
        case (3 e v0 v1 n)
        show ?case
          by (simp add: rd [OF v(3)] k Let_def wp_bind c [symmetric] del: One_nat_def)
            (intro conjI impI; rule tail [OF True]; use 3 in auto)
      qed (use bars [of 0] bars [of 1] in auto)
    qed (use bars [of 0] bars [of 1] c in auto)
  qed
qed

lemma wp_scan:
  fixes w :: "('e, 'z) arm64_world_scheme"
  assumes c: "c = cfg (env w)" and fs: "distinct fs" "\<And>bus dev. (bus, dev) \<in> set fs \<Longrightarrow> unat dev < 32"
    and bars: "\<And>bus dev i. (bus, dev) \<in> set fs \<Longrightarrow> i < 6 \<Longrightarrow> bar_ok (wmask (bar_reg bus dev i)) (c (bar_reg bus dev i))"
  shows "wp (for_fold fs (\<lambda>(bus, dev). pcie_scan_device b True bus dev) 0) (\<lambda>m w'. m = int (length (filter (fn_present c) fs)) \<and>
     (\<exists>ds. reported w' = reported w @ ds \<and> list_all2 (reports_fn wmask c) (filter (fn_present c) fs) ds) \<and>
     (\<forall>bus dev k. (bus, dev) \<notin> set fs \<or> k \<notin> {1, 4, 5} \<longrightarrow> cfg (env w') (bus, dev, 0, k) = c (bus, dev, 0, k)) \<and>
     (\<forall>bus dev i. i < 6 \<longrightarrow> bar_used (c (bar_reg bus dev i)) \<longrightarrow> cfg (env w') (bar_reg bus dev i) = c (bar_reg bus dev i))) w"
proof (rule wp_for_fold [where I = "\<lambda>us m w'. m = int (length (filter (fn_present c) us)) \<and>
     (\<exists>ds. reported w' = reported w @ ds \<and> list_all2 (reports_fn wmask c) (filter (fn_present c) us) ds) \<and>
     (\<forall>bus dev k. (bus, dev) \<notin> set us \<or> k \<notin> {1, 4, 5} \<longrightarrow> cfg (env w') (bus, dev, 0, k) = c (bus, dev, 0, k)) \<and>
     (\<forall>bus dev i. i < 6 \<longrightarrow> bar_used (c (bar_reg bus dev i)) \<longrightarrow> cfg (env w') (bar_reg bus dev i) = c (bar_reg bus dev i))"], goal_cases)
  case (2 us f vs m w1)
  obtain bus dev where f: "f = (bus, dev)" by (cases f)
  have fin: "f \<in> set fs" "f \<notin> set us" using 2(1) fs(1) by auto
  have same: "cfg (env w1) (bus, dev, 0, k) = c (bus, dev, 0, k)" for k using 2(2) fin(2) f by simp
  have pres: "fn_present (cfg (env w1)) (bus, dev) = fn_present c (bus, dev)"
    "reports_fn wmask (cfg (env w1)) (bus, dev) = reports_fn wmask c (bus, dev)"
    using same by (auto simp: fun_eq_iff fn_present_def fn_vendor_def reports_fn_def)
  show ?case
    unfolding f prod.case
  proof (rule wp_scan_device [OF fs(2) refl], goal_cases)
    case (4 w' d)
    obtain ds where ds: "reported w1 = reported w @ ds" "list_all2 (reports_fn wmask c) (filter (fn_present c) us) ds" using 2(2) by blast
    have other: "cfg (env w') r = cfg (env w1) r" if "r \<notin> {(bus, dev, 0, 1), bar_reg bus dev 0, bar_reg bus dev 1}" for r
      using 4(4) that by simp
    have "reported w' = reported w @ (ds @ [d])" "list_all2 (reports_fn wmask c) (filter (fn_present c) (us @ [(bus, dev)])) (ds @ [d])"
      using ds 4(1,2,3) pres by (simp_all add: list_all2_appendI)
    moreover have "cfg (env w') (p, q, 0, k) = c (p, q, 0, k)" if "(p, q) \<notin> set (us @ [(bus, dev)]) \<or> k \<notin> {1, 4, 5}" for p q k
      using other [of "(p, q, 0, k)"] 2(2) that by auto
    moreover have "cfg (env w') (bar_reg p q i) = c (bar_reg p q i)" if "i < 6" "bar_used (c (bar_reg p q i))" for p q i
      using other [of "bar_reg p q i"] 4(5) [OF that(1)] 2(2) that same by (cases "(p, q) = (bus, dev)") auto
    ultimately show ?case using 2(2) 4(1) pres by auto
  qed (use fin f bars same 2(2) pres in auto)
qed (simp add: c)

end

section \<open>Properties\<close>





abbreviation arm64_bus :: "(cfg_reg \<Rightarrow> u32) \<Rightarrow> pci_machine bus" where
  "arm64_bus \<equiv> machine_bus PCIE_ECAM_BASE"

interpretation arm64_machine: arm64_hardware "arm64_bus wm" pm_cfg wm for wm
  by (rule arm64_hardwareI [OF machine_ecam_hw])

interpretation arm64_cfg: config_space "pcie_ecam_read32 (arm64_bus wm)" "pcie_ecam_write32 (arm64_bus wm)"
  "\<lambda>w. pm_cfg (env w)" wm world_rest "\<lambda>_. True" for wm
  unfolding pcie_ecam_read32_def pcie_ecam_write32_def by (rule ecam_config_space [OF machine_ecam_hw arm64_base])





end
