(* ===== verification/Pci_Amd64.thy ===== *)
theory Pci_Amd64
  imports Pci_Config
begin

text \<open>
  Device discovery on AMD64, \<^verbatim>\<open>kernel/devices/devices_amd64.c\<close>: configuration space through the ports
  \<^verbatim>\<open>0xCF8\<close> (address) and \<^verbatim>\<open>0xCFC\<close> (data), or memory-mapped when \<^verbatim>\<open>use_ecam\<close> is set.
\<close>

record 'e amd64_world = "'e world" +
  use_ecam :: bool
  pci_log :: "nat option"
  reported :: "device list"

definition PCI_CONFIG_ADDRESS_PORT :: u16 where "PCI_CONFIG_ADDRESS_PORT = 0xCF8"
definition PCI_CONFIG_DATA_PORT :: u16 where "PCI_CONFIG_DATA_PORT = 0xCFC"
definition PCI_ENABLE_BIT :: u32 where "PCI_ENABLE_BIT = 0x80000000"
definition PCIE_ECAM_BASE :: u64 where "PCIE_ECAM_BASE = 0xB0000000"


section \<open>Ports\<close>

definition pci_make_address :: "u8 \<Rightarrow> u8 \<Rightarrow> u8 \<Rightarrow> u8 \<Rightarrow> u32" where
  "pci_make_address bus device fn offset =
     PCI_ENABLE_BIT OR push_bit 16 (ucast bus) OR push_bit 11 (ucast device) OR push_bit 8 (ucast fn) OR ucast (offset AND 0xFC)"

definition pci_io_read16 :: "'e bus \<Rightarrow> u8 \<Rightarrow> u8 \<Rightarrow> u8 \<Rightarrow> u8 \<Rightarrow> (('e, 'z) world_scheme, u16) state" where
  "pci_io_read16 b bus device fn offset = do {
     io_outl b PCI_CONFIG_ADDRESS_PORT (pci_make_address bus device fn offset);
     data \<leftarrow> io_inl b PCI_CONFIG_DATA_PORT;
     State_Monad.return (ucast (drop_bit (half_shift (ucast offset)) data AND 0xFFFF)) }"

definition pci_io_read32 :: "'e bus \<Rightarrow> u8 \<Rightarrow> u8 \<Rightarrow> u8 \<Rightarrow> u8 \<Rightarrow> (('e, 'z) world_scheme, u32) state" where
  "pci_io_read32 b bus device fn offset = do {
     io_outl b PCI_CONFIG_ADDRESS_PORT (pci_make_address bus device fn offset);
     io_inl b PCI_CONFIG_DATA_PORT }"

definition pci_io_write16 :: "'e bus \<Rightarrow> u8 \<Rightarrow> u8 \<Rightarrow> u8 \<Rightarrow> u8 \<Rightarrow> u16 \<Rightarrow> (('e, 'z) world_scheme, unit) state" where
  "pci_io_write16 b bus device fn offset v = do {
     io_outl b PCI_CONFIG_ADDRESS_PORT (pci_make_address bus device fn offset);
     data \<leftarrow> io_inl b PCI_CONFIG_DATA_PORT;
     let m = push_bit (half_shift (ucast offset)) 0xFFFF;
     io_outl b PCI_CONFIG_DATA_PORT ((data AND NOT m) OR push_bit (half_shift (ucast offset)) (ucast v)) }"

definition pci_io_write32 :: "'e bus \<Rightarrow> u8 \<Rightarrow> u8 \<Rightarrow> u8 \<Rightarrow> u8 \<Rightarrow> u32 \<Rightarrow> (('e, 'z) world_scheme, unit) state" where
  "pci_io_write32 b bus device fn offset v = do {
     io_outl b PCI_CONFIG_ADDRESS_PORT (pci_make_address bus device fn offset);
     io_outl b PCI_CONFIG_DATA_PORT v }"

section \<open>Memory\<close>

definition pcie_ecam_address :: "u8 \<Rightarrow> u8 \<Rightarrow> u8 \<Rightarrow> u16 \<Rightarrow> u64" where
  "pcie_ecam_address = ecam_address PCIE_ECAM_BASE"

definition pcie_ecam_read16 :: "'e bus \<Rightarrow> (('e, 'z) world_scheme, u16) cfg_access" where
  "pcie_ecam_read16 = ecam_read16 PCIE_ECAM_BASE"

definition pcie_ecam_read32 :: "'e bus \<Rightarrow> (('e, 'z) world_scheme, u32) cfg_access" where
  "pcie_ecam_read32 = ecam_read32 PCIE_ECAM_BASE"

definition pcie_ecam_write16 :: "'e bus \<Rightarrow> u8 \<Rightarrow> u8 \<Rightarrow> u8 \<Rightarrow> u16 \<Rightarrow> u16 \<Rightarrow> (('e, 'z) world_scheme, unit) state" where
  "pcie_ecam_write16 = ecam_write16 PCIE_ECAM_BASE"

definition pcie_ecam_write32 :: "'e bus \<Rightarrow> u8 \<Rightarrow> u8 \<Rightarrow> u8 \<Rightarrow> u16 \<Rightarrow> u32 \<Rightarrow> (('e, 'z) world_scheme, unit) state" where
  "pcie_ecam_write32 = ecam_write32 PCIE_ECAM_BASE"

section \<open>Either\<close>

text \<open>The port functions take an 8-bit offset: the 16-bit one is truncated.\<close>

definition pci_config_read16 :: "'e bus \<Rightarrow> (('e, 'z) amd64_world_scheme, u16) cfg_access" where
  "pci_config_read16 b bus device fn offset = do {
     ecam \<leftarrow> gets use_ecam;
     if ecam then pcie_ecam_read16 b bus device fn offset else pci_io_read16 b bus device fn (ucast offset) }"

definition pci_config_read32 :: "'e bus \<Rightarrow> (('e, 'z) amd64_world_scheme, u32) cfg_access" where
  "pci_config_read32 b bus device fn offset = do {
     ecam \<leftarrow> gets use_ecam;
     if ecam then pcie_ecam_read32 b bus device fn offset else pci_io_read32 b bus device fn (ucast offset) }"

definition pci_config_write16 :: "'e bus \<Rightarrow> u8 \<Rightarrow> u8 \<Rightarrow> u8 \<Rightarrow> u16 \<Rightarrow> u16 \<Rightarrow> (('e, 'z) amd64_world_scheme, unit) state" where
  "pci_config_write16 b bus device fn offset v = do {
     ecam \<leftarrow> gets use_ecam;
     if ecam then pcie_ecam_write16 b bus device fn offset v else pci_io_write16 b bus device fn (ucast offset) v }"

definition pci_config_write32 :: "'e bus \<Rightarrow> u8 \<Rightarrow> u8 \<Rightarrow> u8 \<Rightarrow> u16 \<Rightarrow> u32 \<Rightarrow> (('e, 'z) amd64_world_scheme, unit) state" where
  "pci_config_write32 b bus device fn offset v = do {
     ecam \<leftarrow> gets use_ecam;
     if ecam then pcie_ecam_write32 b bus device fn offset v else pci_io_write32 b bus device fn (ucast offset) v }"

definition pci_detect_ecam :: bool where
  "pci_detect_ecam = False"

definition pci_probe_bar_size :: "'e bus \<Rightarrow> u8 \<Rightarrow> u8 \<Rightarrow> u8 \<Rightarrow> u8 \<Rightarrow> (('e, 'z) amd64_world_scheme, u64) state" where
  "pci_probe_bar_size b = probe_bar_size (pci_config_read32 b) (pci_config_write32 b)"

section \<open>The scan\<close>

definition pci_dev_info :: "u8 \<Rightarrow> u8 \<Rightarrow> u16 \<Rightarrow> u16 \<Rightarrow> u64 \<Rightarrow> u64 \<Rightarrow> device" where
  "pci_dev_info bus dev vendor devid base sz = zero_device\<lparr>
     dev_compatible := None, dev_name := None, reg_base := base, reg_size := sz, vendor_id := vendor, device_id := devid,
     dev_bus := bus, device_num := dev, dev_function := 0, dev_driver := None, dev_state := DEVICE_STATE_DISCOVERED,
     mmio_virt := 0, dev_parent := None, first_child := None, next_sibling := None, dev_depth := 0, dev_next := None\<rparr>"

text \<open>The body of the inner loop of \<^verbatim>\<open>devices_enumerate\<close>.\<close>

definition pci_scan_device :: "'e bus \<Rightarrow> bool \<Rightarrow> u8 \<Rightarrow> u8 \<Rightarrow> int \<Rightarrow> (('e, 'z) amd64_world_scheme, int) state" where
  "pci_scan_device b callback bus device device_count = do {
     vendor \<leftarrow> pci_config_read16 b bus device 0 PCI_VENDOR_ID_OFFSET;
     if vendor = 0xFFFF then State_Monad.return device_count
     else do {
       device_val \<leftarrow> pci_config_read16 b bus device 0 PCI_DEVICE_ID_OFFSET;
       bar0 \<leftarrow> pci_config_read32 b bus device 0 PCI_BAR0_OFFSET;
       sz \<leftarrow> pci_probe_bar_size b bus device 0 (ucast PCI_BAR0_OFFSET);
       cmd \<leftarrow> pci_config_read16 b bus device 0 PCI_COMMAND_OFFSET;
       pci_config_write16 b bus device 0 PCI_COMMAND_OFFSET (cmd OR (PCI_COMMAND_MEMORY OR PCI_COMMAND_MASTER));
       let dev_info = pci_dev_info bus device vendor device_val (ucast (bar0 AND 0xFFFFFFF0)) sz;
       modify (reported_update (\<lambda>rs. if callback then rs @ [dev_info] else rs));
       State_Monad.return (device_count + 1) } }"

definition devices_enumerate :: "'e bus \<Rightarrow> bool \<Rightarrow> (('e, 'z) amd64_world_scheme, int) state" where
  "devices_enumerate b callback = do {
     tag \<leftarrow> gets pci_log;
     lg \<leftarrow> gets logger;
     let (tag, lg) = (case tag of None \<Rightarrow> log_register lg ''pci'' LOG_INFO | Some t \<Rightarrow> (Some t, lg));
     modify (\<lambda>w. w\<lparr>logger := lg, pci_log := tag, use_ecam := pci_detect_ecam\<rparr>);
     ecam \<leftarrow> gets use_ecam;
     (if log_enabled (log_deref lg tag) LOG_DEBUG then
        (if ecam then print (log_prefix (log_deref lg tag) LOG_DEBUG @ ''Using PCIe ECAM at 0x'' @ put_hex64 PCIE_ECAM_BASE @ [CHR 0x0A])
         else print (log_prefix (log_deref lg tag) LOG_DEBUG @ ''Using legacy I/O ports (0x'' @ put_hex16 PCI_CONFIG_ADDRESS_PORT @
           ''/0x'' @ put_hex16 PCI_CONFIG_DATA_PORT @ '')'' @ [CHR 0x0A]))
      else State_Monad.return ());
     for_fold (pci_functions 2 32) (\<lambda>(bus, device). pci_scan_device b callback bus device) 0 }"

definition devices_find :: "string option \<Rightarrow> int" where
  "devices_find compatible = 0"

definition devices_get_name :: "u16 \<Rightarrow> u16 \<Rightarrow> string option" where
  "devices_get_name vendor devid = None"

section \<open>The port mechanism\<close>

text \<open>
  The PCI specification of the mechanism: a 32-bit write to \<^verbatim>\<open>0xCF8\<close> sets the address latch and touches no
  register; while the latch holds the address of a register, \<^verbatim>\<open>0xCFC\<close> reads and writes it.
\<close>

definition port_reg :: "cfg_reg \<Rightarrow> u32" where
  "port_reg r = (case r of (bus, d, f, k) \<Rightarrow>
     word_of_nat (2 ^ 31 + unat bus * 2 ^ 16 + unat d * 2 ^ 11 + unat f * 2 ^ 8 + 4 * k))"

definition port_hw :: "'e bus \<Rightarrow> ('e \<Rightarrow> u32) \<Rightarrow> ('e \<Rightarrow> cfg_reg \<Rightarrow> u32) \<Rightarrow> (cfg_reg \<Rightarrow> u32) \<Rightarrow> bool" where
  "port_hw b latch cfg wmask \<longleftrightarrow>
     (\<forall>a e. latch (port_out32 b 0xCF8 a e) = a \<and> cfg (port_out32 b 0xCF8 a e) = cfg e) \<and>
     (\<forall>bus d f k e. unat d < 32 \<and> unat f < 8 \<and> k < 64 \<and> latch e = port_reg (bus, d, f, k) \<longrightarrow>
        port_in32 b 0xCFC e = (cfg e (bus, d, f, k), e) \<and>
        (\<forall>v. cfg_write wmask (bus, d, f, k) v (cfg e) (cfg (port_out32 b 0xCFC v e))))"

lemma unat_and_FC: "unat (off AND 0xFC :: u8) = 4 * (unat off div 4)"
proof -
  have "off AND 0xFC = push_bit 2 (drop_bit 2 off)"
    by (rule bits8) (simp add: bit_simps, simp add: numeral_2_eq_2 numeral_3_eq_3)
  moreover have "unat off div 4 * 4 < 256" using unat_lt8 [of off] by linarith
  ultimately show ?thesis
    using unat_push_or [of "0 :: u8" 2 "drop_bit 2 off"] by (simp add: unat_shr)
qed

lemma pci_make_address_eq:
  assumes "unat d < 32" "unat f < 8"
  shows "pci_make_address bus d f off = port_reg (bus, d, f, unat off div 4)"
proof -
  let ?o = "ucast (off AND 0xFC) :: u32"
  let ?F = "push_bit 8 (ucast f) OR ?o"
  let ?D = "push_bit 11 (ucast d) OR ?F"
  let ?B = "push_bit 16 (ucast bus) OR ?D"
  have off: "4 * (unat off div 4) < 256" using unat_lt8 [of off] by linarith
  have o: "unat ?o = 4 * (unat off div 4)"
    using unat_and_FC [of off] by (simp add: unat_ucast_up)
  have F: "unat ?F = unat f * 2 ^ 8 + unat ?o"
    using assms o off by (subst unat_push_or) (simp_all add: unat_ucast_up)
  have D: "unat ?D = unat d * 2 ^ 11 + unat ?F"
    using assms o F off by (subst unat_push_or) (simp_all add: unat_ucast_up)
  have B: "unat ?B = unat bus * 2 ^ 16 + unat ?D"
    using assms o F D off unat_lt8 [of bus] by (subst unat_push_or) (simp_all add: unat_ucast_up)
  have or: "PCI_ENABLE_BIT OR ?B = PCI_ENABLE_BIT + ?B"
    using B assms o F D off unat_lt8 [of bus] by (intro or_shifted [of 31]) (simp_all add: PCI_ENABLE_BIT_def)
  have "unat (PCI_ENABLE_BIT + ?B) = 2 ^ 31 + unat bus * 2 ^ 16 + unat d * 2 ^ 11 + unat f * 2 ^ 8 + 4 * (unat off div 4)"
    using B assms o F D off unat_lt8 [of bus] by (simp add: PCI_ENABLE_BIT_def unat_word_ariths)
  from this [symmetric] show ?thesis
    by (simp only: pci_make_address_def port_reg_def prod.case or) simp
qed

locale port_hardware =
  fixes b :: "'e bus"
    and latch :: "'e \<Rightarrow> u32"
    and cfg :: "'e \<Rightarrow> cfg_reg \<Rightarrow> u32"
    and wmask :: "cfg_reg \<Rightarrow> u32"
  assumes hw: "port_hw b latch cfg wmask"
begin

lemma valid_offset: "cfg_valid d f off \<Longrightarrow> unat d < 32 \<and> unat f < 8 \<and> unat off div 4 < 64 \<and> unat (ucast off :: u8) = unat off"
  by (auto simp: cfg_valid_def unat_ucast_mod)

lemma addressed:
  assumes "cfg_valid d f off" "a = pci_make_address bus d f (ucast off)" "r = (bus, d, f, unat off div 4)"
  shows "port_in32 b 0xCFC (port_out32 b 0xCF8 a e) = (cfg e r, port_out32 b 0xCF8 a e)"
    and "cfg (port_out32 b 0xCF8 a e) = cfg e"
    and "cfg_write wmask r v (cfg e) (cfg (port_out32 b 0xCFC v (port_out32 b 0xCF8 a e)))"
proof -
  note v = valid_offset [OF assms(1)]
  have latch: "latch (port_out32 b 0xCF8 a e) = port_reg r"
    using hw pci_make_address_eq [of d f bus "ucast off"] v by (simp add: port_hw_def assms(2,3))
  show same: "cfg (port_out32 b 0xCF8 a e) = cfg e" using hw by (simp add: port_hw_def)
  show "port_in32 b 0xCFC (port_out32 b 0xCF8 a e) = (cfg e r, port_out32 b 0xCF8 a e)"
    "cfg_write wmask r v (cfg e) (cfg (port_out32 b 0xCFC v (port_out32 b 0xCF8 a e)))"
    using hw latch v same unfolding port_hw_def assms(3) by metis+
qed

lemmas port_defs = io_defs PCI_CONFIG_ADDRESS_PORT_def PCI_CONFIG_DATA_PORT_def

text \<open>The unified accessors keep the contract of configuration space as long as \<^verbatim>\<open>use_ecam\<close> is false.\<close>

lemma amd64_config_space:
  "config_space (pci_config_read32 b) (pci_config_write32 b) (\<lambda>w :: ('e, 'z) amd64_world_scheme. cfg (env w)) wmask
     world_rest (\<lambda>w. \<not> use_ecam w)"
proof
  fix bus d f :: u8 and off :: u16 and v :: u32 and w :: "('e, 'z) amd64_world_scheme"
  assume ok: "\<not> use_ecam (world_rest w)" and valid: "cfg_valid d f off"
  from ok have "\<not> use_ecam w" by (simp add: world_rest_def)
  then show "fst (run_state (pci_config_read32 b bus d f off) w) = cfg (env w) (bus, d, f, unat off div 4)"
    "cfg (env (snd (run_state (pci_config_read32 b bus d f off) w))) = cfg (env w)"
    "cfg_write wmask (bus, d, f, unat off div 4) v (cfg (env w)) (cfg (env (snd (run_state (pci_config_write32 b bus d f off v) w))))"
    using addressed [OF valid refl refl]
    by (simp_all add: pci_config_read32_def pci_config_write32_def pci_io_read32_def pci_io_write32_def port_defs)
qed (simp_all add: pci_config_read32_def pci_config_write32_def pci_io_read32_def pci_io_write32_def io_defs
    pcie_ecam_read32_def pcie_ecam_write32_def ecam_read32_def ecam_write32_def)

lemma wp_config_read32:
  assumes "\<not> use_ecam w" "cfg_valid d f off"
    and "\<And>e. cfg e = cfg (env w) \<Longrightarrow> Q (cfg (env w) (bus, d, f, unat off div 4)) (w\<lparr>env := e\<rparr>)"
  shows "wp (pci_config_read32 b bus d f off) Q w"
  using assms(1,3) addressed [OF assms(2) refl refl] by (simp add: wp_simps pci_config_read32_def pci_io_read32_def port_defs)

lemma wp_config_read16:
  assumes "\<not> use_ecam w" "cfg_valid d f off"
    and "\<And>e. cfg e = cfg (env w) \<Longrightarrow> Q (half off (cfg (env w) (bus, d, f, unat off div 4))) (w\<lparr>env := e\<rparr>)"
  shows "wp (pci_config_read16 b bus d f off) Q w"
proof -
  have "ucast (ucast off :: u8) = off"
    using valid_offset [OF assms(2)] by (simp add: word_unat_eq_iff unat_ucast_up)
  then show ?thesis
    using assms(1,3) addressed [OF assms(2) refl refl]
    by (simp add: wp_simps pci_config_read16_def pci_io_read16_def port_defs half_def ucast_and_FFFF)
qed

lemma wp_config_write16:
  assumes "\<not> use_ecam w" "cfg_valid d f off" "r = (bus, d, f, unat off div 4)"
    and "\<And>e. cfg_write wmask r (set_half off v (cfg (env w) r)) (cfg (env w)) (cfg e) \<Longrightarrow> Q () (w\<lparr>env := e\<rparr>)"
  shows "wp (pci_config_write16 b bus d f off v) Q w"
proof -
  have "ucast (ucast off :: u8) = off"
    using valid_offset [OF assms(2)] by (simp add: word_unat_eq_iff unat_ucast_up)
  then show ?thesis
    using assms(1,3,4) addressed [OF assms(2) refl refl]
    by (simp add: wp_simps pci_config_write16_def pci_io_write16_def port_defs set_half_def)
qed

end

section \<open>The scan\<close>

definition port_present :: "(cfg_reg \<Rightarrow> u32) \<Rightarrow> u8 \<times> u8 \<Rightarrow> bool" where
  "port_present c f \<longleftrightarrow> fn_vendor c f \<noteq> 0xFFFF"

definition port_report :: "(cfg_reg \<Rightarrow> u32) \<Rightarrow> (cfg_reg \<Rightarrow> u32) \<Rightarrow> u8 \<times> u8 \<Rightarrow> device" where
  "port_report wmask c f = (let bar0 = bar_reg (fst f) (snd f) 0 in
     pci_dev_info (fst f) (snd f) (fn_vendor c f) (half PCI_DEVICE_ID_OFFSET (c (fst f, snd f, 0, 0)))
       (ucast (c bar0 AND 0xFFFFFFF0)) (bar_size (wmask bar0)))"

lemma port_reported_append: "reported_update (\<lambda>rs. rs @ ds) w = w\<lparr>reported := reported w @ ds\<rparr>"
  by (cases w) simp

text \<open>The registers after the scan: memory access and bus mastering are switched on, as far as they can be written.\<close>

definition enabled_in :: "(cfg_reg \<Rightarrow> u32) \<Rightarrow> (u8 \<times> u8) set \<Rightarrow> (cfg_reg \<Rightarrow> u32) \<Rightarrow> (cfg_reg \<Rightarrow> u32) \<Rightarrow> bool" where
  "enabled_in wmask fs c c' \<longleftrightarrow> (\<forall>bus dev f k.
     if f = 0 \<and> k = 1 \<and> (bus, dev) \<in> fs
     then c' (bus, dev, f, k) AND 0xFFFF = written (wmask (bus, dev, f, k)) (c (bus, dev, f, k)) (c (bus, dev, f, k) OR 0x6) AND 0xFFFF
     else c' (bus, dev, f, k) = c (bus, dev, f, k))"

lemma enabled_in_insert:
  assumes "enabled_in wmask fs c c1" "enabled_in wmask {f} c1 c2" "f \<notin> fs"
  shows "enabled_in wmask (insert f fs) c c2"
  unfolding enabled_in_def
proof (intro allI)
  fix bus dev fn k
  have 1: "c1 (bus, dev, fn, k) = c (bus, dev, fn, k)" if "\<not> (fn = 0 \<and> k = 1 \<and> (bus, dev) \<in> fs)"
    using assms(1) that unfolding enabled_in_def by metis
  have 2: "c2 (bus, dev, fn, k) = c1 (bus, dev, fn, k)" if "\<not> (fn = 0 \<and> k = 1 \<and> (bus, dev) = f)"
    using assms(2) that unfolding enabled_in_def by (metis singletonD)
  show "if fn = 0 \<and> k = 1 \<and> (bus, dev) \<in> insert f fs
     then c2 (bus, dev, fn, k) AND 0xFFFF = written (wmask (bus, dev, fn, k)) (c (bus, dev, fn, k)) (c (bus, dev, fn, k) OR 0x6) AND 0xFFFF
     else c2 (bus, dev, fn, k) = c (bus, dev, fn, k)"
  proof (cases "fn = 0 \<and> k = 1 \<and> (bus, dev) = f")
    case True
    then have "c1 (bus, dev, fn, k) = c (bus, dev, fn, k)" using 1 assms(3) by blast
    then show ?thesis using assms(2) True unfolding enabled_in_def by (metis insertI1)
  next
    case False
    then show ?thesis using assms(1) 2 [OF False] unfolding enabled_in_def by (metis insertE insertI2)
  qed
qed

lemma set_command: "set_half PCI_COMMAND_OFFSET (half PCI_COMMAND_OFFSET x OR (PCI_COMMAND_MEMORY OR PCI_COMMAND_MASTER)) x = x OR 0x6"
proof -
  have "set_half PCI_COMMAND_OFFSET (half PCI_COMMAND_OFFSET x OR (PCI_COMMAND_MEMORY OR PCI_COMMAND_MASTER)) x =
      (x AND NOT 0xFFFF) OR ucast (ucast x OR 0x6 :: u16)"
    by (simp add: set_half_def half_def half_shift_def PCI_COMMAND_OFFSET_def PCI_COMMAND_MEMORY_def PCI_COMMAND_MASTER_def)
  also have "\<dots> = x OR 0x6"
    by (rule bits32) (simp add: bit_simps)
  finally show ?thesis .
qed

context port_hardware
begin

lemma wp_scan_device:
  fixes w :: "('e, 'z) amd64_world_scheme"
  assumes io: "\<not> use_ecam w" and dev: "unat dev < 32" and c: "c = cfg (env w)"
    and bar: "bar_ok (wmask (bar_reg bus dev 0)) (c (bar_reg bus dev 0))"
    and absent: "\<And>e. \<not> port_present c (bus, dev) \<Longrightarrow> cfg e = c \<Longrightarrow> Q m (w\<lparr>env := e\<rparr>)"
    and present: "\<And>e. port_present c (bus, dev) \<Longrightarrow> enabled_in wmask {(bus, dev)} c (cfg e) \<Longrightarrow>
      Q (m + 1) (w\<lparr>env := e, reported := reported w @ [port_report wmask c (bus, dev)]\<rparr>)"
  shows "wp (pci_scan_device b True bus dev m) Q w"
proof -
  have v: "cfg_valid dev 0 PCI_VENDOR_ID_OFFSET" "cfg_valid dev 0 PCI_DEVICE_ID_OFFSET" "cfg_valid dev 0 PCI_COMMAND_OFFSET"
    "cfg_valid dev 0 PCI_BAR0_OFFSET" "cfg_valid dev 0 (ucast (ucast PCI_BAR0_OFFSET :: u8))"
    using dev by (simp_all add: cfg_valid_def pci_offset_defs)
  have k: "unat PCI_VENDOR_ID_OFFSET div 4 = 0" "unat PCI_DEVICE_ID_OFFSET div 4 = 0" "unat PCI_COMMAND_OFFSET div 4 = 1"
    "unat PCI_BAR0_OFFSET div 4 = 4" "unat (ucast PCI_BAR0_OFFSET :: u8) div 4 = 4"
    by (simp_all add: pci_offset_defs)
  let ?v = "fn_vendor c (bus, dev)" and ?d = "half PCI_DEVICE_ID_OFFSET (c (bus, dev, 0, 0))"
  let ?r = "bar_reg bus dev 0"
  let ?dev = "pci_dev_info bus dev ?v ?d (ucast (c ?r AND 0xFFFFFFF0)) (bar_size (wmask ?r))"
  have tail: "wp (pci_config_write16 b bus dev 0 PCI_COMMAND_OFFSET (half PCI_COMMAND_OFFSET (c (bus, dev, 0, 1)) OR
        (PCI_COMMAND_MEMORY OR PCI_COMMAND_MASTER))) (\<lambda>_. wp (modify (reported_update (\<lambda>rs. rs @ [?dev])))
        (\<lambda>_. wp (State_Monad.return (m + 1)) Q)) (w\<lparr>env := e0\<rparr>)"
    if p: "port_present c (bus, dev)" and e0: "cfg e0 = c" for e0
  proof (rule wp_config_write16 [OF _ v(3) refl])
    fix e assume "cfg_write wmask (bus, dev, 0, unat PCI_COMMAND_OFFSET div 4) (set_half PCI_COMMAND_OFFSET
       (half PCI_COMMAND_OFFSET (c (bus, dev, 0, 1)) OR PCI_COMMAND_MEMORY OR PCI_COMMAND_MASTER)
       (cfg (env (w\<lparr>env := e0\<rparr>)) (bus, dev, 0, unat PCI_COMMAND_OFFSET div 4))) (cfg (env (w\<lparr>env := e0\<rparr>))) (cfg e)"
    then have "enabled_in wmask {(bus, dev)} c (cfg e)"
      by (simp add: cfg_write_def k e0 set_command enabled_in_def del: One_nat_def) blast
    from present [OF p this] show "wp (modify (reported_update (\<lambda>rs. rs @ [?dev]))) (\<lambda>_. wp (State_Monad.return (m + 1)) Q)
        (w\<lparr>env := e0, env := e\<rparr>)"
      by (simp add: wp_simps port_report_def Let_def port_reported_append)
  qed (use io in simp)
  have probe: "wp (pci_probe_bar_size b bus dev 0 (ucast PCI_BAR0_OFFSET)) R (w\<lparr>env := e0\<rparr>)"
    if "cfg e0 = c" "\<And>e. cfg e = c \<Longrightarrow> R (bar_size (wmask ?r)) (w\<lparr>env := e\<rparr>)" for e0 R
    unfolding pci_probe_bar_size_def
    by (rule wp_probe_bar_size [OF amd64_config_space _ v(5), where r = ?r])
      (use io bar k(5) that in \<open>simp_all add: world_rest_def\<close>)
  have io': "\<not> use_ecam (w\<lparr>env := e\<rparr>)" for e using io by simp
  have vendor: "half PCI_VENDOR_ID_OFFSET (c (bus, dev, 0, 0)) = ?v" by (simp add: fn_vendor_def)
  show ?thesis
    unfolding pci_scan_device_def wp_bind
  proof (rule wp_config_read16 [OF io v(1)], unfold k wp_if c [symmetric] vendor, goal_cases)
    case (1 e1)
    show ?case
    proof (cases "port_present c (bus, dev)")
      case False
      then show ?thesis using absent [OF False, of e1] 1 by (simp add: port_present_def wp_return)
    next
      case True
      then have nv: "(?v = 0xFFFF) = False" by (simp add: port_present_def)
      show ?thesis
      proof (simp only: nv if_False wp_bind, rule wp_config_read16 [OF io' v(2)], goal_cases)
        case (1 e2)
        show ?case
        proof (rule wp_config_read32 [OF _ v(4)], goal_cases)
          case (2 e3)
          have c3: "cfg e3 = c" "cfg (env (w\<lparr>env := e1\<rparr>)) = c" "cfg (env (w\<lparr>env := e1, env := e2\<rparr>)) = c"
            using \<open>cfg e1 = c\<close> 1 2 by simp_all
          have st: "w\<lparr>env := e1, env := e2, env := e3\<rparr> = w\<lparr>env := e3\<rparr>" by simp
          show ?case
            unfolding st c3 k
          proof (rule probe [OF c3(1)], rule wp_config_read16 [OF io' v(3)], goal_cases)
            case (1 e4 e5)
            then have "cfg e5 = c" by simp
            from tail [OF True this] show ?case
              using 1 by (simp add: wp_bind Let_def k del: One_nat_def)
          qed
        qed (use io in simp)
      qed
    qed
  qed
qed

lemma wp_scan:
  fixes w :: "('e, 'z) amd64_world_scheme"
  assumes io: "\<not> use_ecam w" and c: "c = cfg (env w)" and fs: "distinct fs" "\<And>bus dev. (bus, dev) \<in> set fs \<Longrightarrow> unat dev < 32"
    and bars: "\<And>bus dev. (bus, dev) \<in> set fs \<Longrightarrow> bar_ok (wmask (bar_reg bus dev 0)) (c (bar_reg bus dev 0))"
  shows "wp (for_fold fs (\<lambda>(bus, dev). pci_scan_device b True bus dev) 0) (\<lambda>m w'. m = int (length (filter (port_present c) fs)) \<and>
     reported w' = reported w @ map (port_report wmask c) (filter (port_present c) fs) \<and> \<not> use_ecam w' \<and>
     enabled_in wmask (set (filter (port_present c) fs)) c (cfg (env w'))) w"
proof (rule wp_for_fold [where I = "\<lambda>us m w'. m = int (length (filter (port_present c) us)) \<and>
     reported w' = reported w @ map (port_report wmask c) (filter (port_present c) us) \<and> \<not> use_ecam w' \<and>
     enabled_in wmask (set (filter (port_present c) us)) c (cfg (env w'))"], goal_cases)
  case (2 us f vs m w1)
  obtain bus dev where f: "f = (bus, dev)" by (cases f)
  have fin: "f \<in> set fs" "f \<notin> set us" using 2(1) fs(1) by auto
  have same: "cfg (env w1) (bus, dev, 0, k) = c (bus, dev, 0, k)" for k
    using 2(2) fin(2) f by (simp add: enabled_in_def)
  have eqs: "port_present (cfg (env w1)) (bus, dev) = port_present c (bus, dev)" "port_report wmask (cfg (env w1)) (bus, dev) = port_report wmask c (bus, dev)"
    using same by (simp_all add: port_present_def fn_vendor_def port_report_def)
  have io1: "\<not> use_ecam w1" using 2(2) by blast
  show ?case
    unfolding f prod.case
  proof (rule wp_scan_device [OF io1 _ refl], goal_cases)
    case (4 e)
    have "enabled_in wmask (set (filter (port_present c) (us @ [(bus, dev)]))) c (cfg e)"
      using enabled_in_insert [of wmask "set (filter (port_present c) us)" c "cfg (env w1)" "(bus, dev)" "cfg e"] 2(2) 4 eqs(1) fin(2) f
      by simp
    then show ?case
      using 2(2) 4 eqs by simp
  qed (use fin f bars fs(2) same eqs 2(2) in auto)
qed (simp add: c io enabled_in_def)

lemma wp_enumerate:
  fixes w :: "('e, 'z) amd64_world_scheme"
  assumes "\<And>bus dev. (bus, dev) \<in> set (pci_functions 2 32) \<Longrightarrow> bar_ok (wmask (bar_reg bus dev 0)) (cfg (env w) (bar_reg bus dev 0))"
  defines "present \<equiv> filter (port_present (cfg (env w))) (pci_functions 2 32)"
  shows "wp (devices_enumerate b True) (\<lambda>m w'. m = int (length present) \<and>
     reported w' = reported w @ map (port_report wmask (cfg (env w))) present \<and> \<not> use_ecam w' \<and>
     enabled_in wmask (set present) (cfg (env w)) (cfg (env w'))) w"
proof -
  have scan: "wp (for_fold (pci_functions 2 32) (\<lambda>(bus, dev). pci_scan_device b True bus dev) 0)
     (\<lambda>m w'. m = int (length present) \<and> reported w' = reported w @ map (port_report wmask (cfg (env w))) present \<and> \<not> use_ecam w' \<and>
     enabled_in wmask (set present) (cfg (env w)) (cfg (env w'))) w1"
    if "\<not> use_ecam w1" "env w1 = env w" "reported w1 = reported w" for w1
    using wp_scan [OF that(1) refl, of "pci_functions 2 32"] assms(1) that pci_functions_distinct [of 2 32] pci_functions_dev
    by (simp add: present_def)
  show ?thesis
    by (simp add: devices_enumerate_def wp_simps case_prod_beta Let_def pci_detect_ecam_def) (intro conjI impI scan; simp)
qed

end

section \<open>Properties\<close>


text \<open>The machine of the memory-mapped mechanism, behind the ports.\<close>

definition port_decode :: "u32 \<Rightarrow> cfg_reg" where
  "port_decode a = (let x = unat a in
     (word_of_nat (x div 2 ^ 16), word_of_nat (x div 2 ^ 11 mod 32), word_of_nat (x div 2 ^ 8 mod 8), x mod 2 ^ 8 div 4))"

definition port_bus :: "(cfg_reg \<Rightarrow> u32) \<Rightarrow> pci_machine bus" where
  "port_bus wmask = idle_bus\<lparr>
     port_out32 := \<lambda>p v m. if p = 0xCF8 then m\<lparr>pm_address := v\<rparr> else machine_write wmask (port_decode (pm_address m)) v m,
     port_in32 := \<lambda>p m. (pm_cfg m (port_decode (pm_address m)), m)\<rparr>"

lemma port_decode_reg:
  assumes "unat d < 32" "unat f < 8" "k < 64"
  shows "port_decode (port_reg (bus, d, f, k)) = (bus, d, f, k)"
proof -
  let ?y = "unat bus * 2 ^ 16 + unat d * 2 ^ 11 + unat f * 2 ^ 8 + 4 * k" and ?x = "2 ^ 31 + unat bus * 2 ^ 16 + unat d * 2 ^ 11 + unat f * 2 ^ 8 + 4 * k"
  have "?x < 2 ^ LENGTH(32)"
    using assms unat_lt8 [of bus] by simp
  then have "unat (word_of_nat ?x :: u32) = ?x"
    by (simp only: unat_of_nat take_bit_eq_mod mod_less)
  moreover have d: "?x div 2 ^ 16 = 2 ^ 15 + unat bus" "?x div 2 ^ 11 = (2 ^ 15 + unat bus) * 32 + unat d"
    "?x div 2 ^ 8 = ((2 ^ 15 + unat bus) * 32 + unat d) * 8 + unat f"
    using assms by (intro div_nat_eqI; simp)+
  moreover have "?x mod 2 ^ 8 = 4 * k"
  proof -
    have "?x = 4 * k + (((2 ^ 15 + unat bus) * 32 + unat d) * 8 + unat f) * 2 ^ 8" by simp
    then have "?x mod 2 ^ 8 = 4 * k mod 2 ^ 8" by (simp only: mod_mult_self1)
    then show ?thesis using assms(3) by simp
  qed
  moreover have "((2 ^ 15 + unat bus) * 32 + unat d) mod 32 = unat d" "(((2 ^ 15 + unat bus) * 32 + unat d) * 8 + unat f) mod 8 = unat f"
    using assms by (simp_all only: mod_mult_self3 mod_less)
  moreover have "(word_of_nat (2 ^ 15 + unat bus) :: u8) = bus"
    by simp
  ultimately show ?thesis
    by (simp only: port_decode_def port_reg_def prod.case Let_def) simp
qed

lemma machine_port_hw: "port_hw (port_bus wmask) pm_address pm_cfg wmask"
  by (simp add: port_hw_def port_bus_def port_decode_reg cfg_write_machine)

interpretation amd64_machine: port_hardware "port_bus wm" pm_address pm_cfg wm for wm
  by unfold_locales (rule machine_port_hw)




end
