(* ===== verification/Dma_Memory.thy ===== *)
theory Dma_Memory
  imports Hw_Bus Byteorder
begin

text \<open>
  Memory that a driver shares with its device. The context structure of a driver lies at some address; the fields
  that the device reads or writes (descriptors, rings, buffers) are accessed through the bus, at the address of the
  structure plus the offset of the field. The predicate \<open>dma_hw\<close> says what the driver may rely on, and the locale
  \<open>dma_memory\<close> carries its rules: the bytes in \<open>own\<close> are the driver's, so a read of them returns what was
  written last, whatever the device does; nothing is said of the others.
\<close>

type_synonym cmem = "nat \<Rightarrow> u8"

section \<open>Runs of bytes\<close>

definition mput :: "cmem \<Rightarrow> nat \<Rightarrow> u8 list \<Rightarrow> cmem" where
  "mput m k bs = (\<lambda>j. if k \<le> j \<and> j < k + length bs then bs ! (j - k) else m j)"

definition mget :: "cmem \<Rightarrow> nat \<Rightarrow> nat \<Rightarrow> u8 list" where
  "mget m k n = map m [k..<k + n]"

definition le64 :: "u64 \<Rightarrow> u8 list" where
  "le64 v = map (\<lambda>i. ucast (drop_bit (8 * i) v)) [0..<8]"

lemma length_le64 [simp]: "length (le64 v) = 8"
  by (simp add: le64_def)

lemma length_mget [simp]: "length (mget m k n) = n"
  by (simp add: mget_def)

lemma nth_mget: "i < n \<Longrightarrow> mget m k n ! i = m (k + i)"
  by (simp add: mget_def)

lemma mget_Suc_0 [simp]: "mget m k (Suc 0) = [m k]"
  by (simp add: mget_def)

lemma mget_cong: "(\<And>j. k \<le> j \<Longrightarrow> j < k + n \<Longrightarrow> m j = m' j) \<Longrightarrow> mget m k n = mget m' k n"
  by (simp add: mget_def)

lemma mget_mput_same [simp]: "length bs = n \<Longrightarrow> mget (mput m k bs) k n = bs"
  by (rule nth_equalityI) (auto simp: nth_mget mput_def)

lemma mget_mput_other: "k + n \<le> j \<or> j + length bs \<le> k \<Longrightarrow> mget (mput m j bs) k n = mget m k n"
  by (rule mget_cong) (auto simp: mput_def)

lemma mput_other: "j < k \<or> k + length bs \<le> j \<Longrightarrow> mput m k bs j = m j"
  by (auto simp: mput_def)

lemma mput_here [simp]: "mput m k [v] k = v"
  by (simp add: mput_def)

lemma mput_Nil [simp]: "mput m k [] = m"
  by (auto simp: mput_def fun_eq_iff)

lemma mput_snoc: "mput (mput m k bs) (k + length bs) [b] = mput m k (bs @ [b])"
  by (auto simp: mput_def fun_eq_iff nth_append)

lemma mput_mput_append: "mput (mput m k bs) (k + length bs) cs = mput m k (bs @ cs)"
  by (auto simp: mput_def fun_eq_iff nth_append)

lemma take_mget: "i \<le> n \<Longrightarrow> take i (mget m k n) = mget m k i"
  by (rule nth_equalityI) (auto simp: nth_mget)

section \<open>The contract\<close>

definition outside :: "u64 \<Rightarrow> nat \<Rightarrow> u64 \<Rightarrow> bool" where
  "outside base sz a \<longleftrightarrow> (\<forall>k. k < sz \<longrightarrow> a \<noteq> base + word_of_nat k)"

text \<open>
  \<open>base\<close> and \<open>sz\<close> delimit the structure, \<open>mem e k\<close> is its byte at offset \<open>k\<close> in the environment \<open>e\<close>. Reads, at any
  address, and writes elsewhere keep the owned bytes; a write inside the structure changes the bytes written; a
  read of owned bytes returns them.
\<close>

definition dma_reads :: "'e bus \<Rightarrow> u64 \<Rightarrow> nat set \<Rightarrow> ('e \<Rightarrow> cmem) \<Rightarrow> bool" where
  "dma_reads b base own mem \<longleftrightarrow>
     (\<forall>k e. k \<in> own \<longrightarrow> fst (bus_read8 b (base + word_of_nat k) e) = mem e k) \<and>
     (\<forall>k e. {k..<k + 2} \<subseteq> own \<longrightarrow> le16 (fst (bus_read16 b (base + word_of_nat k) e)) = mget (mem e) k 2) \<and>
     (\<forall>k e. {k..<k + 4} \<subseteq> own \<longrightarrow> le32 (fst (bus_read32 b (base + word_of_nat k) e)) = mget (mem e) k 4) \<and>
     (\<forall>a e i. i \<in> own \<longrightarrow> mem (snd (bus_read8 b a e)) i = mem e i) \<and>
     (\<forall>a e i. i \<in> own \<longrightarrow> mem (snd (bus_read16 b a e)) i = mem e i) \<and>
     (\<forall>a e i. i \<in> own \<longrightarrow> mem (snd (bus_read32 b a e)) i = mem e i) \<and>
     (\<forall>p e i. i \<in> own \<longrightarrow> mem (snd (port_in8 b p e)) i = mem e i) \<and>
     (\<forall>p e i. i \<in> own \<longrightarrow> mem (snd (port_in16 b p e)) i = mem e i) \<and>
     (\<forall>p e i. i \<in> own \<longrightarrow> mem (snd (port_in32 b p e)) i = mem e i)"

definition dma_writes :: "'e bus \<Rightarrow> u64 \<Rightarrow> nat \<Rightarrow> nat set \<Rightarrow> ('e \<Rightarrow> cmem) \<Rightarrow> bool" where
  "dma_writes b base sz own mem \<longleftrightarrow>
     (\<forall>k v e i. k + 1 \<le> sz \<longrightarrow> i \<in> own \<longrightarrow> mem (bus_write8 b (base + word_of_nat k) v e) i = mput (mem e) k [v] i) \<and>
     (\<forall>k v e i. k + 2 \<le> sz \<longrightarrow> i \<in> own \<longrightarrow> mem (bus_write16 b (base + word_of_nat k) v e) i = mput (mem e) k (le16 v) i) \<and>
     (\<forall>k v e i. k + 4 \<le> sz \<longrightarrow> i \<in> own \<longrightarrow> mem (bus_write32 b (base + word_of_nat k) v e) i = mput (mem e) k (le32 v) i) \<and>
     (\<forall>k v e i. k + 8 \<le> sz \<longrightarrow> i \<in> own \<longrightarrow> mem (bus_write64 b (base + word_of_nat k) v e) i = mput (mem e) k (le64 v) i) \<and>
     (\<forall>a v e i. outside base sz a \<longrightarrow> i \<in> own \<longrightarrow> mem (bus_write8 b a v e) i = mem e i) \<and>
     (\<forall>a v e i. outside base sz a \<longrightarrow> i \<in> own \<longrightarrow> mem (bus_write16 b a v e) i = mem e i) \<and>
     (\<forall>a v e i. outside base sz a \<longrightarrow> i \<in> own \<longrightarrow> mem (bus_write32 b a v e) i = mem e i) \<and>
     (\<forall>p v e i. i \<in> own \<longrightarrow> mem (port_out8 b p v e) i = mem e i) \<and>
     (\<forall>p v e i. i \<in> own \<longrightarrow> mem (port_out16 b p v e) i = mem e i) \<and>
     (\<forall>p v e i. i \<in> own \<longrightarrow> mem (port_out32 b p v e) i = mem e i)"

definition dma_hw :: "'e bus \<Rightarrow> u64 \<Rightarrow> nat \<Rightarrow> nat set \<Rightarrow> ('e \<Rightarrow> cmem) \<Rightarrow> bool" where
  "dma_hw b base sz own mem \<longleftrightarrow> dma_reads b base own mem \<and> dma_writes b base sz own mem"

text \<open>The driver knows \<open>m\<close>, as far as the bytes are its own.\<close>

definition knows :: "nat set \<Rightarrow> ('e \<Rightarrow> cmem) \<Rightarrow> 'e \<Rightarrow> cmem \<Rightarrow> bool" where
  "knows own mem e m \<longleftrightarrow> (\<forall>i\<in>own. mem e i = m i)"

lemma knows_refl: "knows own mem e (mem e)"
  by (simp add: knows_def)

lemma knows_mget: "knows own mem e m \<Longrightarrow> {k..<k + n} \<subseteq> own \<Longrightarrow> mget (mem e) k n = mget m k n"
  by (rule mget_cong) (auto simp: knows_def subset_iff)

text \<open>
  Driver code between \<open>w\<close> and \<open>w'\<close> has only accessed the hardware, and the driver knows \<open>m\<close>: the assertion that
  triples about sequences of accesses pass on.
\<close>

definition dma_at :: "nat set \<Rightarrow> ('e \<Rightarrow> cmem) \<Rightarrow> ('e, 'z) world_scheme \<Rightarrow> cmem \<Rightarrow> ('e, 'z) world_scheme \<Rightarrow> bool" where
  "dma_at own mem w m w' \<longleftrightarrow> (\<exists>e. w' = w\<lparr>env := e\<rparr> \<and> knows own mem e m)"

lemma dma_atI: "knows own mem e m \<Longrightarrow> dma_at own mem w m (w\<lparr>env := e\<rparr>)"
  by (auto simp: dma_at_def)

lemma dma_atE: "dma_at own mem w m w' \<Longrightarrow> (\<And>e. w' = w\<lparr>env := e\<rparr> \<Longrightarrow> knows own mem e m \<Longrightarrow> P) \<Longrightarrow> P"
  by (auto simp: dma_at_def)

lemma dma_at_refl: "dma_at own mem w (mem (env w)) w"
  by (auto simp: dma_at_def knows_refl intro!: exI [of _ "env w"])

lemma dma_at_knows: "dma_at own mem w m w' \<Longrightarrow> knows own mem (env w') m"
  by (auto simp: dma_at_def)

lemma dma_at_rebase: "dma_at own mem w m w' \<Longrightarrow> dma_at own mem w' m' w'' \<Longrightarrow> dma_at own mem w m' w''"
  by (auto simp: dma_at_def)

text \<open>Copying a run of bytes into the structure, one at a time.\<close>

definition copy_in :: "'e bus \<Rightarrow> u64 \<Rightarrow> nat \<Rightarrow> u8 list \<Rightarrow> (('e, 'z) world_scheme, unit) state" where
  "copy_in b base k bs = for_each [0..<length bs] (\<lambda>i. mem_write8 b (base + word_of_nat (k + i)) (bs ! i))"

text \<open>And out of it.\<close>

definition copy_out :: "'e bus \<Rightarrow> u64 \<Rightarrow> nat \<Rightarrow> nat \<Rightarrow> (('e, 'z) world_scheme, u8 list) state" where
  "copy_out b base k n = for_fold [0..<n]
     (\<lambda>i bs. do { v \<leftarrow> mem_read8 b (base + word_of_nat (k + i)); State_Monad.return (bs @ [v]) }) []"

lemma wp_copy_out_length: "wp (copy_out b base k n) (\<lambda>bs _. length bs = n) w"
  unfolding copy_out_def by (rule wp_fold_upt [where I = "\<lambda>x bs _. length bs = x"]) (simp_all add: wp_simps)

locale dma_view =
  fixes b :: "'e bus" and base :: u64 and own :: "nat set" and mem :: "'e \<Rightarrow> cmem"
  assumes reads: "dma_reads b base own mem"
begin

abbreviation kn :: "'e \<Rightarrow> cmem \<Rightarrow> bool" where
  "kn \<equiv> knows own mem"

lemma kn_reads:
  "kn e m \<Longrightarrow> kn (snd (bus_read8 b a e)) m"
  "kn e m \<Longrightarrow> kn (snd (bus_read16 b a e)) m"
  "kn e m \<Longrightarrow> kn (snd (bus_read32 b a e)) m"
  "kn e m \<Longrightarrow> kn (snd (port_in8 b p e)) m"
  "kn e m \<Longrightarrow> kn (snd (port_in16 b p e)) m"
  "kn e m \<Longrightarrow> kn (snd (port_in32 b p e)) m"
  using reads by (simp_all add: knows_def dma_reads_def)

lemma read8_known: "kn e m \<Longrightarrow> k \<in> own \<Longrightarrow> fst (bus_read8 b (base + word_of_nat k) e) = m k"
  using reads by (simp add: knows_def dma_reads_def)

lemma read16_known: "kn e m \<Longrightarrow> {k..<k + 2} \<subseteq> own \<Longrightarrow> le16 (fst (bus_read16 b (base + word_of_nat k) e)) = mget m k 2"
  using reads knows_mget [of own mem e m k 2] by (simp add: dma_reads_def)

lemma read32_known: "kn e m \<Longrightarrow> {k..<k + 4} \<subseteq> own \<Longrightarrow> le32 (fst (bus_read32 b (base + word_of_nat k) e)) = mget m k 4"
  using reads knows_mget [of own mem e m k 4] by (simp add: dma_reads_def)

lemma at_reads:
  "dma_at own mem w m w' \<Longrightarrow> wp (mem_read8 b a) (\<lambda>_. dma_at own mem w m) w'"
  "dma_at own mem w m w' \<Longrightarrow> wp (mem_read16 b a) (\<lambda>_. dma_at own mem w m) w'"
  "dma_at own mem w m w' \<Longrightarrow> wp (mem_read32 b a) (\<lambda>_. dma_at own mem w m) w'"
  "dma_at own mem w m w' \<Longrightarrow> wp (io_inb b p) (\<lambda>_. dma_at own mem w m) w'"
  "dma_at own mem w m w' \<Longrightarrow> wp (io_inw b p) (\<lambda>_. dma_at own mem w m) w'"
  "dma_at own mem w m w' \<Longrightarrow> wp (io_inl b p) (\<lambda>_. dma_at own mem w m) w'"
  by (auto simp: wp_simps io_defs intro!: dma_atI kn_reads elim!: dma_atE)

lemma at_read8:
  "dma_at own mem w m w' \<Longrightarrow> k \<in> own \<Longrightarrow> wp (mem_read8 b (base + word_of_nat k)) (\<lambda>v w''. v = m k \<and> dma_at own mem w m w'') w'"
  by (auto simp: wp_simps read8_known intro!: dma_atI kn_reads elim!: dma_atE)

lemma at_read16:
  "dma_at own mem w m w' \<Longrightarrow> {k..<k + 2} \<subseteq> own \<Longrightarrow>
   wp (mem_read16 b (base + word_of_nat k)) (\<lambda>v w''. le16 v = mget m k 2 \<and> dma_at own mem w m w'') w'"
  by (auto simp: wp_simps read16_known intro!: dma_atI kn_reads elim!: dma_atE)

lemma at_read32:
  "dma_at own mem w m w' \<Longrightarrow> {k..<k + 4} \<subseteq> own \<Longrightarrow>
   wp (mem_read32 b (base + word_of_nat k)) (\<lambda>v w''. le32 v = mget m k 4 \<and> dma_at own mem w m w'') w'"
  by (auto simp: wp_simps read32_known intro!: dma_atI kn_reads elim!: dma_atE)

lemma wp_read16:
  "kn (env w) m \<Longrightarrow> {k..<k + 2} \<subseteq> own \<Longrightarrow>
   wp (mem_read16 b (base + word_of_nat k)) (\<lambda>v w'. le16 v = mget m k 2 \<and> kn (env w') m) w"
  by (simp add: wp_simps read16_known kn_reads)

lemma wp_read32:
  "kn (env w) m \<Longrightarrow> {k..<k + 4} \<subseteq> own \<Longrightarrow>
   wp (mem_read32 b (base + word_of_nat k)) (\<lambda>v w'. le32 v = mget m k 4 \<and> kn (env w') m) w"
  by (simp add: wp_simps read32_known kn_reads)

lemma wp_copy_out:
  assumes "kn (env w) m" "{k..<k + n} \<subseteq> own" "\<And>e. kn e m \<Longrightarrow> Q (mget m k n) (w\<lparr>env := e\<rparr>)"
  shows "wp (copy_out b base k n) Q (w :: ('e, 'z) world_scheme)"
proof -
  let ?I = "\<lambda>x bs w'. bs = mget m k x \<and> (\<exists>e. w' = w\<lparr>env := e\<rparr> \<and> kn e m)"
  have "wp (copy_out b base k n) (?I n) w"
    unfolding copy_out_def
  proof (rule wp_fold_upt [where I = "?I"])
    show "?I 0 [] w"
      using assms(1) by (auto simp: mget_def intro!: exI [of _ "env w"])
  next
    fix x bs w'
    assume x: "x < n" and "?I x bs w'"
    then obtain e where e: "w' = w\<lparr>env := e\<rparr>" "kn e m" "bs = mget m k x" by auto
    have "k + x \<in> own" using assms(2) x by auto
    then have "fst (bus_read8 b (base + word_of_nat (k + x)) e) = m (k + x)"
      by (rule read8_known [OF e(2)])
    then show "wp (do { v \<leftarrow> mem_read8 b (base + word_of_nat (k + x)); State_Monad.return (bs @ [v]) }) (?I (Suc x)) w'"
      using e x kn_reads(1) [OF e(2)] by (auto simp: wp_simps mget_def)
  qed
  then show ?thesis
    using assms(3) by (auto elim!: wp_mono)
qed

lemma at_copy_out:
  "dma_at own mem w m w' \<Longrightarrow> {k..<k + n} \<subseteq> own \<Longrightarrow>
   wp (copy_out b base k n) (\<lambda>bs w''. bs = mget m k n \<and> dma_at own mem w m w'') w'"
  by (rule wp_copy_out [where m = m]) (auto simp: dma_at_def)

end

text \<open>The driver's own memory: what it may write, too.\<close>

locale dma_memory =
  fixes b :: "'e bus" and base :: u64 and sz :: nat and own :: "nat set" and mem :: "'e \<Rightarrow> cmem"
  assumes hw: "dma_hw b base sz own mem"

lemma dma_memory_view: "dma_memory b base sz own mem \<Longrightarrow> dma_view b base own mem"
  by (simp add: dma_memory_def dma_view_def dma_hw_def)

sublocale dma_memory \<subseteq> dma_view b base own mem
  using dma_memory_axioms by (rule dma_memory_view)

context dma_memory begin

lemma kn_writes:
  "kn e m \<Longrightarrow> k + 1 \<le> sz \<Longrightarrow> kn (bus_write8 b (base + word_of_nat k) v8 e) (mput m k [v8])"
  "kn e m \<Longrightarrow> k + 2 \<le> sz \<Longrightarrow> kn (bus_write16 b (base + word_of_nat k) v16 e) (mput m k (le16 v16))"
  "kn e m \<Longrightarrow> k + 4 \<le> sz \<Longrightarrow> kn (bus_write32 b (base + word_of_nat k) v32 e) (mput m k (le32 v32))"
  "kn e m \<Longrightarrow> k + 8 \<le> sz \<Longrightarrow> kn (bus_write64 b (base + word_of_nat k) v64 e) (mput m k (le64 v64))"
  using hw by (simp_all add: knows_def dma_hw_def dma_writes_def mput_def)

lemma kn_outside:
  "kn e m \<Longrightarrow> outside base sz a \<Longrightarrow> kn (bus_write8 b a v8 e) m"
  "kn e m \<Longrightarrow> outside base sz a \<Longrightarrow> kn (bus_write16 b a v16 e) m"
  "kn e m \<Longrightarrow> outside base sz a \<Longrightarrow> kn (bus_write32 b a v32 e) m"
  "kn e m \<Longrightarrow> kn (port_out8 b p v8 e) m"
  "kn e m \<Longrightarrow> kn (port_out16 b p v16 e) m"
  "kn e m \<Longrightarrow> kn (port_out32 b p v32 e) m"
  using hw by (simp_all add: knows_def dma_hw_def dma_writes_def)

lemma at_writes:
  "dma_at own mem w m w' \<Longrightarrow> k + 1 \<le> sz \<Longrightarrow> wp (mem_write8 b (base + word_of_nat k) v8) (\<lambda>_. dma_at own mem w (mput m k [v8])) w'"
  "dma_at own mem w m w' \<Longrightarrow> k + 2 \<le> sz \<Longrightarrow> wp (mem_write16 b (base + word_of_nat k) v16) (\<lambda>_. dma_at own mem w (mput m k (le16 v16))) w'"
  "dma_at own mem w m w' \<Longrightarrow> k + 4 \<le> sz \<Longrightarrow> wp (mem_write32 b (base + word_of_nat k) v32) (\<lambda>_. dma_at own mem w (mput m k (le32 v32))) w'"
  "dma_at own mem w m w' \<Longrightarrow> k + 8 \<le> sz \<Longrightarrow> wp (mem_write64 b (base + word_of_nat k) v64) (\<lambda>_. dma_at own mem w (mput m k (le64 v64))) w'"
  by (auto simp: wp_simps intro!: dma_atI kn_writes elim!: dma_atE)

lemma at_outside:
  "dma_at own mem w m w' \<Longrightarrow> outside base sz a \<Longrightarrow> wp (mem_write8 b a v8) (\<lambda>_. dma_at own mem w m) w'"
  "dma_at own mem w m w' \<Longrightarrow> outside base sz a \<Longrightarrow> wp (mem_write16 b a v16) (\<lambda>_. dma_at own mem w m) w'"
  "dma_at own mem w m w' \<Longrightarrow> outside base sz a \<Longrightarrow> wp (mem_write32 b a v32) (\<lambda>_. dma_at own mem w m) w'"
  "dma_at own mem w m w' \<Longrightarrow> wp (io_outb b p v8) (\<lambda>_. dma_at own mem w m) w'"
  "dma_at own mem w m w' \<Longrightarrow> wp (io_outw b p v16) (\<lambda>_. dma_at own mem w m) w'"
  "dma_at own mem w m w' \<Longrightarrow> wp (io_outl b p v32) (\<lambda>_. dma_at own mem w m) w'"
  by (auto simp: wp_simps io_defs intro!: dma_atI kn_outside elim!: dma_atE)

lemma wp_copy_in:
  assumes "kn (env w) m" "k + length bs \<le> sz" "\<And>e. kn e (mput m k bs) \<Longrightarrow> Q () (w\<lparr>env := e\<rparr>)"
  shows "wp (copy_in b base k bs) Q (w :: ('e, 'z) world_scheme)"
proof -
  let ?I = "\<lambda>x w'. \<exists>e. w' = w\<lparr>env := e\<rparr> \<and> kn e (mput m k (take x bs))"
  have "wp (copy_in b base k bs) (\<lambda>_. ?I (length bs)) w"
    unfolding copy_in_def
  proof (rule wp_for_upt [where I = "?I"])
    show "?I 0 w"
      using assms(1) by (intro exI [of _ "env w"]) simp
  next
    fix x w'
    assume x: "x < length bs" and "?I x w'"
    then obtain e where e: "w' = w\<lparr>env := e\<rparr>" "kn e (mput m k (take x bs))" by auto
    have "kn (bus_write8 b (base + word_of_nat (k + x)) (bs ! x) e) (mput (mput m k (take x bs)) (k + x) [bs ! x])"
      using e(2) x assms(2) by (intro kn_writes(1)) simp_all
    moreover have "mput (mput m k (take x bs)) (k + x) [bs ! x] = mput m k (take (Suc x) bs)"
      using x mput_snoc [of m k "take x bs" "bs ! x"] by (simp add: take_Suc_conv_app_nth)
    ultimately show "wp (mem_write8 b (base + word_of_nat (k + x)) (bs ! x)) (\<lambda>_. ?I (Suc x)) w'"
      using e(1) by (auto simp: wp_simps)
  qed
  then show ?thesis
    using assms(3) by (auto elim!: wp_mono)
qed

lemma at_copy_in:
  "dma_at own mem w m w' \<Longrightarrow> k + length bs \<le> sz \<Longrightarrow> wp (copy_in b base k bs) (\<lambda>_. dma_at own mem w (mput m k bs)) w'"
  by (rule wp_copy_in [where m = m]) (auto simp: dma_at_def)

end

section \<open>A memory with no device\<close>

text \<open>The contract can be met: plain memory at the addresses of the structure.\<close>

definition ram_bus :: "u64 \<Rightarrow> nat \<Rightarrow> cmem bus" where
  "ram_bus base sz =
     (let at = (\<lambda>a. unat (a - base));
          wr = (\<lambda>a bs m. if at a < sz then mput m (at a) bs else m) in
      idle_bus\<lparr>
        bus_read8 := \<lambda>a m. (m (at a), m),
        bus_read16 := \<lambda>a m. (ucast (m (at a)) OR push_bit 8 (ucast (m (at a + 1))), m),
        bus_read32 := \<lambda>a m. (ucast (m (at a)) OR push_bit 8 (ucast (m (at a + 1))) OR
           push_bit 16 (ucast (m (at a + 2))) OR push_bit 24 (ucast (m (at a + 3))), m),
        bus_write8 := \<lambda>a v. wr a [v],
        bus_write16 := \<lambda>a v. wr a (le16 v),
        bus_write32 := \<lambda>a v. wr a (le32 v),
        bus_write64 := \<lambda>a v. wr a (le64 v)\<rparr>)"

lemma bit_byte: "bit (x :: u8) n \<Longrightarrow> n < 8"
  using bit_imp_le_length [of x n] by simp

lemma bit_byte_high: "\<not> bit (x :: u8) (8 + n)" "\<not> bit (x :: u8) (16 + n)" "\<not> bit (x :: u8) (24 + n)"
  using bit_byte [of x] by fastforce+

lemma le16_join: "le16 (ucast (x :: u8) OR push_bit 8 (ucast y)) = [x, y]"
  by (auto simp: le16_def intro!: bit_word_eqI simp: bit_simps bit_byte_high)

lemma le32_join:
  "le32 (ucast (x :: u8) OR push_bit 8 (ucast y) OR push_bit 16 (ucast z) OR push_bit 24 (ucast u)) = [x, y, z, u]"
  by (auto simp: le32_def intro!: bit_word_eqI simp: bit_simps bit_byte_high)

lemma at_offset: "k < 2 ^ 64 \<Longrightarrow> unat (base + word_of_nat k - base :: u64) = k"
  by (simp add: unat_of_nat take_bit_nat_eq_self)

lemma outside_at: "outside base sz a \<Longrightarrow> \<not> unat (a - base) < sz"
proof
  assume o: "outside base sz a" and lt: "unat (a - base) < sz"
  have "base + word_of_nat (unat (a - base)) = a" by simp
  then show False using o lt by (auto simp: outside_def)
qed

lemma unat_add64: "unat a + unat b < 2 ^ 64 \<Longrightarrow> unat (a + b :: u64) = unat a + unat b"
  using unat_add_lem [of a b] by simp

text \<open>Two blocks of addresses that do not meet.\<close>

lemma outside_apart:
  assumes "unat base + sz < 2 ^ 64" "unat a < unat base \<or> unat base + sz \<le> unat a"
  shows "outside base sz a"
  unfolding outside_def
proof (intro allI impI notI)
  fix k assume k: "k < sz" and eq: "a = base + word_of_nat k"
  have "unat (word_of_nat k :: u64) = k"
    using k assms(1) by (simp add: unat_of_nat take_bit_nat_eq_self)
  then have "unat a = unat base + k"
    using eq k assms(1) unat_add64 [of base "word_of_nat k"] by simp
  then show False using assms(2) k by simp
qed

lemma ram_bus_dma:
  assumes "sz < 2 ^ 64" "own \<subseteq> {..<sz}"
  shows "dma_hw (ram_bus base sz) base sz own (\<lambda>m. m)"
proof -
  have at: "unat (base + word_of_nat k - base) = k" if "k < sz" for k
    using that assms(1) by (intro at_offset) simp
  have in_own: "k < sz" if "{k..<k + Suc n} \<subseteq> own" for k n
  proof -
    have "k \<in> {k..<k + Suc n}" by simp
    then show ?thesis using that assms(2) by blast
  qed
  have "dma_reads (ram_bus base sz) base own (\<lambda>m. m)"
    using assms(2) at in_own [of _ 1] in_own [of _ 3]
    by (auto simp: dma_reads_def ram_bus_def idle_bus_def Let_def le16_join le32_join mget_def upt_rec subset_iff numeral_2_eq_2 numeral_3_eq_3)
  moreover have "dma_writes (ram_bus base sz) base sz own (\<lambda>m. m)"
    using at outside_at [of base sz]
    by (auto simp: dma_writes_def ram_bus_def idle_bus_def Let_def)
  ultimately show ?thesis by (simp add: dma_hw_def)
qed

section \<open>The network drivers' world\<close>

text \<open>The static variables of the three network drivers: their log tags and \<^verbatim>\<open>debug_count\<close> of \<^verbatim>\<open>virtio_net_receive\<close>.\<close>

record 'e net_world = "'e world" +
  e1000_log :: "nat option"
  rtl_log :: "nat option"
  vnet_log :: "nat option"
  debug_count :: int

text \<open>\<^verbatim>\<open>if (!tag) tag = log_register(name, LOG_INFO);\<close>\<close>

definition static_tag :: "string \<Rightarrow> nat option \<Rightarrow> log_state \<Rightarrow> nat option \<times> log_state" where
  "static_tag name tag lg = (case tag of None \<Rightarrow> log_register lg name LOG_INFO | Some t \<Rightarrow> (Some t, lg))"

end
