(* ===== verification/E1000.thy ===== *)
theory E1000
  imports Dma_Memory Resources
begin

text \<open>
  The Intel 82540EM driver, \<^verbatim>\<open>drivers/e1000/e1000.h\<close> and \<^verbatim>\<open>drivers/e1000/e1000.c\<close>. The record \<open>e1000\<close> holds
  the fields of the context that only the driver uses, and the address of the structure; the descriptor rings and the
  packet buffers are in memory shared with the device, at the offsets of the structure. The busy-wait delays have no
  effect on the state and are left out.
\<close>

section \<open>Constants and layout\<close>

definition E1000_CTRL :: u32 where "E1000_CTRL = 0x00000"
definition E1000_ICR :: u32 where "E1000_ICR = 0x000C0"
definition E1000_IMS :: u32 where "E1000_IMS = 0x000D0"
definition E1000_RCTL :: u32 where "E1000_RCTL = 0x00100"
definition E1000_TCTL :: u32 where "E1000_TCTL = 0x00400"
definition E1000_RDBAL :: u32 where "E1000_RDBAL = 0x02800"
definition E1000_RDBAH :: u32 where "E1000_RDBAH = 0x02804"
definition E1000_RDLEN :: u32 where "E1000_RDLEN = 0x02808"
definition E1000_RDH :: u32 where "E1000_RDH = 0x02810"
definition E1000_RDT :: u32 where "E1000_RDT = 0x02818"
definition E1000_TDBAL :: u32 where "E1000_TDBAL = 0x03800"
definition E1000_TDBAH :: u32 where "E1000_TDBAH = 0x03804"
definition E1000_TDLEN :: u32 where "E1000_TDLEN = 0x03808"
definition E1000_TDH :: u32 where "E1000_TDH = 0x03810"
definition E1000_TDT :: u32 where "E1000_TDT = 0x03818"
definition E1000_RAL :: u32 where "E1000_RAL = 0x05400"
definition E1000_RAH :: u32 where "E1000_RAH = 0x05404"

definition E1000_CTRL_SLU :: u32 where "E1000_CTRL_SLU = push_bit 6 1"
definition E1000_RCTL_EN :: u32 where "E1000_RCTL_EN = push_bit 1 1"
definition E1000_RCTL_UPE :: u32 where "E1000_RCTL_UPE = push_bit 3 1"
definition E1000_RCTL_MPE :: u32 where "E1000_RCTL_MPE = push_bit 4 1"
definition E1000_RCTL_BAM :: u32 where "E1000_RCTL_BAM = push_bit 15 1"
definition E1000_RCTL_BSIZE_2K :: u32 where "E1000_RCTL_BSIZE_2K = push_bit 16 0"
definition E1000_TCTL_EN :: u32 where "E1000_TCTL_EN = push_bit 1 1"
definition E1000_TCTL_PSP :: u32 where "E1000_TCTL_PSP = push_bit 3 1"
definition E1000_RXD_STAT_DD :: u8 where "E1000_RXD_STAT_DD = push_bit 0 1"
definition E1000_RXD_STAT_EOP :: u8 where "E1000_RXD_STAT_EOP = push_bit 1 1"
definition E1000_TXD_CMD_EOP :: u8 where "E1000_TXD_CMD_EOP = push_bit 0 1"
definition E1000_TXD_CMD_RS :: u8 where "E1000_TXD_CMD_RS = push_bit 3 1"
definition E1000_TXD_STAT_DD :: u8 where "E1000_TXD_STAT_DD = push_bit 0 1"

definition E1000_NUM_RX_DESC :: nat where "E1000_NUM_RX_DESC = 8"
definition E1000_NUM_TX_DESC :: nat where "E1000_NUM_TX_DESC = 8"
definition E1000_RX_BUFFER_SIZE :: nat where "E1000_RX_BUFFER_SIZE = 2048"
definition E1000_TX_BUFFER_SIZE :: nat where "E1000_TX_BUFFER_SIZE = 2048"

lemmas e1000_sizes = E1000_NUM_RX_DESC_def E1000_NUM_TX_DESC_def E1000_RX_BUFFER_SIZE_def E1000_TX_BUFFER_SIZE_def

record e1000 =
  e_self :: u64
  e_mmio_base :: u64
  e_initialized :: bool
  e_mac_addr :: "u8 list"
  rx_current :: u16
  tx_current :: u16

text \<open>
  Offsets in \<^verbatim>\<open>e1000_t\<close>: the two arrays of 16-byte packed descriptors and the two arrays of buffers. In a descriptor
  the buffer address is at 0, the length at 8, the status at 12; in a transmit descriptor the command is at 11.
\<close>

definition rx_desc_at :: "nat \<Rightarrow> nat" where "rx_desc_at i = 16 + 16 * i"
definition rx_buffer_at :: "nat \<Rightarrow> nat" where "rx_buffer_at i = 144 + E1000_RX_BUFFER_SIZE * i"
definition tx_desc_at :: "nat \<Rightarrow> nat" where "tx_desc_at i = 16544 + 16 * i"
definition tx_buffer_at :: "nat \<Rightarrow> nat" where "tx_buffer_at i = 16672 + E1000_TX_BUFFER_SIZE * i"
definition E1000_SIZE :: nat where "E1000_SIZE = 33072"

definition e_field :: "e1000 \<Rightarrow> nat \<Rightarrow> u64" where
  "e_field c off = e_self c + word_of_nat off"

definition next_index :: "u16 \<Rightarrow> nat \<Rightarrow> u16" where
  "next_index i n = word_of_nat ((unat i + 1) mod n)"

definition e1000_id_table :: "id_entry list" where
  "e1000_id_table =
     [\<lparr>id_compatible = None, id_vendor = 0x8086, id_device = 0x100E, id_name = ''Intel 82540EM Gigabit Ethernet''\<rparr>,
      \<lparr>id_compatible = None, id_vendor = 0, id_device = 0, id_name = ''''\<rparr>]"

section \<open>Operations\<close>

definition e1000_read32 :: "'e bus \<Rightarrow> e1000 \<Rightarrow> u32 \<Rightarrow> (('e, 'z) world_scheme, u32) state" where
  "e1000_read32 b c offset = mem_read32 b (e_mmio_base c + ucast offset)"

definition e1000_write32 :: "'e bus \<Rightarrow> e1000 \<Rightarrow> u32 \<Rightarrow> u32 \<Rightarrow> (('e, 'z) world_scheme, unit) state" where
  "e1000_write32 b c offset v = mem_write32 b (e_mmio_base c + ucast offset) v"

definition e1000_read_mac_address :: "'e bus \<Rightarrow> e1000 \<Rightarrow> (('e, 'z) world_scheme, e1000) state" where
  "e1000_read_mac_address b c =
     (if e_mmio_base c = 0 then State_Monad.return (c\<lparr>e_mac_addr := replicate 6 0\<rparr>)
      else do {
        ral \<leftarrow> e1000_read32 b c E1000_RAL;
        rah \<leftarrow> e1000_read32 b c E1000_RAH;
        State_Monad.return (c\<lparr>e_mac_addr :=
          [ucast (drop_bit 0 ral AND 0xFF), ucast (drop_bit 8 ral AND 0xFF), ucast (drop_bit 16 ral AND 0xFF),
           ucast (drop_bit 24 ral AND 0xFF), ucast (drop_bit 0 rah AND 0xFF), ucast (drop_bit 8 rah AND 0xFF)]\<rparr>) })"

definition e1000_init_rx_desc :: "'e bus \<Rightarrow> e1000 \<Rightarrow> nat \<Rightarrow> (('e, 'z) world_scheme, unit) state" where
  "e1000_init_rx_desc b c i = do {
     mem_write64 b (e_field c (rx_desc_at i)) (e_field c (rx_buffer_at i));
     mem_write8 b (e_field c (rx_desc_at i + 12)) 0 }"

definition e1000_init_tx_desc :: "'e bus \<Rightarrow> e1000 \<Rightarrow> nat \<Rightarrow> (('e, 'z) world_scheme, unit) state" where
  "e1000_init_tx_desc b c i = do {
     mem_write64 b (e_field c (tx_desc_at i)) (e_field c (tx_buffer_at i));
     mem_write8 b (e_field c (tx_desc_at i + 12)) E1000_TXD_STAT_DD;
     mem_write8 b (e_field c (tx_desc_at i + 11)) 0 }"

definition e1000_rings :: "'e bus \<Rightarrow> e1000 \<Rightarrow> (('e, 'z) world_scheme, unit) state" where
  "e1000_rings b c = do {
     for_each [0..<E1000_NUM_RX_DESC] (e1000_init_rx_desc b c);
     e1000_write32 b c E1000_RDBAL (ucast (e_field c (rx_desc_at 0)));
     e1000_write32 b c E1000_RDBAH (ucast (drop_bit 32 (e_field c (rx_desc_at 0))));
     e1000_write32 b c E1000_RDLEN (word_of_nat (E1000_NUM_RX_DESC * 16));
     e1000_write32 b c E1000_RDH 0;
     e1000_write32 b c E1000_RDT (word_of_nat (E1000_NUM_RX_DESC - 1));
     e1000_read32 b c E1000_ICR;
     e1000_write32 b c E1000_IMS 0;
     for_each [0..<E1000_NUM_TX_DESC] (e1000_init_tx_desc b c);
     e1000_write32 b c E1000_TDBAL (ucast (e_field c (tx_desc_at 0)));
     e1000_write32 b c E1000_TDBAH (ucast (drop_bit 32 (e_field c (tx_desc_at 0))));
     e1000_write32 b c E1000_TDLEN (word_of_nat (E1000_NUM_TX_DESC * 16));
     e1000_write32 b c E1000_TDH 0;
     e1000_write32 b c E1000_TDT 0 }"

definition e1000_tctl :: u32 where
  "e1000_tctl = E1000_TCTL_EN OR E1000_TCTL_PSP"

definition e1000_rctl :: u32 where
  "e1000_rctl = E1000_RCTL_EN OR E1000_RCTL_UPE OR E1000_RCTL_MPE OR E1000_RCTL_BAM OR E1000_RCTL_BSIZE_2K"

definition e1000_init_context ::
  "'e bus \<Rightarrow> e1000 option \<Rightarrow> device option \<Rightarrow> (('e, 'z) net_world_scheme, int \<times> e1000 option) state" where
  "e1000_init_context b ctx dev = (case (ctx, dev) of
     (Some c, Some d) \<Rightarrow> do {
       tag \<leftarrow> gets e1000_log;
       lg \<leftarrow> gets logger;
       let (tag, lg) = static_tag ''e1000'' tag lg;
       modify (\<lambda>w. w\<lparr>logger := lg, e1000_log := tag\<rparr>);
       let c = c\<lparr>e_mmio_base := reg_base d, rx_current := 0, tx_current := 0\<rparr>;
       ctrl \<leftarrow> e1000_read32 b c E1000_CTRL;
       e1000_write32 b c E1000_CTRL (ctrl OR E1000_CTRL_SLU);
       c \<leftarrow> e1000_read_mac_address b c;
       e1000_rings b c;
       e1000_write32 b c E1000_TCTL e1000_tctl;
       e1000_write32 b c E1000_RCTL e1000_rctl;
       print (log_info (log_deref lg tag) (''Driver initialized successfully'' @ [CHR 0x0A]));
       State_Monad.return (0, Some (c\<lparr>e_initialized := True\<rparr>)) }
   | _ \<Rightarrow> State_Monad.return (-1, ctx))"

definition e1000_deinit_context :: "e1000 option \<Rightarrow> e1000 option" where
  "e1000_deinit_context ctx = ctx"

text \<open>The MAC address stored at \<^verbatim>\<open>mac\<close> (the flag: it is not NULL), \<open>None\<close> for the result \<^verbatim>\<open>-1\<close>.\<close>

definition e1000_get_mac :: "e1000 option \<Rightarrow> bool \<Rightarrow> u8 list option" where
  "e1000_get_mac ctx mac = (case ctx of
     None \<Rightarrow> None
   | Some c \<Rightarrow> if \<not> mac then None else if \<not> e_initialized c then None else Some (e_mac_addr c))"

text \<open>
  \<open>None\<close> is the result \<^verbatim>\<open>-1\<close>; \<open>Some bs\<close> is the result 0, with \<open>bs\<close> stored at the start of \<^verbatim>\<open>buffer\<close> and its
  length in \<^verbatim>\<open>*received_length\<close>. The flags say that these pointers are not NULL.
\<close>

definition e1000_receive ::
  "'e bus \<Rightarrow> e1000 option \<Rightarrow> bool \<Rightarrow> nat \<Rightarrow> bool \<Rightarrow> (('e, 'z) world_scheme, u8 list option \<times> e1000 option) state" where
  "e1000_receive b ctx buffer buffer_size received_length = (case ctx of
     None \<Rightarrow> State_Monad.return (None, None)
   | Some c \<Rightarrow>
       if \<not> buffer \<or> \<not> received_length then State_Monad.return (None, ctx)
       else if \<not> e_initialized c then State_Monad.return (None, ctx)
       else do {
         let desc = rx_desc_at (unat (rx_current c));
         status \<leftarrow> mem_read8 b (e_field c (desc + 12));
         if status AND E1000_RXD_STAT_DD = 0 then State_Monad.return (None, ctx)
         else do {
           status \<leftarrow> mem_read8 b (e_field c (desc + 12));
           if status AND E1000_RXD_STAT_EOP = 0 then do {
             mem_write8 b (e_field c (desc + 12)) 0;
             State_Monad.return (None, Some (c\<lparr>rx_current := next_index (rx_current c) E1000_NUM_RX_DESC\<rparr>)) }
           else do {
             pkt_len \<leftarrow> mem_read16 b (e_field c (desc + 8));
             if unat pkt_len > buffer_size then do {
               mem_write8 b (e_field c (desc + 12)) 0;
               State_Monad.return (None, Some (c\<lparr>rx_current := next_index (rx_current c) E1000_NUM_RX_DESC\<rparr>)) }
             else do {
               bs \<leftarrow> copy_out b (e_self c) (rx_buffer_at (unat (rx_current c))) (unat pkt_len);
               mem_write8 b (e_field c (desc + 12)) 0;
               e1000_write32 b c E1000_RDT (ucast (rx_current c));
               State_Monad.return (Some bs, Some (c\<lparr>rx_current := next_index (rx_current c) E1000_NUM_RX_DESC\<rparr>)) } } } })"

text \<open>\<open>packet\<close> is the \<^verbatim>\<open>length\<close> bytes at the pointer (\<open>None\<close>: NULL).\<close>

definition e1000_transmit ::
  "'e bus \<Rightarrow> e1000 option \<Rightarrow> u8 list option \<Rightarrow> (('e, 'z) world_scheme, int \<times> e1000 option) state" where
  "e1000_transmit b ctx packet = (case (ctx, packet) of
     (Some c, Some pkt) \<Rightarrow>
       if \<not> e_initialized c then State_Monad.return (-1, ctx)
       else if length pkt > E1000_TX_BUFFER_SIZE then State_Monad.return (-1, ctx)
       else do {
         let desc = tx_desc_at (unat (tx_current c));
         status \<leftarrow> mem_read8 b (e_field c (desc + 12));
         if status AND E1000_TXD_STAT_DD = 0 then State_Monad.return (-1, ctx)
         else do {
           copy_in b (e_self c) (tx_buffer_at (unat (tx_current c))) pkt;
           mem_write16 b (e_field c (desc + 8)) (word_of_nat (length pkt));
           mem_write8 b (e_field c (desc + 11)) (E1000_TXD_CMD_EOP OR E1000_TXD_CMD_RS);
           mem_write8 b (e_field c (desc + 12)) 0;
           let next_tx = next_index (tx_current c) E1000_NUM_TX_DESC;
           e1000_write32 b c E1000_TDT (ucast next_tx);
           State_Monad.return (0, Some (c\<lparr>tx_current := next_tx\<rparr>)) } }
   | _ \<Rightarrow> State_Monad.return (-1, ctx))"

section \<open>The driver's own memory\<close>

text \<open>
  The device writes the receive buffers and, in the descriptors, everything but the buffer address of a receive
  descriptor and the address, length and command of a transmit descriptor; the driver owns the rest of the rings and
  the transmit buffers.
\<close>

definition e1000_own :: "nat set" where
  "e1000_own = (\<Union>i\<in>{..<8}. {rx_desc_at i..<rx_desc_at i + 8} \<union> {tx_desc_at i..<tx_desc_at i + 12} \<union>
     {tx_buffer_at i..<tx_buffer_at i + 2048})"

text \<open>Every descriptor holds the address of its buffer.\<close>

definition e1000_linked :: "u64 \<Rightarrow> cmem \<Rightarrow> bool" where
  "e1000_linked self m \<longleftrightarrow> (\<forall>i<8.
     mget m (rx_desc_at i) 8 = le64 (self + word_of_nat (rx_buffer_at i)) \<and>
     mget m (tx_desc_at i) 8 = le64 (self + word_of_nat (tx_buffer_at i)))"

text \<open>The device's registers are not in the structure.\<close>

definition e1000_regs_apart :: "u64 \<Rightarrow> u64 \<Rightarrow> bool" where
  "e1000_regs_apart self mmio \<longleftrightarrow> (\<forall>r. unat r < 0x6000 \<longrightarrow> outside self E1000_SIZE (mmio + ucast (r :: u32)))"

definition e1000_wf :: "e1000 \<Rightarrow> bool" where
  "e1000_wf c \<longleftrightarrow> unat (rx_current c) < E1000_NUM_RX_DESC \<and> unat (tx_current c) < E1000_NUM_TX_DESC \<and> length (e_mac_addr c) = 6"

lemmas e1000_layout = rx_desc_at_def rx_buffer_at_def tx_desc_at_def tx_buffer_at_def E1000_SIZE_def e1000_sizes

lemmas e1000_reg_defs = E1000_CTRL_def E1000_ICR_def E1000_IMS_def E1000_RCTL_def E1000_TCTL_def E1000_RDBAL_def
  E1000_RDBAH_def E1000_RDLEN_def E1000_RDH_def E1000_RDT_def E1000_TDBAL_def E1000_TDBAH_def E1000_TDLEN_def
  E1000_TDH_def E1000_TDT_def

lemma e1000_own_parts:
  "i < 8 \<Longrightarrow> {rx_desc_at i..<rx_desc_at i + 8} \<subseteq> e1000_own"
  "i < 8 \<Longrightarrow> {tx_desc_at i..<tx_desc_at i + 8} \<subseteq> e1000_own"
  "i < 8 \<Longrightarrow> {tx_desc_at i + 8..<10 + tx_desc_at i} \<subseteq> e1000_own"
  "i < 8 \<Longrightarrow> tx_desc_at i + 11 \<in> e1000_own"
  "i < 8 \<Longrightarrow> {tx_buffer_at i..<tx_buffer_at i + 2048} \<subseteq> e1000_own"
  by (force simp: e1000_own_def)+

lemma next_index_less: "0 < n \<Longrightarrow> n \<le> 8 \<Longrightarrow> unat (next_index i n) < n"
proof -
  assume n: "0 < n" "n \<le> 8"
  then have lt: "(unat i + 1) mod n < n" by simp
  then have "(unat i + 1) mod n < 65536" using n by linarith
  then have "unat (next_index i n) = (unat i + 1) mod n"
    by (simp add: next_index_def unat_of_nat take_bit_nat_eq_self)
  then show ?thesis using lt by simp
qed

text \<open>The buffers of one index do not meet the descriptors of another.\<close>

lemma e1000_disjoint:
  "i < 8 \<Longrightarrow> j < 8 \<Longrightarrow> rx_desc_at i + 16 \<le> tx_desc_at j"
  "i < 8 \<Longrightarrow> j < 8 \<Longrightarrow> tx_desc_at i + 16 \<le> tx_buffer_at j"
  "i < j \<Longrightarrow> rx_desc_at i + 16 \<le> rx_desc_at j"
  "i < j \<Longrightarrow> tx_desc_at i + 16 \<le> tx_desc_at j"
  "i < 8 \<Longrightarrow> rx_desc_at i + 16 \<le> E1000_SIZE"
  "i < 8 \<Longrightarrow> tx_desc_at i + 16 \<le> E1000_SIZE"
  "i < 8 \<Longrightarrow> tx_buffer_at i + 2048 \<le> E1000_SIZE"
  by (auto simp: e1000_layout)

lemma e1000_linked_knows: "knows e1000_own mem e m \<Longrightarrow> e1000_linked self (mem e) \<longleftrightarrow> e1000_linked self m"
  by (simp add: e1000_linked_def knows_mget e1000_own_parts cong: conj_cong)

lemma e1000_dma: "dma_hw b self E1000_SIZE e1000_own mem \<Longrightarrow> dma_memory b self E1000_SIZE e1000_own mem"
  by (simp add: dma_memory_def)

section \<open>Transmission\<close>

text \<open>The descriptor \<open>i\<close> describes the packet, which is in its buffer.\<close>

definition e1000_posted :: "u64 \<Rightarrow> nat \<Rightarrow> u8 list \<Rightarrow> cmem \<Rightarrow> bool" where
  "e1000_posted self i pkt m \<longleftrightarrow>
     mget m (tx_desc_at i) 8 = le64 (self + word_of_nat (tx_buffer_at i)) \<and>
     mget m (tx_desc_at i + 8) 2 = le16 (word_of_nat (length pkt)) \<and>
     m (tx_desc_at i + 11) = E1000_TXD_CMD_EOP OR E1000_TXD_CMD_RS \<and>
     mget m (tx_buffer_at i) (length pkt) = pkt"

definition e1000_tx_part :: "nat \<Rightarrow> nat set" where
  "e1000_tx_part i = {tx_desc_at i + 8..<tx_desc_at i + 12} \<union> {tx_buffer_at i..<tx_buffer_at i + 2048}"

lemma e1000_transmit_memory:
  assumes i: "i < 8" and len: "length pkt \<le> 2048" and lk: "e1000_linked self m"
  defines "m' \<equiv> mput (mput (mput (mput m (tx_buffer_at i) pkt) (tx_desc_at i + 8) (le16 (word_of_nat (length pkt))))
    (tx_desc_at i + 11) [E1000_TXD_CMD_EOP OR E1000_TXD_CMD_RS]) (tx_desc_at i + 12) [0]"
  shows "e1000_posted self i pkt m'" "k \<in> e1000_own - e1000_tx_part i \<Longrightarrow> m' k = m k"
proof -
  have d: "tx_desc_at i + 16 \<le> tx_buffer_at i"
    using i by (rule e1000_disjoint(2)) (fact i)
  show "e1000_posted self i pkt m'"
    using i lk d by (simp add: e1000_posted_def m'_def mget_mput_other e1000_linked_def mput_other)
  assume k: "k \<in> e1000_own - e1000_tx_part i"
  have "k \<noteq> tx_desc_at i + 12"
  proof
    assume "k = tx_desc_at i + 12"
    with k obtain j where "j < 8" "tx_desc_at i + 12 \<in> {rx_desc_at j..<rx_desc_at j + 8} \<union> {tx_desc_at j..<tx_desc_at j + 12} \<union>
      {tx_buffer_at j..<tx_buffer_at j + 2048}" by (auto simp: e1000_own_def)
    then show False
      using i by (auto simp: e1000_layout)
  qed
  with k len show "m' k = m k"
    by (auto simp: m'_def e1000_tx_part_def mput_def)
qed

lemma e1000_posted_knows:
  assumes "knows e1000_own mem e m" "i < 8" "length pkt \<le> 2048"
  shows "e1000_posted self i pkt (mem e) \<longleftrightarrow> e1000_posted self i pkt m"
proof -
  have "{tx_buffer_at i..<tx_buffer_at i + length pkt} \<subseteq> e1000_own"
    using e1000_own_parts(5) [OF assms(2)] assms(3) by auto
  moreover have "mem e (tx_desc_at i + 11) = m (tx_desc_at i + 11)"
    using assms(1) e1000_own_parts(4) [OF assms(2)] by (simp add: knows_def)
  moreover have "mget (mem e) (tx_desc_at i + 8) 2 = mget m (tx_desc_at i + 8) 2"
    using assms e1000_own_parts(3) [OF assms(2)] by (intro knows_mget) (simp_all add: numeral_2_eq_2)
  ultimately show ?thesis
    using assms by (simp add: e1000_posted_def knows_mget e1000_own_parts)
qed

text \<open>What the writes of the descriptor do.\<close>

definition e1000_posts :: "'e bus \<Rightarrow> e1000 \<Rightarrow> nat \<Rightarrow> u8 list \<Rightarrow> 'e \<Rightarrow> 'e" where
  "e1000_posts b c i pkt e = bus_write8 b (e_field c (tx_desc_at i + 12)) 0
     (bus_write8 b (e_field c (tx_desc_at i + 11)) (E1000_TXD_CMD_EOP OR E1000_TXD_CMD_RS)
       (bus_write16 b (e_field c (tx_desc_at i + 8)) (word_of_nat (length pkt)) e))"

lemma e1000_posts_knows:
  assumes hw: "dma_hw b (e_self c) E1000_SIZE e1000_own mem" and i: "i < 8" and m: "knows e1000_own mem e m"
  shows "knows e1000_own mem (e1000_posts b c i pkt e)
    (mput (mput (mput m (tx_desc_at i + 8) (le16 (word_of_nat (length pkt))))
      (tx_desc_at i + 11) [E1000_TXD_CMD_EOP OR E1000_TXD_CMD_RS]) (tx_desc_at i + 12) [0])"
proof -
  note kw = dma_memory.kn_writes [OF e1000_dma [OF hw]]
  show ?thesis
    unfolding e1000_posts_def e_field_def using e1000_disjoint(6) [OF i]
    by (intro kw m) simp_all
qed

text \<open>
  C25: A transmit succeeds exactly when the packet fits a buffer and the current descriptor is done. Then the last
  access is the write of the tail register, and at that moment the current descriptor describes the packet and every
  other descriptor and buffer of the driver is as before; the ring index moves on by one, modulo the ring. Otherwise
  the result is -1 and neither the context nor the driver's memory has changed.
\<close>

theorem e1000_transmit_posts:
  assumes hw: "dma_hw b (e_self c) E1000_SIZE e1000_own mem"
    and wf: "e1000_wf c" and init: "e_initialized c" and lk: "e1000_linked (e_self c) (mem (env w))"
  shows "wp (e1000_transmit b (Some c) (Some pkt)) (\<lambda>(r, c') w'.
    if length pkt \<le> E1000_TX_BUFFER_SIZE \<and>
       fst (bus_read8 b (e_field c (tx_desc_at (unat (tx_current c)) + 12)) (env w)) AND E1000_TXD_STAT_DD \<noteq> 0
    then r = 0 \<and> c' = Some (c\<lparr>tx_current := word_of_nat ((unat (tx_current c) + 1) mod 8)\<rparr>) \<and>
      (\<exists>e. env w' = bus_write32 b (e_mmio_base c + ucast E1000_TDT) (word_of_nat ((unat (tx_current c) + 1) mod 8)) e \<and>
         e1000_posted (e_self c) (unat (tx_current c)) pkt (mem e) \<and>
         (\<forall>k \<in> e1000_own - e1000_tx_part (unat (tx_current c)). mem e k = mem (env w) k))
    else r = -1 \<and> c' = Some c \<and> knows e1000_own mem (env w') (mem (env w))) w"
proof -
  note dm = e1000_dma [OF hw]
  let ?i = "unat (tx_current c)"
  have i: "?i < 8" using wf by (simp add: e1000_wf_def e1000_sizes)
  have nx: "ucast (next_index (tx_current c) E1000_NUM_TX_DESC) = (word_of_nat ((?i + 1) mod 8) :: u32)"
    by (simp add: next_index_def e1000_sizes unsigned_of_nat take_bit_nat_eq_self)
  define e1 where "e1 = snd (bus_read8 b (e_field c (tx_desc_at ?i + 12)) (env w))"
  have k1: "knows e1000_own mem e1 (mem (env w))"
    unfolding e1_def by (rule dma_view.kn_reads(1) [OF dma_memory_view [OF dm] knows_refl])
  show ?thesis
  proof (cases "length pkt \<le> E1000_TX_BUFFER_SIZE \<and>
       fst (bus_read8 b (e_field c (tx_desc_at ?i + 12)) (env w)) AND E1000_TXD_STAT_DD \<noteq> 0")
    case False
    then show ?thesis
      using init k1 knows_refl [of e1000_own mem "env w"]
      by (auto simp: e1000_transmit_def wp_simps Let_def not_le e1_def)
  next
    case True
    then have len: "length pkt \<le> 2048" by (simp add: e1000_sizes)
    have post: "\<exists>e'. bus_write32 b (e_mmio_base c + ucast E1000_TDT) v (e1000_posts b c ?i pkt e) =
        bus_write32 b (e_mmio_base c + ucast E1000_TDT) v e' \<and> e1000_posted (e_self c) ?i pkt (mem e') \<and>
        (\<forall>k \<in> e1000_own - e1000_tx_part ?i. mem e' k = mem (env w) k)"
      if "knows e1000_own mem e (mput (mem (env w)) (tx_buffer_at ?i) pkt)" for e v
    proof (rule exI [of _ "e1000_posts b c ?i pkt e"], intro conjI ballI)
      note m' = e1000_posts_knows [OF hw i that]
      show "bus_write32 b (e_mmio_base c + ucast E1000_TDT) v (e1000_posts b c ?i pkt e) =
        bus_write32 b (e_mmio_base c + ucast E1000_TDT) v (e1000_posts b c ?i pkt e)" ..
      show "e1000_posted (e_self c) ?i pkt (mem (e1000_posts b c ?i pkt e))"
        using e1000_posted_knows [OF m' i len] e1000_transmit_memory(1) [OF i len lk] by simp
      fix k assume k: "k \<in> e1000_own - e1000_tx_part ?i"
      show "mem (e1000_posts b c ?i pkt e) k = mem (env w) k"
        using m' k e1000_transmit_memory(2) [OF i len lk k] by (simp add: knows_def)
    qed
    show ?thesis
      using True init
      apply (simp add: e1000_transmit_def wp_simps Let_def e1000_write32_def flip: e1_def)
      apply (rule dma_memory.wp_copy_in [OF dm, where m = "mem (env w)"])
      subgoal using k1 by simp
      subgoal using i len by (simp add: e1000_layout)
      subgoal using post by (simp add: wp_simps nx e1000_posts_def) (simp add: next_index_def e1000_sizes)
      done
  qed
qed

section \<open>Initialisation\<close>

text \<open>One initialising loop links the descriptors it has passed and keeps the others.\<close>

lemma e1000_init_rx_knows:
  assumes hw: "dma_hw b (e_self c) E1000_SIZE e1000_own mem"
  shows "wp (for_each [0..<8] (e1000_init_rx_desc b c)) (\<lambda>_ w'.
    (\<exists>e. w' = w\<lparr>env := e\<rparr>) \<and> (\<forall>i<8. mget (mem (env w')) (rx_desc_at i) 8 = le64 (e_field c (rx_buffer_at i)))) w"
proof -
  note kw = dma_memory.kn_writes [OF e1000_dma [OF hw]]
  let ?I = "\<lambda>x w'. (\<exists>e. w' = w\<lparr>env := e\<rparr>) \<and>
    (\<forall>i<x. mget (mem (env w')) (rx_desc_at i) 8 = le64 (e_field c (rx_buffer_at i)))"
  have "wp (for_each [0..<8] (e1000_init_rx_desc b c)) (\<lambda>_. ?I 8) w"
  proof (rule wp_for_upt [where I = "?I"])
    show "?I 0 w" by (auto intro!: exI [of _ "env w"])
  next
    fix x w'
    assume x: "x < 8" and I: "?I x w'"
    obtain e where e: "w' = w\<lparr>env := e\<rparr>" using I by auto
    define e' where "e' = bus_write8 b (e_field c (rx_desc_at x + 12)) 0 (bus_write64 b (e_field c (rx_desc_at x)) (e_field c (rx_buffer_at x)) e)"
    have kn: "knows e1000_own mem e' (mput (mput (mem e) (rx_desc_at x) (le64 (e_field c (rx_buffer_at x)))) (rx_desc_at x + 12) [0])"
      unfolding e'_def e_field_def using e1000_disjoint(5) [OF x]
      by (intro kw knows_refl) simp_all
    have "mget (mem e') (rx_desc_at i) 8 = le64 (e_field c (rx_buffer_at i))" if i: "i < Suc x" for i
    proof (cases "i = x")
      case True
      then show ?thesis
        using knows_mget [OF kn e1000_own_parts(1) [OF x]] by (simp add: mget_mput_other)
    next
      case False
      then have lt: "i < x" "i < 8" using i x by auto
      then have "mget (mem e) (rx_desc_at i) 8 = le64 (e_field c (rx_buffer_at i))"
        using I e by auto
      then show ?thesis
        using knows_mget [OF kn e1000_own_parts(1) [OF lt(2)]] e1000_disjoint(3) [OF lt(1)] by (simp add: mget_mput_other)
    qed
    then show "wp (e1000_init_rx_desc b c x) (\<lambda>_. ?I (Suc x)) w'"
      using e by (simp add: e1000_init_rx_desc_def wp_simps e'_def)
  qed
  then show ?thesis
    by (rule wp_mono) (auto)
qed

lemma e1000_init_tx_knows:
  assumes hw: "dma_hw b (e_self c) E1000_SIZE e1000_own mem"
    and rx: "\<forall>i<8. mget (mem (env w)) (rx_desc_at i) 8 = le64 (e_field c (rx_buffer_at i))"
  shows "wp (for_each [0..<8] (e1000_init_tx_desc b c)) (\<lambda>_ w'.
    (\<exists>e. w' = w\<lparr>env := e\<rparr>) \<and> e1000_linked (e_self c) (mem (env w'))) w"
proof -
  note kw = dma_memory.kn_writes [OF e1000_dma [OF hw]]
  let ?I = "\<lambda>x w'. (\<exists>e. w' = w\<lparr>env := e\<rparr>) \<and>
    (\<forall>i<8. mget (mem (env w')) (rx_desc_at i) 8 = le64 (e_field c (rx_buffer_at i))) \<and>
    (\<forall>i<x. mget (mem (env w')) (tx_desc_at i) 8 = le64 (e_field c (tx_buffer_at i)))"
  have "wp (for_each [0..<8] (e1000_init_tx_desc b c)) (\<lambda>_. ?I 8) w"
  proof (rule wp_for_upt [where I = "?I"])
    show "?I 0 w" using rx by (auto intro!: exI [of _ "env w"])
  next
    fix x w'
    assume x: "x < 8" and I: "?I x w'"
    obtain e where e: "w' = w\<lparr>env := e\<rparr>" using I by auto
    define e' where "e' = bus_write8 b (e_field c (tx_desc_at x + 11)) 0
      (bus_write8 b (e_field c (tx_desc_at x + 12)) E1000_TXD_STAT_DD (bus_write64 b (e_field c (tx_desc_at x)) (e_field c (tx_buffer_at x)) e))"
    have kn: "knows e1000_own mem e' (mput (mput (mput (mem e) (tx_desc_at x) (le64 (e_field c (tx_buffer_at x))))
      (tx_desc_at x + 12) [E1000_TXD_STAT_DD]) (tx_desc_at x + 11) [0])"
      unfolding e'_def e_field_def using e1000_disjoint(6) [OF x]
      by (intro kw knows_refl) simp_all
    have rx': "mget (mem e') (rx_desc_at i) 8 = le64 (e_field c (rx_buffer_at i))" if i: "i < 8" for i
      using knows_mget [OF kn e1000_own_parts(1) [OF i]] e1000_disjoint(1) [OF i x] I e i by (simp add: mget_mput_other)
    have "mget (mem e') (tx_desc_at i) 8 = le64 (e_field c (tx_buffer_at i))" if i: "i < Suc x" for i
    proof (cases "i = x")
      case True
      then show ?thesis
        using knows_mget [OF kn e1000_own_parts(2) [OF x]] by (simp add: mget_mput_other)
    next
      case False
      then have lt: "i < x" "i < 8" using i x by auto
      then have "mget (mem e) (tx_desc_at i) 8 = le64 (e_field c (tx_buffer_at i))"
        using I e by auto
      then show ?thesis
        using knows_mget [OF kn e1000_own_parts(2) [OF lt(2)]] e1000_disjoint(4) [OF lt(1)] by (simp add: mget_mput_other)
    qed
    then show "wp (e1000_init_tx_desc b c x) (\<lambda>_. ?I (Suc x)) w'"
      using e rx' by (simp add: e1000_init_tx_desc_def wp_simps e'_def)
  qed
  then show ?thesis
    by (rule wp_mono) (auto simp: e1000_linked_def e_field_def)
qed

lemma e1000_reg_write:
  assumes "dma_hw b (e_self c) E1000_SIZE e1000_own mem" "e1000_regs_apart (e_self c) (e_mmio_base c)" "unat r < 0x6000"
    "dma_at e1000_own mem w m w'"
  shows "wp (e1000_write32 b c r v) (\<lambda>_. dma_at e1000_own mem w m) w'"
  unfolding e1000_write32_def
  using assms(1,3,4) assms(2) [unfolded e1000_regs_apart_def, rule_format, of r]
  by (intro dma_memory.at_outside(3) [OF e1000_dma])

lemma e1000_reg_read:
  assumes "dma_hw b (e_self c) E1000_SIZE e1000_own mem" "dma_at e1000_own mem w m w'"
  shows "wp (e1000_read32 b c r) (\<lambda>_. dma_at e1000_own mem w m) w'"
  unfolding e1000_read32_def using assms by (intro dma_view.at_reads(3) [OF dma_memory_view [OF e1000_dma]])

lemma e1000_rings_linked:
  assumes hw: "dma_hw b (e_self c) E1000_SIZE e1000_own mem" and ap: "e1000_regs_apart (e_self c) (e_mmio_base c)"
  shows "wp (e1000_rings b c) (\<lambda>_ w'. (\<exists>e. w' = w\<lparr>env := e\<rparr>) \<and> e1000_linked (e_self c) (mem (env w'))) w"
proof -
  note wr = wp_seq [OF e1000_reg_write [OF hw ap _ dma_at_refl]] and rd = wp_seq [OF e1000_reg_read [OF hw]]
    and wr' = wp_seq [OF e1000_reg_write [OF hw ap]] and last = e1000_reg_write [OF hw ap]
  show ?thesis
    unfolding e1000_rings_def e1000_sizes
    apply (rule wp_seq [OF e1000_init_rx_knows [OF hw]])
    apply (rule wr, simp add: e1000_reg_defs)
    apply (rule wr', simp add: e1000_reg_defs, assumption)+
    apply (rule rd, assumption)
    apply (rule wr', simp add: e1000_reg_defs, assumption)
    apply (rule wp_seq [OF e1000_init_tx_knows [OF hw]])
    subgoal for a w1 by (auto dest!: dma_at_knows simp: knows_mget e1000_own_parts)
    apply (rule wr, simp add: e1000_reg_defs)
    apply (rule wr', simp add: e1000_reg_defs, assumption)+
    apply (rule wp_mono, rule last, simp add: e1000_reg_defs, assumption)
    apply (auto simp: e1000_linked_knows dma_at_def)
    done
qed

lemma wp_read_mac:
  "wp (e1000_read_mac_address b c) (\<lambda>c' w'. (\<exists>e. w' = w\<lparr>env := e\<rparr>) \<and>
     (\<exists>mac. length mac = 6 \<and> c' = c\<lparr>e_mac_addr := mac\<rparr>)) w"
proof (cases "e_mmio_base c = 0")
  case True
  then show ?thesis
    by (auto simp: e1000_read_mac_address_def wp_simps intro!: exI [of _ "replicate 6 0"] exI [of _ "env w"])
next
  case False
  then show ?thesis
    unfolding e1000_read_mac_address_def e1000_read32_def
    by (simp add: wp_simps) (rule exI, rule conjI [rotated], rule refl, simp)
qed

text \<open>
  The initialisation of a context always succeeds, and its last two accesses enable the transmitter and then the
  receiver. At that moment every descriptor of both rings holds the address of its own buffer and the ring indices
  are 0; the context is well-formed, initialised and refers to the registers of the device.
\<close>

theorem e1000_init_ready:
  assumes hw: "dma_hw b (e_self c) E1000_SIZE e1000_own mem" and ap: "e1000_regs_apart (e_self c) (reg_base d)"
  shows "wp (e1000_init_context b (Some c) (Some d)) (\<lambda>(r, c') w'. r = 0 \<and>
    (\<exists>c1. c' = Some c1 \<and> e1000_wf c1 \<and> e_initialized c1 \<and> rx_current c1 = 0 \<and> tx_current c1 = 0 \<and>
       e_self c1 = e_self c \<and> e_mmio_base c1 = reg_base d) \<and>
    (\<exists>e. env w' = bus_write32 b (reg_base d + ucast E1000_RCTL) e1000_rctl
         (bus_write32 b (reg_base d + ucast E1000_TCTL) e1000_tctl e) \<and> e1000_linked (e_self c) (mem e))) w"
proof -
  obtain tag lg where tl: "static_tag ''e1000'' (e1000_log w) (logger w) = (tag, lg)" by fastforce
  have step: "wp (do { e1000_rings b c1; e1000_write32 b c1 E1000_TCTL e1000_tctl; e1000_write32 b c1 E1000_RCTL e1000_rctl;
      print t; State_Monad.return (0, Some (c1\<lparr>e_initialized := True\<rparr>)) }) (\<lambda>(r, c') w'. r = 0 \<and>
    (\<exists>c1. c' = Some c1 \<and> e1000_wf c1 \<and> e_initialized c1 \<and> rx_current c1 = 0 \<and> tx_current c1 = 0 \<and>
       e_self c1 = e_self c \<and> e_mmio_base c1 = reg_base d) \<and>
    (\<exists>e. env w' = bus_write32 b (reg_base d + ucast E1000_RCTL) e1000_rctl
         (bus_write32 b (reg_base d + ucast E1000_TCTL) e1000_tctl e) \<and> e1000_linked (e_self c) (mem e))) w1"
    if "e_self c1 = e_self c" "e_mmio_base c1 = reg_base d" "rx_current c1 = 0" "tx_current c1 = 0" "length (e_mac_addr c1) = 6"
    for c1 t w1
    using that hw ap
    by (intro wp_seq [OF e1000_rings_linked [where mem = mem]])
       (auto simp: wp_simps e1000_write32_def e1000_wf_def e1000_sizes)
  show ?thesis
    unfolding e1000_init_context_def
    apply (simp add: wp_simps tl e1000_read32_def [of b _ E1000_CTRL] e1000_write32_def [of b _ E1000_CTRL])
    apply (rule wp_mono [OF wp_read_mac])
    apply (auto simp flip: wp_bind intro!: step)
    done
qed

section \<open>Any hardware\<close>

lemma wp_e1000_receive_any:
  assumes "e1000_wf c"
  shows "wp (e1000_receive b (Some c) buffer n len) (\<lambda>(r, c') _.
    (\<exists>i. unat i < E1000_NUM_RX_DESC \<and> c' = Some (c\<lparr>rx_current := i\<rparr>)) \<and> (\<forall>bs. r = Some bs \<longrightarrow> length bs \<le> n)) w"
proof -
  define P where "P c' \<longleftrightarrow> (\<exists>i. unat i < E1000_NUM_RX_DESC \<and> c' = Some (c\<lparr>rx_current := i\<rparr>))" for c'
  have stay: "P (Some c)"
    unfolding P_def using assms by (intro exI [of _ "rx_current c"]) (simp add: e1000_wf_def)
  have move: "P (Some (c\<lparr>rx_current := next_index (rx_current c) E1000_NUM_RX_DESC\<rparr>))"
    unfolding P_def by (intro exI [of _ "next_index (rx_current c) E1000_NUM_RX_DESC"]) (simp add: next_index_less e1000_sizes)
  show ?thesis
    unfolding e1000_receive_def P_def [symmetric]
    by (auto simp: wp_simps Let_def e1000_write32_def stay move intro!: wp_mono [OF wp_copy_out_length])
qed

lemma wp_e1000_transmit_any:
  assumes "e1000_wf c"
  shows "wp (e1000_transmit b (Some c) packet) (\<lambda>(r, c') _. \<exists>i. unat i < E1000_NUM_TX_DESC \<and> c' = Some (c\<lparr>tx_current := i\<rparr>)) w"
proof -
  define P where "P c' \<longleftrightarrow> (\<exists>i. unat i < E1000_NUM_TX_DESC \<and> c' = Some (c\<lparr>tx_current := i\<rparr>))" for c'
  have stay: "P (Some c)"
    unfolding P_def using assms by (intro exI [of _ "tx_current c"]) (simp add: e1000_wf_def)
  have move: "P (Some (c\<lparr>tx_current := next_index (tx_current c) E1000_NUM_TX_DESC\<rparr>))"
    unfolding P_def by (intro exI [of _ "next_index (tx_current c) E1000_NUM_TX_DESC"]) (simp add: next_index_less e1000_sizes)
  show ?thesis
    unfolding e1000_transmit_def P_def [symmetric]
    by (cases packet) (simp_all add: wp_simps Let_def e1000_write32_def stay move wp_True)
qed

lemma wp_e1000_init_any:
  "wp (e1000_init_context b (Some c) (Some d)) (\<lambda>(r, c') _. \<exists>c1. c' = Some c1 \<and> e1000_wf c1) w"
proof -
  obtain tag lg where tl: "static_tag ''e1000'' (e1000_log w) (logger w) = (tag, lg)" by fastforce
  show ?thesis
    unfolding e1000_init_context_def
    apply (simp add: wp_simps tl e1000_write32_def e1000_read32_def [of b _ E1000_CTRL])
    apply (rule wp_mono [OF wp_read_mac])
    apply (clarsimp simp: e1000_wf_def e1000_sizes)
    apply (rule wp_True, simp add: wp_simps)
    done
qed

section \<open>Reception\<close>

text \<open>A done descriptor and its buffer belong to the driver until it has handed them back.\<close>

definition e1000_rx_part :: "nat \<Rightarrow> nat set" where
  "e1000_rx_part i = {rx_desc_at i + 8..<rx_desc_at i + 13} \<union> {rx_buffer_at i..<rx_buffer_at i + 2048}"

text \<open>
  C26: On a done descriptor a receive returns the bytes of its buffer, as many as the device says, when the
  descriptor ends a packet that fits the caller's buffer; otherwise it drops the packet. In both cases it clears the
  status and moves on by one, modulo the ring; only on success is the descriptor handed back to the device by
  the write of the tail register, which is then the last access. On a descriptor that is not done nothing changes.
\<close>

theorem e1000_receive_delivers:
  assumes hw: "dma_hw b (e_self c) E1000_SIZE own mem" and own: "e1000_rx_part (unat (rx_current c)) \<subseteq> own"
    and wf: "e1000_wf c" and init: "e_initialized c"
    and len: "le16 len = mget (mem (env w)) (rx_desc_at (unat (rx_current c)) + 8) 2" "unat len \<le> E1000_RX_BUFFER_SIZE"
  shows "wp (e1000_receive b (Some c) True n True) (\<lambda>(r, c') w'.
    let i = unat (rx_current c); st = mem (env w) (rx_desc_at i + 12) in
    if st AND E1000_RXD_STAT_DD = 0 then r = None \<and> c' = Some c \<and> knows own mem (env w') (mem (env w))
    else c' = Some (c\<lparr>rx_current := word_of_nat ((i + 1) mod 8)\<rparr>) \<and>
      (if st AND E1000_RXD_STAT_EOP = 0 \<or> unat len > n
       then r = None \<and> knows own mem (env w') (mput (mem (env w)) (rx_desc_at i + 12) [0])
       else r = Some (mget (mem (env w)) (rx_buffer_at i) (unat len)) \<and>
         (\<exists>e. env w' = bus_write32 b (e_mmio_base c + ucast E1000_RDT) (word_of_nat i) e \<and>
            knows own mem e (mput (mem (env w)) (rx_desc_at i + 12) [0])))) w"
proof -
  have dm: "dma_memory b (e_self c) E1000_SIZE own mem" using hw by (simp add: dma_memory_def)
  let ?i = "unat (rx_current c)" and ?m = "mem (env w)"
  have i: "?i < 8" using wf by (simp add: e1000_wf_def e1000_sizes)
  have parts: "rx_desc_at ?i + 12 \<in> own" "{rx_desc_at ?i + 8..<rx_desc_at ?i + 8 + 2} \<subseteq> own"
    "{rx_buffer_at ?i..<rx_buffer_at ?i + unat len} \<subseteq> own" "rx_desc_at ?i + 12 + 1 \<le> E1000_SIZE"
    using own len(2) e1000_disjoint(5) [OF i] by (auto simp: e1000_rx_part_def e1000_sizes)
  note rd8 = wp_mono [OF dma_view.at_read8 [OF dma_memory_view [OF dm] _ parts(1)]] and rd16 = wp_mono [OF dma_view.at_read16 [OF dma_memory_view [OF dm] _ parts(2)]]
    and wr8 = wp_mono [OF dma_memory.at_writes(1) [OF dm _ parts(4)]]
    and cpy = wp_mono [OF dma_view.at_copy_out [OF dma_memory_view [OF dm] _ parts(3)]]
  have nx: "next_index (rx_current c) E1000_NUM_RX_DESC = word_of_nat ((?i + 1) mod 8)"
    by (simp add: next_index_def e1000_sizes)
  have rdt: "ucast (rx_current c) = (word_of_nat ?i :: u32)" by simp
  have l16: "v = len" if "le16 v = mget ?m (rx_desc_at ?i + 8) 2" for v
    using that len(1) le16_inj [of v len] by simp
  show ?thesis
    using init unfolding e1000_receive_def e_field_def Let_def
    apply (simp only: option.case if_True if_False not_True_eq_False simp_thms wp_bind wp_if nx rdt)
    apply (rule rd8, rule dma_at_refl)
    apply (elim conjE)
    apply (cases "?m (rx_desc_at ?i + 12) AND E1000_RXD_STAT_DD = 0")
    subgoal by (auto simp: wp_simps dest: dma_at_knows)
    apply (simp only: wp_if if_False wp_bind)
    apply (rule rd8, assumption)
    apply (elim conjE)
    apply (cases "?m (rx_desc_at ?i + 12) AND E1000_RXD_STAT_EOP = 0")
    subgoal
      apply (simp only: wp_if if_True simp_thms wp_bind)
      apply (rule wr8, assumption)
      apply (auto simp: wp_simps dest: dma_at_knows)
      done
    apply (simp only: wp_if if_False wp_bind simp_thms)
    apply (rule rd16, assumption)
    apply (elim conjE, drule l16, hypsubst)
    apply (cases "n < unat len")
    subgoal
      apply (simp only: wp_if if_True simp_thms wp_bind)
      apply (rule wr8, assumption)
      apply (auto simp: wp_simps dest: dma_at_knows)
      done
    apply (simp only: wp_if if_False wp_bind simp_thms)
    apply (rule cpy, assumption)
    apply (elim conjE, hypsubst)
    apply (rule wr8, assumption)
    apply (auto simp: wp_simps e1000_write32_def dest: dma_at_knows)
    done
qed

text \<open>
  C27: Whatever the hardware answers, a well-formed context stays well-formed: initialisation makes one, and a receive
  or a transmit changes only the index of its own ring, to an index of the ring. A receive never stores more bytes
  than the caller's buffer holds, and before initialisation both do nothing and fail.
\<close>

theorem e1000_context_type:
  "(\<forall>d. wp (e1000_init_context b (Some c) (Some d)) (\<lambda>(r, c') _. \<exists>c1. c' = Some c1 \<and> e1000_wf c1) w) \<and>
   (e1000_wf c \<longrightarrow>
     wp (e1000_receive b (Some c) buffer n len) (\<lambda>(r, c') _.
       (\<exists>i. unat i < E1000_NUM_RX_DESC \<and> c' = Some (c\<lparr>rx_current := i\<rparr>)) \<and> (\<forall>bs. r = Some bs \<longrightarrow> length bs \<le> n)) w \<and>
     wp (e1000_transmit b (Some c) packet) (\<lambda>(r, c') _.
       \<exists>i. unat i < E1000_NUM_TX_DESC \<and> c' = Some (c\<lparr>tx_current := i\<rparr>)) w) \<and>
   (\<not> e_initialized c \<longrightarrow>
     run_state (e1000_receive b (Some c) buffer n len) w = ((None, Some c), w) \<and>
     run_state (e1000_transmit b (Some c) packet) w = ((-1, Some c), w))"
proof (intro conjI allI impI)
  show "wp (e1000_init_context b (Some c) (Some d)) (\<lambda>(r, c') _. \<exists>c1. c' = Some c1 \<and> e1000_wf c1) w" for d
    by (rule wp_e1000_init_any)
  assume "\<not> e_initialized c"
  then show "run_state (e1000_receive b (Some c) buffer n len) w = ((None, Some c), w)"
    and "run_state (e1000_transmit b (Some c) packet) w = ((-1, Some c), w)"
    by (auto simp: e1000_receive_def e1000_transmit_def split: option.split)
qed (rule wp_e1000_receive_any wp_e1000_transmit_any; assumption)+

section \<open>A machine\<close>

text \<open>The contract on plain memory, and a context whose rings are linked and done.\<close>

lemma e1000_own_inside: "e1000_own \<subseteq> {..<E1000_SIZE}"
  using e1000_disjoint by (fastforce simp: e1000_own_def)

interpretation e1000_ram: dma_memory "ram_bus base E1000_SIZE" base E1000_SIZE e1000_own "\<lambda>m. m" for base
  by (rule dma_memory.intro, rule ram_bus_dma) (simp add: E1000_SIZE_def, rule e1000_own_inside)

definition e1000_image :: "u64 \<Rightarrow> cmem" where
  "e1000_image self k = (
     if 16 \<le> k \<and> (k - 16) div 16 < 8 \<and> (k - 16) mod 16 < 8
     then le64 (self + word_of_nat (rx_buffer_at ((k - 16) div 16))) ! ((k - 16) mod 16)
     else if 16544 \<le> k \<and> (k - 16544) div 16 < 8 \<and> (k - 16544) mod 16 < 8
     then le64 (self + word_of_nat (tx_buffer_at ((k - 16544) div 16))) ! ((k - 16544) mod 16)
     else 3)"

lemma e1000_image_linked: "e1000_linked self (e1000_image self)"
  unfolding e1000_linked_def
proof (intro allI impI conjI)
  fix i :: nat assume i: "i < 8"
  show "mget (e1000_image self) (rx_desc_at i) 8 = le64 (self + word_of_nat (rx_buffer_at i))"
    using i by (intro nth_equalityI) (auto simp: nth_mget e1000_image_def rx_desc_at_def)
  show "mget (e1000_image self) (tx_desc_at i) 8 = le64 (self + word_of_nat (tx_buffer_at i))"
    using i by (intro nth_equalityI) (auto simp: nth_mget e1000_image_def tx_desc_at_def)
qed

definition sample_e1000 :: e1000 where
  "sample_e1000 = \<lparr>e_self = 0x1000000, e_mmio_base = 0xFEB00000, e_initialized = True, e_mac_addr = [2, 0, 0, 0, 0, 1],
     rx_current = 7, tx_current = 7\<rparr>"

definition sample_net_world :: "'e \<Rightarrow> 'e net_world" where
  "sample_net_world e = \<lparr>env = e, console = [], logger = log_boot, e1000_log = None, rtl_log = None, vnet_log = None, debug_count = 0\<rparr>"

abbreviation sample_e1000_world :: "cmem net_world" where
  "sample_e1000_world \<equiv> sample_net_world (e1000_image 0x1000000)"

abbreviation sample_e1000_bus :: "cmem bus" where
  "sample_e1000_bus \<equiv> ram_bus 0x1000000 E1000_SIZE"

lemma sample_e1000_wf: "e1000_wf sample_e1000"
  by (simp add: e1000_wf_def sample_e1000_def e1000_sizes)

lemma sample_e1000_apart: "e1000_regs_apart 0x1000000 0xFEB00000"
  unfolding e1000_regs_apart_def
proof (intro allI impI)
  fix r :: u32 assume r: "unat r < 0x6000"
  have "unat (ucast r :: u64) = unat r" by (rule unat_ucast_up) simp
  then have "unat (0xFEB00000 + ucast r :: u64) = 0xFEB00000 + unat r"
    using r unat_add64 [of "0xFEB00000" "ucast r"] by simp
  then show "outside 0x1000000 E1000_SIZE (0xFEB00000 + ucast r)"
    by (intro outside_apart) (simp_all add: E1000_SIZE_def)
qed

theorem e1000_transmit_posts_witness:
  "wp (e1000_transmit sample_e1000_bus (Some sample_e1000) (Some [1, 2, 3])) (\<lambda>(r, c') w'.
     r = 0 \<and> c' = Some (sample_e1000\<lparr>tx_current := 0\<rparr>) \<and>
     (\<exists>e. env w' = bus_write32 sample_e1000_bus (0xFEB00000 + ucast E1000_TDT) 0 e \<and>
        e1000_posted 0x1000000 7 [1, 2, 3] e)) sample_e1000_world"
proof -
  have dd: "fst (bus_read8 sample_e1000_bus (e_field sample_e1000 (tx_desc_at 7 + 12)) (e1000_image 0x1000000)) AND E1000_TXD_STAT_DD \<noteq> 0"
    by (simp add: ram_bus_def idle_bus_def e_field_def sample_e1000_def tx_desc_at_def e1000_image_def E1000_TXD_STAT_DD_def)
  show ?thesis
    by (rule wp_mono [OF e1000_transmit_posts [of sample_e1000_bus sample_e1000 "\<lambda>m. m" sample_e1000_world "[1, 2, 3]"]])
       (use dd e1000_ram.hw sample_e1000_wf e1000_image_linked in \<open>auto simp: sample_net_world_def e1000_sizes sample_e1000_def\<close>)
qed

definition sample_nic :: device where
  "sample_nic = \<lparr>dev_compatible = None, dev_name = None, reg_base = 0xFEB00000, reg_size = 0, vendor_id = 0x8086,
     device_id = 0x100E, dev_bus = 0, device_num = 3, dev_function = 0, dev_driver = None, dev_state = DEVICE_STATE_DISCOVERED,
     mmio_virt = 0, driver_data = 0, dev_parent = None, first_child = None, next_sibling = None, dev_depth = 0,
     dev_next = None\<rparr>"

theorem e1000_init_ready_witness:
  "wp (e1000_init_context sample_e1000_bus (Some sample_e1000) (Some sample_nic))
     (\<lambda>(r, c') w'. r = 0 \<and> (\<exists>e. env w' = bus_write32 sample_e1000_bus (0xFEB00000 + ucast E1000_RCTL) e1000_rctl
        (bus_write32 sample_e1000_bus (0xFEB00000 + ucast E1000_TCTL) e1000_tctl e) \<and> e1000_linked 0x1000000 e)) sample_e1000_world"
  by (rule wp_mono [OF e1000_init_ready [of sample_e1000_bus sample_e1000 "\<lambda>m. m"]])
     (use e1000_ram.hw sample_e1000_apart in \<open>auto simp: sample_e1000_def sample_nic_def\<close>)

theorem e1000_receive_delivers_witness:
  "wp (e1000_receive sample_e1000_bus (Some sample_e1000) True 2048 True)
     (\<lambda>(r, c') w'. r = Some (replicate 771 3) \<and> c' = Some (sample_e1000\<lparr>rx_current := 0\<rparr>)) sample_e1000_world"
proof -
  have own: "e1000_rx_part 7 \<subseteq> {..<E1000_SIZE}"
    by (auto simp: e1000_rx_part_def e1000_layout)
  have hw: "dma_hw sample_e1000_bus 0x1000000 E1000_SIZE (e1000_rx_part 7) (\<lambda>m. m)"
    using own by (intro ram_bus_dma) (simp_all add: E1000_SIZE_def)
  have img: "e1000_image 0x1000000 k = 3" if "rx_desc_at 7 + 8 \<le> k" "k < tx_desc_at 0" for k
  proof -
    have "\<not> ((k - 16) div 16 < 8 \<and> (k - 16) mod 16 < 8)"
    proof
      assume a: "(k - 16) div 16 < 8 \<and> (k - 16) mod 16 < 8"
      have "k - 16 = (k - 16) div 16 * 16 + (k - 16) mod 16" by (rule div_mult_mod_eq [symmetric])
      moreover have "120 \<le> k - 16" using that by (simp add: rx_desc_at_def)
      ultimately show False using a by linarith
    qed
    then show ?thesis using that by (auto simp: e1000_image_def tx_desc_at_def)
  qed
  have buf: "mget (e1000_image 0x1000000) (rx_buffer_at 7) 771 = replicate 771 3"
    by (rule nth_equalityI) (simp_all add: nth_mget img e1000_layout)
  have len: "le16 771 = mget (e1000_image 0x1000000) (rx_desc_at 7 + 8) 2"
    by (simp add: le16_def mget_def upt_rec img e1000_layout)
  have st: "e1000_image 0x1000000 (rx_desc_at 7 + 12) = 3"
    by (simp add: img e1000_layout)
  show ?thesis
    by (rule wp_mono [OF e1000_receive_delivers [of sample_e1000_bus sample_e1000 "e1000_rx_part 7" "\<lambda>m. m" 771]])
       (use hw sample_e1000_wf len st buf in \<open>auto simp: sample_e1000_def sample_net_world_def e1000_sizes Let_def
          E1000_RXD_STAT_DD_def E1000_RXD_STAT_EOP_def\<close>)
qed

theorem e1000_context_type_witness:
  "wp (e1000_receive sample_e1000_bus (Some sample_e1000) True 100 True) (\<lambda>(r, c') _. \<forall>bs. r = Some bs \<longrightarrow> length bs \<le> 100)
     sample_e1000_world"
  using e1000_context_type [of sample_e1000_bus sample_e1000 sample_e1000_world True 100 True None] sample_e1000_wf
  by (auto elim!: wp_mono)

end
