(* ===== verification/Rtl8139.thy ===== *)
theory Rtl8139
  imports Dma_Memory Resources
begin

text \<open>
  The Realtek 8139 driver, \<^verbatim>\<open>drivers/rtl8139/rtl8139.h\<close> and \<^verbatim>\<open>drivers/rtl8139/rtl8139.c\<close>. As in the other drivers
  the record holds the private fields of the context and its address; the receive ring and the transmit buffer are
  memory shared with the device. The argument \<open>a\<close> is the target of the build: port access exists on AMD64 only.
\<close>

section \<open>Constants and layout\<close>

definition RTL8139_MAC0 :: u32 where "RTL8139_MAC0 = 0x00"
definition RTL8139_MAR0 :: u32 where "RTL8139_MAR0 = 0x08"
definition RTL8139_TXSTATUS0 :: u32 where "RTL8139_TXSTATUS0 = 0x10"
definition RTL8139_TXADDR0 :: u32 where "RTL8139_TXADDR0 = 0x20"
definition RTL8139_RXBUF :: u32 where "RTL8139_RXBUF = 0x30"
definition RTL8139_CMD :: u32 where "RTL8139_CMD = 0x37"
definition RTL8139_CAPR :: u32 where "RTL8139_CAPR = 0x38"
definition RTL8139_IMR :: u32 where "RTL8139_IMR = 0x3C"
definition RTL8139_ISR :: u32 where "RTL8139_ISR = 0x3E"
definition RTL8139_TCR :: u32 where "RTL8139_TCR = 0x40"
definition RTL8139_RCR :: u32 where "RTL8139_RCR = 0x44"
definition RTL8139_CONFIG1 :: u32 where "RTL8139_CONFIG1 = 0x52"

definition RTL8139_CMD_RST :: u8 where "RTL8139_CMD_RST = push_bit 4 1"
definition RTL8139_CMD_RE :: u8 where "RTL8139_CMD_RE = push_bit 3 1"
definition RTL8139_CMD_TE :: u8 where "RTL8139_CMD_TE = push_bit 2 1"
definition RTL8139_INT_RXOK :: u16 where "RTL8139_INT_RXOK = push_bit 0 1"
definition RTL8139_INT_RXERR :: u16 where "RTL8139_INT_RXERR = push_bit 1 1"
definition RTL8139_RCR_AAP :: u32 where "RTL8139_RCR_AAP = push_bit 0 1"
definition RTL8139_RCR_APM :: u32 where "RTL8139_RCR_APM = push_bit 1 1"
definition RTL8139_RCR_AM :: u32 where "RTL8139_RCR_AM = push_bit 2 1"
definition RTL8139_RCR_AB :: u32 where "RTL8139_RCR_AB = push_bit 3 1"
definition RTL8139_RCR_WRAP :: u32 where "RTL8139_RCR_WRAP = push_bit 7 1"
definition RTL8139_RCR_RBLEN_8K :: u32 where "RTL8139_RCR_RBLEN_8K = push_bit 11 0"
definition RTL8139_TCR_IFG_STD :: u32 where "RTL8139_TCR_IFG_STD = push_bit 24 3"

record rtl8139 =
  rtl_self :: u64
  rtl_mmio_base :: u64
  rtl_initialized :: bool
  rtl_use_mmio :: bool
  rtl_mac_addr :: "u8 list"
  rtl_tx_current :: u8

text \<open>Offsets in \<^verbatim>\<open>rtl8139_t\<close>; the field \<^verbatim>\<open>rx_offset\<close> is never used.\<close>

definition rtl_rx_buffer_at :: nat where "rtl_rx_buffer_at = 32"
definition rtl_tx_buffer_at :: nat where "rtl_tx_buffer_at = 9784"
definition RTL8139_SIZE :: nat where "RTL8139_SIZE = 11840"

definition rtl8139_id_table :: "id_entry list" where
  "rtl8139_id_table =
     [\<lparr>id_compatible = None, id_vendor = 0x10EC, id_device = 0x8139, id_name = ''Realtek RTL8139 Fast Ethernet''\<rparr>,
      \<lparr>id_compatible = None, id_vendor = 0, id_device = 0, id_name = ''''\<rparr>]"

section \<open>Register access\<close>

definition rtl_port :: "rtl8139 \<Rightarrow> u32 \<Rightarrow> u16" where
  "rtl_port c offset = ucast (ucast (ucast (rtl_mmio_base c) :: u16) + offset)"

definition rtl8139_read8 :: "arch \<Rightarrow> 'e bus \<Rightarrow> rtl8139 \<Rightarrow> u32 \<Rightarrow> (('e, 'z) world_scheme, u8) state" where
  "rtl8139_read8 a b c offset =
     (if rtl_use_mmio c then mem_read8 b (rtl_mmio_base c + ucast offset)
      else if a = AMD64 then io_inb b (rtl_port c offset) else State_Monad.return 0)"


definition rtl8139_read32 :: "arch \<Rightarrow> 'e bus \<Rightarrow> rtl8139 \<Rightarrow> u32 \<Rightarrow> (('e, 'z) world_scheme, u32) state" where
  "rtl8139_read32 a b c offset =
     (if rtl_use_mmio c then mem_read32 b (rtl_mmio_base c + ucast (offset div 4) * 4)
      else if a = AMD64 then io_inl b (rtl_port c offset) else State_Monad.return 0)"

definition rtl8139_write8 :: "arch \<Rightarrow> 'e bus \<Rightarrow> rtl8139 \<Rightarrow> u32 \<Rightarrow> u8 \<Rightarrow> (('e, 'z) world_scheme, unit) state" where
  "rtl8139_write8 a b c offset v =
     (if rtl_use_mmio c then mem_write8 b (rtl_mmio_base c + ucast offset) v
      else if a = AMD64 then io_outb b (rtl_port c offset) v else State_Monad.return ())"

definition rtl8139_write16 :: "arch \<Rightarrow> 'e bus \<Rightarrow> rtl8139 \<Rightarrow> u32 \<Rightarrow> u16 \<Rightarrow> (('e, 'z) world_scheme, unit) state" where
  "rtl8139_write16 a b c offset v =
     (if rtl_use_mmio c then mem_write16 b (rtl_mmio_base c + ucast (offset div 2) * 2) v
      else if a = AMD64 then io_outw b (rtl_port c offset) v else State_Monad.return ())"

definition rtl8139_write32 :: "arch \<Rightarrow> 'e bus \<Rightarrow> rtl8139 \<Rightarrow> u32 \<Rightarrow> u32 \<Rightarrow> (('e, 'z) world_scheme, unit) state" where
  "rtl8139_write32 a b c offset v =
     (if rtl_use_mmio c then mem_write32 b (rtl_mmio_base c + ucast (offset div 4) * 4) v
      else if a = AMD64 then io_outl b (rtl_port c offset) v else State_Monad.return ())"

definition read_mac_address :: "arch \<Rightarrow> 'e bus \<Rightarrow> rtl8139 \<Rightarrow> (('e, 'z) world_scheme, rtl8139) state" where
  "read_mac_address a b c = for_fold [0..<6] (\<lambda>i c. do {
     v \<leftarrow> rtl8139_read8 a b c (RTL8139_MAC0 + word_of_nat i);
     State_Monad.return (c\<lparr>rtl_mac_addr := (rtl_mac_addr c)[i := v]\<rparr>) }) c"

definition enable_bus_master :: "'e bus \<Rightarrow> u8 \<Rightarrow> u8 \<Rightarrow> u8 \<Rightarrow> (('e, 'z) world_scheme, unit) state" where
  "enable_bus_master b bus device fn = do {
     io_outl b 0xCF8 (0x80000000 OR push_bit 16 (ucast bus) OR push_bit 11 (ucast device) OR push_bit 8 (ucast fn) OR 0x04);
     cmd \<leftarrow> io_inl b 0xCFC;
     (if cmd AND 0x04 = 0 then io_outl b 0xCFC (cmd OR 0x04) else State_Monad.return ()) }"

section \<open>Initialisation\<close>

text \<open>
  \<^verbatim>\<open>while ((rtl8139_read8(rtl_ctx, RTL8139_CMD) & RTL8139_CMD_RST) != 0);\<close> has no bound: \<open>None\<close> is a loop that never ends.
\<close>

partial_function (option) rtl8139_wait_reset :: "('w \<Rightarrow> u8 \<times> 'w) \<Rightarrow> 'w \<Rightarrow> 'w option" where
  "rtl8139_wait_reset rd w =
     (if fst (rd w) AND RTL8139_CMD_RST \<noteq> 0 then rtl8139_wait_reset rd (snd (rd w)) else Some (snd (rd w)))"

declare rtl8139_wait_reset.simps [code]

definition rtl8139_init_start :: "arch \<Rightarrow> 'e bus \<Rightarrow> rtl8139 \<Rightarrow> device \<Rightarrow> (('e, 'z) net_world_scheme, rtl8139) state" where
  "rtl8139_init_start a b c d = do {
     tag \<leftarrow> gets rtl_log;
     lg \<leftarrow> gets logger;
     let (tag, lg) = static_tag ''rtl8139'' tag lg;
     modify (\<lambda>w. w\<lparr>logger := lg, rtl_log := tag\<rparr>);
     let c = c\<lparr>rtl_mmio_base := reg_base d, rtl_tx_current := 0, rtl_use_mmio := (reg_base d \<ge> 0x10000)\<rparr>;
     (if a = AMD64 \<and> \<not> rtl_use_mmio c then enable_bus_master b (dev_bus d) (device_num d) (dev_function d)
      else State_Monad.return ());
     c \<leftarrow> read_mac_address a b c;
     rtl8139_write8 a b c RTL8139_CONFIG1 0x00;
     rtl8139_write8 a b c RTL8139_CMD RTL8139_CMD_RST;
     State_Monad.return c }"

definition rtl8139_rcr :: u32 where
  "rtl8139_rcr = RTL8139_RCR_AAP OR RTL8139_RCR_APM OR RTL8139_RCR_AM OR RTL8139_RCR_AB OR RTL8139_RCR_WRAP OR
     RTL8139_RCR_RBLEN_8K OR push_bit 13 4 OR push_bit 8 4"

definition rtl8139_tcr :: u32 where
  "rtl8139_tcr = RTL8139_TCR_IFG_STD OR push_bit 8 4 OR 0x03000000"

definition rtl8139_init_finish :: "arch \<Rightarrow> 'e bus \<Rightarrow> rtl8139 \<Rightarrow> (('e, 'z) net_world_scheme, int \<times> rtl8139) state" where
  "rtl8139_init_finish a b c = do {
     for_each [0..<6] (\<lambda>i. rtl8139_write8 a b c (RTL8139_MAC0 + word_of_nat i) (rtl_mac_addr c ! i));
     rtl8139_write32 a b c RTL8139_MAR0 0xFFFFFFFF;
     rtl8139_write32 a b c (RTL8139_MAR0 + 4) 0xFFFFFFFF;
     rtl8139_write8 a b c RTL8139_CMD (RTL8139_CMD_RE OR RTL8139_CMD_TE);
     rtl8139_write32 a b c RTL8139_RCR rtl8139_rcr;
     rtl8139_write32 a b c RTL8139_TCR rtl8139_tcr;
     rtl8139_write32 a b c RTL8139_RXBUF (ucast (rtl_self c + word_of_nat rtl_rx_buffer_at));
     rtl8139_write16 a b c RTL8139_CAPR 0xFFF0;
     rtl8139_write32 a b c 0x4C 0;
     rtl8139_write8 a b c RTL8139_CMD (RTL8139_CMD_RE OR RTL8139_CMD_TE);
     rtl8139_write16 a b c RTL8139_ISR 0xFFFF;
     rtl8139_write16 a b c RTL8139_IMR (RTL8139_INT_RXOK OR RTL8139_INT_RXERR);
     tag \<leftarrow> gets rtl_log;
     lg \<leftarrow> gets logger;
     print (log_info (log_deref lg tag) (''Driver initialized successfully'' @ [CHR 0x0A]));
     State_Monad.return (0, c\<lparr>rtl_initialized := True\<rparr>) }"

definition rtl8139_init_context ::
  "arch \<Rightarrow> 'e bus \<Rightarrow> rtl8139 option \<Rightarrow> device option \<Rightarrow> ('e, 'z) net_world_scheme \<Rightarrow>
     ((int \<times> rtl8139 option) \<times> ('e, 'z) net_world_scheme) option" where
  "rtl8139_init_context a b ctx dev w = (case (ctx, dev) of
     (Some c, Some d) \<Rightarrow>
       (case run_state (rtl8139_init_start a b c d) w of (c, w) \<Rightarrow>
          do {
            w \<leftarrow> rtl8139_wait_reset (run_state (rtl8139_read8 a b c RTL8139_CMD)) w;
            (case run_state (rtl8139_init_finish a b c) w of ((r, c), w) \<Rightarrow> Some ((r, Some c), w)) })
   | _ \<Rightarrow> Some ((-1, ctx), w))"

definition rtl8139_deinit_context :: "rtl8139 option \<Rightarrow> rtl8139 option" where
  "rtl8139_deinit_context ctx = ctx"

section \<open>Operations\<close>

definition rtl8139_get_mac :: "rtl8139 option \<Rightarrow> bool \<Rightarrow> u8 list option" where
  "rtl8139_get_mac ctx mac = (case ctx of
     None \<Rightarrow> None
   | Some c \<Rightarrow> if \<not> mac then None else if \<not> rtl_initialized c then None else Some (rtl_mac_addr c))"



definition rtl8139_transmit ::
  "arch \<Rightarrow> 'e bus \<Rightarrow> rtl8139 option \<Rightarrow> u8 list option \<Rightarrow> (('e, 'z) world_scheme, int \<times> rtl8139 option) state" where
  "rtl8139_transmit a b ctx packet = (case (ctx, packet) of
     (Some c, Some pkt) \<Rightarrow>
       if \<not> rtl_initialized c \<or> length pkt > 2048 \<or> length pkt < 1 then State_Monad.return (-1, ctx)
       else do {
         let descriptor = rtl_tx_current c;
         copy_in b (rtl_self c) rtl_tx_buffer_at pkt;
         rtl8139_write32 a b c (RTL8139_TXADDR0 + ucast descriptor * 4) (ucast (rtl_self c + word_of_nat rtl_tx_buffer_at));
         rtl8139_write32 a b c (RTL8139_TXSTATUS0 + ucast descriptor * 4) (word_of_nat (length pkt));
         State_Monad.return (0, Some (c\<lparr>rtl_tx_current := word_of_nat ((unat (rtl_tx_current c) + 1) mod 4)\<rparr>)) }
   | _ \<Rightarrow> State_Monad.return (-1, ctx))"

section \<open>The reset\<close>

text \<open>The state after \<open>n\<close> reads of the command register.\<close>

fun after_reads :: "('w \<Rightarrow> u8 \<times> 'w) \<Rightarrow> nat \<Rightarrow> 'w \<Rightarrow> 'w" where
  "after_reads rd 0 w = w"
| "after_reads rd (Suc n) w = after_reads rd n (snd (rd w))"

lemma wait_reset_ends:
  "fst (rd (after_reads rd n w)) AND RTL8139_CMD_RST = 0 \<Longrightarrow>
   \<exists>k \<le> n. rtl8139_wait_reset rd w = Some (snd (rd (after_reads rd k w))) \<and> fst (rd (after_reads rd k w)) AND RTL8139_CMD_RST = 0"
proof (induction n arbitrary: w)
  case 0
  then show ?case by (simp add: rtl8139_wait_reset.simps)
next
  case (Suc n)
  show ?case
  proof (cases "fst (rd w) AND RTL8139_CMD_RST = 0")
    case True
    then show ?thesis by (intro exI [of _ 0]) (simp add: rtl8139_wait_reset.simps)
  next
    case False
    obtain k where "k \<le> n" "rtl8139_wait_reset rd (snd (rd w)) = Some (snd (rd (after_reads rd k (snd (rd w)))))"
      "fst (rd (after_reads rd k (snd (rd w)))) AND RTL8139_CMD_RST = 0"
      using Suc.IH [of "snd (rd w)"] Suc.prems by auto
    then show ?thesis
      using False by (intro exI [of _ "Suc k"]) (simp add: rtl8139_wait_reset.simps [of rd w])
  qed
qed

lemma wait_reset_cleared: "rtl8139_wait_reset rd w = Some w' \<Longrightarrow> \<exists>n. fst (rd (after_reads rd n w)) AND RTL8139_CMD_RST = 0"
proof (erule rtl8139_wait_reset.raw_induct [where P = "\<lambda>rd w _. \<exists>n. fst (rd (after_reads rd n w)) AND RTL8139_CMD_RST = 0", rotated], goal_cases)
  case (1 wait rd w w')
  show ?case
  proof (cases "fst (rd w) AND RTL8139_CMD_RST = 0")
    case True
    then show ?thesis by (intro exI [of _ 0]) simp
  next
    case False
    then have "wait rd (snd (rd w)) = Some w'" using 1(2) by simp
    then obtain n where "fst (rd (after_reads rd n (snd (rd w)))) AND RTL8139_CMD_RST = 0"
      using 1(1) by blast
    then show ?thesis by (intro exI [of _ "Suc n"]) simp
  qed
qed

text \<open>
  The initialisation returns exactly when the device clears the reset bit after finitely many reads of the command
  register; it then returns 0 with an initialised context. A device that keeps the bit set hangs the kernel: there
  is no time-out.
\<close>

theorem rtl8139_init_returns:
  "(\<exists>r. rtl8139_init_context a b (Some c) (Some d) w = Some r) \<longleftrightarrow>
     (\<exists>n. case run_state (rtl8139_init_start a b c d) w of (c1, w1) \<Rightarrow>
        fst (run_state (rtl8139_read8 a b c1 RTL8139_CMD) (after_reads (run_state (rtl8139_read8 a b c1 RTL8139_CMD)) n w1))
          AND RTL8139_CMD_RST = 0)"
  (is "?ret \<longleftrightarrow> ?clear")
proof -
  obtain c1 w1 where s: "run_state (rtl8139_init_start a b c d) w = (c1, w1)" by fastforce
  let ?rd = "run_state (rtl8139_read8 a b c1 RTL8139_CMD)"
  have "?ret \<longleftrightarrow> (\<exists>w2. rtl8139_wait_reset ?rd w1 = Some w2)"
    by (auto simp: rtl8139_init_context_def s case_prod_beta split: option.splits bind_splits)
  also have "\<dots> \<longleftrightarrow> ?clear"
    using wait_reset_cleared [of ?rd w1] wait_reset_ends [of ?rd _ w1] by (fastforce simp: s)
  finally show ?thesis .
qed

section \<open>Shared memory\<close>

definition rtl_apart :: "rtl8139 \<Rightarrow> bool" where
  "rtl_apart c \<longleftrightarrow> (rtl_use_mmio c \<longrightarrow> (\<forall>x. unat x < 256 \<longrightarrow> outside (rtl_self c) RTL8139_SIZE (rtl_mmio_base c + x)))"

lemma aligned_offset:
  assumes "unat (r :: u32) < 256" "k \<in> {2, 4}"
  shows "unat (ucast (r div k) * word_of_nat (unat k) :: u64) < 256"
proof -
  have "unat (ucast (r div k) :: u64) = unat r div unat k"
    using assms by (simp add: unat_ucast_up unat_div)
  moreover have "unat r div unat k * unat k \<le> unat r" by simp
  ultimately show ?thesis
    using assms by (auto simp: unat_mult_lem [THEN iffD1])
qed


lemma at_rtl_write32:
  assumes "dma_memory b (rtl_self c) RTL8139_SIZE own mem" "rtl_apart c" "unat r < 256" "dma_at own mem w m w'"
  shows "wp (rtl8139_write32 a b c r v) (\<lambda>_. dma_at own mem w m) w'"
  using assms dma_memory.at_outside(3,6) [OF assms(1,4)] aligned_offset [OF assms(3), of 4]
  by (auto simp: rtl8139_write32_def wp_simps rtl_apart_def)


section \<open>Transmission\<close>

lemma length_pos_ne: "1 \<le> length xs \<Longrightarrow> xs \<noteq> []"
  by auto

text \<open>
  C28: A packet of 1 to 2048 bytes is accepted by an initialised context, any other is refused without an access. The last
  access is the write of the length to the status register of the current descriptor; at that moment the transmit
  buffer holds the packet, and the driver's memory outside the transmit buffer is as before. The descriptors are used
  in turn.
\<close>

theorem rtl8139_transmit_posts:
  assumes hw: "dma_hw b (rtl_self c) RTL8139_SIZE own mem" and ap: "rtl_apart c" and tx: "unat (rtl_tx_current c) < 4"
    and own: "{rtl_tx_buffer_at..<rtl_tx_buffer_at + 2048} \<subseteq> own"
  shows "wp (rtl8139_transmit a b (Some c) (Some pkt)) (\<lambda>(r, c') w'.
    if rtl_initialized c \<and> 1 \<le> length pkt \<and> length pkt \<le> 2048
    then r = 0 \<and> c' = Some (c\<lparr>rtl_tx_current := word_of_nat ((unat (rtl_tx_current c) + 1) mod 4)\<rparr>) \<and>
      (\<exists>w1. w' = snd (run_state (rtl8139_write32 a b c (RTL8139_TXSTATUS0 + ucast (rtl_tx_current c) * 4) (word_of_nat (length pkt))) w1) \<and>
         mget (mem (env w1)) rtl_tx_buffer_at (length pkt) = pkt \<and>
         (\<forall>k \<in> own - {rtl_tx_buffer_at..<rtl_tx_buffer_at + length pkt}. mem (env w1) k = mem (env w) k))
    else r = -1 \<and> c' = Some c \<and> w' = w) w"
proof (cases "rtl_initialized c \<and> 1 \<le> length pkt \<and> length pkt \<le> 2048")
  case False
  then show ?thesis by (cases pkt) (auto simp: rtl8139_transmit_def wp_simps)
next
  case True
  have dm: "dma_memory b (rtl_self c) RTL8139_SIZE own mem" using hw by (simp add: dma_memory_def)
  have fit: "rtl_tx_buffer_at + length pkt \<le> RTL8139_SIZE" using True by (simp add: rtl_tx_buffer_at_def RTL8139_SIZE_def)
  have reg: "unat (RTL8139_TXADDR0 + ucast (rtl_tx_current c) * 4) < 256"
  proof -
    obtain n where n: "rtl_tx_current c = word_of_nat n" "n < 4"
      by (rule that [of "unat (rtl_tx_current c)"]) (simp_all add: tx)
    consider "n = 0" | "n = 1" | "n = 2" | "n = 3" using n(2) by linarith
    then show ?thesis by cases (simp_all add: n(1) RTL8139_TXADDR0_def)
  qed
  have post: "mget (mem (env w1)) rtl_tx_buffer_at (length pkt) = pkt \<and>
      (\<forall>k \<in> own - {rtl_tx_buffer_at..<rtl_tx_buffer_at + length pkt}. mem (env w1) k = mem (env w) k)"
    if "dma_at own mem w (mput (mem (env w)) rtl_tx_buffer_at pkt) w1" for w1
  proof -
    have kn: "knows own mem (env w1) (mput (mem (env w)) rtl_tx_buffer_at pkt)"
      using that by (rule dma_at_knows)
    moreover have "{rtl_tx_buffer_at..<rtl_tx_buffer_at + length pkt} \<subseteq> own" using own True by auto
    ultimately show ?thesis
      using knows_mget [OF kn] by (auto simp: knows_def mput_other)
  qed
  show ?thesis
    unfolding rtl8139_transmit_def using True True [THEN conjunct2, THEN conjunct1, THEN length_pos_ne]
    apply (simp add: not_less Let_def)
    apply (rule wp_seq [OF dma_memory.at_copy_in [OF dm dma_at_refl fit]])
    apply (rule wp_seq [OF at_rtl_write32 [OF dm ap reg]], assumption)
    apply (simp add: wp_bind)
    apply (simp add: wp_def)
    apply (use post in blast)
    done
qed

section \<open>Reception\<close>




section \<open>A machine\<close>

text \<open>A card behind ports, with one packet of four bytes in its ring at the initial read position.\<close>

definition sample_rtl :: rtl8139 where
  "sample_rtl = \<lparr>rtl_self = 0x1000000, rtl_mmio_base = 0xC000, rtl_initialized = True, rtl_use_mmio = False,
     rtl_mac_addr = [2, 0, 0, 0, 0, 2], rtl_tx_current = 3\<rparr>"

definition sample_rtl_mem :: cmem where
  "sample_rtl_mem = mput (\<lambda>_. 0) (rtl_rx_buffer_at + 16) [1, 0, 8, 0, 65, 66, 67, 68]"

definition sample_rtl_world :: "cmem world" where
  "sample_rtl_world = \<lparr>env = sample_rtl_mem, console = [], logger = log_boot\<rparr>"

abbreviation sample_rtl_bus :: "cmem bus" where
  "sample_rtl_bus \<equiv> ram_bus 0x1000000 RTL8139_SIZE"

interpretation rtl8139_ram: dma_memory "ram_bus base RTL8139_SIZE" base RTL8139_SIZE "{..<RTL8139_SIZE}" "\<lambda>m. m" for base
  by (rule dma_memory.intro, rule ram_bus_dma) (simp_all add: RTL8139_SIZE_def)

theorem rtl8139_transmit_posts_witness:
  "wp (rtl8139_transmit AMD64 sample_rtl_bus (Some sample_rtl) (Some [1, 2, 3])) (\<lambda>(r, c') w'.
     r = 0 \<and> c' = Some (sample_rtl\<lparr>rtl_tx_current := 0\<rparr>)) sample_rtl_world"
  by (rule wp_mono [OF rtl8139_transmit_posts [of sample_rtl_bus sample_rtl "{..<RTL8139_SIZE}" "\<lambda>m. m"]])
     (use rtl8139_ram.hw [of "0x1000000"] in \<open>auto simp: sample_rtl_def rtl_apart_def rtl_tx_buffer_at_def RTL8139_SIZE_def\<close>)


end
