(* ===== verification/Virtio_Net.thy ===== *)
theory Virtio_Net
  imports Virtio_Mmio Dma_Memory Resources
begin

text \<open>
  The VirtIO network driver, \<^verbatim>\<open>drivers/virtio_net/virtio_net.h\<close> and \<^verbatim>\<open>drivers/virtio_net/virtio_net.c\<close>. The record
  holds the private fields of \<^verbatim>\<open>virtio_net_t\<close> and its address; the queues and the packet buffers are memory shared with
  the device. The registers are behind ports for a PCI device on AMD64 and memory-mapped otherwise, while the layout
  of the queues depends on the transport alone.
\<close>

section \<open>Constants and layout\<close>

definition VIRTIO_NET_QUEUE_SIZE :: nat where "VIRTIO_NET_QUEUE_SIZE = 16"
definition VIRTIO_NET_MAX_QUEUE_SIZE :: nat where "VIRTIO_NET_MAX_QUEUE_SIZE = 256"
definition VIRTIO_NET_MAX_PACKET_SIZE :: nat where "VIRTIO_NET_MAX_PACKET_SIZE = 2048"
definition VIRTIO_NET_HDR_SIZE :: nat where "VIRTIO_NET_HDR_SIZE = 10"
definition VNET_DESC_F_WRITE :: u16 where "VNET_DESC_F_WRITE = 2"
definition VIRTIO_MMIO_CONFIG :: u16 where "VIRTIO_MMIO_CONFIG = 0x100"
definition VIRTIO_PCI_CONFIG :: u16 where "VIRTIO_PCI_CONFIG = 0x14"

definition VIRTIO_NET_RX_BUFFER_OFFSET :: "arch \<Rightarrow> nat" where
  "VIRTIO_NET_RX_BUFFER_OFFSET a = (if a = ARM64 then 2 else 0)"

datatype virtio_net_transport = VIRTIO_NET_TRANSPORT_MMIO | VIRTIO_NET_TRANSPORT_PCI

record virtio_net =
  vn_self :: u64
  vn_io_base :: u64
  vn_initialized :: bool
  vn_transport :: virtio_net_transport
  vn_mac_addr :: "u8 list"
  rx_desc_in_use :: "bool list"
  tx_desc_in_use :: "bool list"
  rx_last_used_idx :: u16
  tx_last_used_idx :: u16

text \<open>
  Offsets in \<^verbatim>\<open>virtio_net_t\<close>. The two queues are unions aligned to 4096 bytes: with the MMIO layout the ring of
  available descriptors is at 256 and the ring of used ones at 4096, with the PCI layout at 4096 and 8192.
\<close>

definition vn_rxq :: nat where "vn_rxq = 4096"
definition vn_txq :: nat where "vn_txq = 16384"
definition vn_queue_bytes :: "virtio_net_transport \<Rightarrow> nat" where
  "vn_queue_bytes t = (case t of VIRTIO_NET_TRANSPORT_PCI \<Rightarrow> 12288 | VIRTIO_NET_TRANSPORT_MMIO \<Rightarrow> 8192)"
definition vn_ring_size :: "virtio_net_transport \<Rightarrow> nat" where
  "vn_ring_size t = (case t of VIRTIO_NET_TRANSPORT_PCI \<Rightarrow> VIRTIO_NET_MAX_QUEUE_SIZE | VIRTIO_NET_TRANSPORT_MMIO \<Rightarrow> VIRTIO_NET_QUEUE_SIZE)"
definition vn_avail :: "virtio_net_transport \<Rightarrow> nat" where
  "vn_avail t = (case t of VIRTIO_NET_TRANSPORT_PCI \<Rightarrow> 4096 | VIRTIO_NET_TRANSPORT_MMIO \<Rightarrow> 256)"
definition vn_used :: "virtio_net_transport \<Rightarrow> nat" where
  "vn_used t = (case t of VIRTIO_NET_TRANSPORT_PCI \<Rightarrow> 8192 | VIRTIO_NET_TRANSPORT_MMIO \<Rightarrow> 4096)"
definition vn_desc_at :: "nat \<Rightarrow> nat \<Rightarrow> nat" where "vn_desc_at q i = q + 16 * i"
definition vn_avail_idx_at :: "virtio_net_transport \<Rightarrow> nat \<Rightarrow> nat" where "vn_avail_idx_at t q = q + vn_avail t + 2"
definition vn_avail_ring_at :: "virtio_net_transport \<Rightarrow> nat \<Rightarrow> nat \<Rightarrow> nat" where "vn_avail_ring_at t q i = q + vn_avail t + 4 + 2 * i"
definition vn_used_idx_at :: "virtio_net_transport \<Rightarrow> nat \<Rightarrow> nat" where "vn_used_idx_at t q = q + vn_used t + 2"
definition vn_used_id_at :: "virtio_net_transport \<Rightarrow> nat \<Rightarrow> nat \<Rightarrow> nat" where "vn_used_id_at t q i = q + vn_used t + 4 + 8 * i"
definition vn_used_len_at :: "virtio_net_transport \<Rightarrow> nat \<Rightarrow> nat \<Rightarrow> nat" where "vn_used_len_at t q i = q + vn_used t + 8 + 8 * i"
definition vn_rx_buffer_at :: "nat \<Rightarrow> nat" where "vn_rx_buffer_at i = 28672 + 2048 * i"
definition VNET_SIZE :: nat where "VNET_SIZE = 98304"

definition vn_field :: "virtio_net \<Rightarrow> nat \<Rightarrow> u64" where
  "vn_field c off = vn_self c + word_of_nat off"

definition virtio_net_id_table :: "id_entry list" where
  "virtio_net_id_table =
     [\<lparr>id_compatible = Some ''virtio,net'', id_vendor = 0x1AF4, id_device = 0x1041, id_name = ''VirtIO-Net (1.0+)''\<rparr>,
      \<lparr>id_compatible = None, id_vendor = 0x1AF4, id_device = 0x1041, id_name = ''VirtIO-Net (1.0+ PCI)''\<rparr>,
      \<lparr>id_compatible = Some ''virtio,net'', id_vendor = 0x1AF4, id_device = 0x1000, id_name = ''VirtIO-Net (Transitional)''\<rparr>,
      \<lparr>id_compatible = None, id_vendor = 0x1AF4, id_device = 0x1000, id_name = ''VirtIO-Net (Transitional PCI)''\<rparr>,
      \<lparr>id_compatible = Some ''virtio,net'', id_vendor = 0x1AF4, id_device = 0x0001, id_name = ''VirtIO-Net (Legacy)''\<rparr>,
      \<lparr>id_compatible = None, id_vendor = 0x1AF4, id_device = 0x0001, id_name = ''VirtIO-Net (Legacy PCI)''\<rparr>,
      \<lparr>id_compatible = None, id_vendor = 0, id_device = 0, id_name = ''''\<rparr>]"

section \<open>Register access\<close>

definition vn_ports :: "arch \<Rightarrow> virtio_net \<Rightarrow> bool" where
  "vn_ports a c \<longleftrightarrow> a = AMD64 \<and> vn_transport c = VIRTIO_NET_TRANSPORT_PCI"

definition vn_read32 :: "arch \<Rightarrow> 'e bus \<Rightarrow> virtio_net \<Rightarrow> u16 \<Rightarrow> (('e, 'z) world_scheme, u32) state" where
  "vn_read32 a b c offset = (if vn_ports a c then io_inl b (ucast (vn_io_base c) + offset)
     else mmio_read32 b (vn_io_base c + ucast offset))"

definition vn_read16 :: "arch \<Rightarrow> 'e bus \<Rightarrow> virtio_net \<Rightarrow> u16 \<Rightarrow> (('e, 'z) world_scheme, u16) state" where
  "vn_read16 a b c offset = (if vn_ports a c then io_inw b (ucast (vn_io_base c) + offset)
     else do { v \<leftarrow> mmio_read32 b (vn_io_base c + ucast offset); State_Monad.return (ucast v) })"

definition vn_read8 :: "arch \<Rightarrow> 'e bus \<Rightarrow> virtio_net \<Rightarrow> u16 \<Rightarrow> (('e, 'z) world_scheme, u8) state" where
  "vn_read8 a b c offset = (if vn_ports a c then io_inb b (ucast (vn_io_base c) + offset)
     else do { v \<leftarrow> mmio_read32 b (vn_io_base c + ucast offset); State_Monad.return (ucast v) })"

definition vn_write32 :: "arch \<Rightarrow> 'e bus \<Rightarrow> virtio_net \<Rightarrow> u16 \<Rightarrow> u32 \<Rightarrow> (('e, 'z) world_scheme, unit) state" where
  "vn_write32 a b c offset v = (if vn_ports a c then io_outl b (ucast (vn_io_base c) + offset) v
     else mmio_write32 b (vn_io_base c + ucast offset) v)"

definition vn_write16 :: "arch \<Rightarrow> 'e bus \<Rightarrow> virtio_net \<Rightarrow> u16 \<Rightarrow> u16 \<Rightarrow> (('e, 'z) world_scheme, unit) state" where
  "vn_write16 a b c offset v = (if vn_ports a c then io_outw b (ucast (vn_io_base c) + offset) v
     else mmio_write32 b (vn_io_base c + ucast offset) (ucast v))"

definition vn_write8 :: "arch \<Rightarrow> 'e bus \<Rightarrow> virtio_net \<Rightarrow> u16 \<Rightarrow> u8 \<Rightarrow> (('e, 'z) world_scheme, unit) state" where
  "vn_write8 a b c offset v = (if vn_ports a c then io_outb b (ucast (vn_io_base c) + offset) v
     else mmio_write32 b (vn_io_base c + ucast offset) (ucast v))"

section \<open>Queues\<close>

text \<open>Adding a descriptor to the ring of available descriptors, in the three places where the code does it.\<close>

definition vn_push :: "'e bus \<Rightarrow> virtio_net \<Rightarrow> nat \<Rightarrow> nat \<Rightarrow> (('e, 'z) world_scheme, unit) state" where
  "vn_push b c q i = do {
     idx \<leftarrow> mem_read16 b (vn_field c (vn_avail_idx_at (vn_transport c) q));
     mem_write16 b (vn_field c (vn_avail_ring_at (vn_transport c) q (unat idx mod vn_ring_size (vn_transport c)))) (word_of_nat i);
     idx \<leftarrow> mem_read16 b (vn_field c (vn_avail_idx_at (vn_transport c) q));
     mem_write16 b (vn_field c (vn_avail_idx_at (vn_transport c) q)) (idx + 1) }"

definition vn_desc :: "'e bus \<Rightarrow> virtio_net \<Rightarrow> nat \<Rightarrow> nat \<Rightarrow> nat \<Rightarrow> nat \<Rightarrow> u16 \<Rightarrow> (('e, 'z) world_scheme, unit) state" where
  "vn_desc b c q i addr len flags = do {
     mem_write64 b (vn_field c (vn_desc_at q i)) (vn_field c addr);
     mem_write32 b (vn_field c (vn_desc_at q i + 8)) (word_of_nat len);
     mem_write16 b (vn_field c (vn_desc_at q i + 12)) flags;
     mem_write16 b (vn_field c (vn_desc_at q i + 14)) 0 }"

text \<open>The messages, with the driver's static log tag.\<close>

definition vn_tag :: "('e, 'z) net_world_scheme \<Rightarrow> log_tag option" where
  "vn_tag w = log_deref (logger w) (vnet_log w)"

definition vn_say :: "(log_tag option \<Rightarrow> string) \<Rightarrow> (('e, 'z) net_world_scheme, unit) state" where
  "vn_say f = do { t \<leftarrow> gets vn_tag; print (f t) }"

definition vn_line :: "log_level \<Rightarrow> string \<Rightarrow> log_tag option \<Rightarrow> string" where
  "vn_line level msg t = (if log_enabled t level then log_prefix t level @ msg @ [CHR 0x0A] else [])"

definition virtio_net_init_virtqueue :: "arch \<Rightarrow> 'e bus \<Rightarrow> virtio_net \<Rightarrow> u16 \<Rightarrow> (('e, 'z) net_world_scheme, int) state" where
  "virtio_net_init_virtqueue a b c queue_index = (let q = (if queue_index = 0 then vn_rxq else vn_txq);
       queue_addr = vn_field c q; queue_pfn = ucast (drop_bit 12 queue_addr) :: u32;
       addr_msg = vn_line LOG_DEBUG (''Queue addr: 0x'' @ put_hex64 queue_addr @ '' PFN: 0x'' @ put_hex32 queue_pfn);
       pfn_msg = (\<lambda>r. vn_line LOG_ERROR (''PFN mismatch! Expected: 0x'' @ put_hex32 queue_pfn @ '' Got: 0x'' @ put_hex32 r)) in
     if vn_ports a c then do {
       vn_write16 a b c VIRTIO_PCI_QUEUE_SEL queue_index;
       max_queue_size \<leftarrow> vn_read16 a b c VIRTIO_PCI_QUEUE_NUM;
       if unat max_queue_size = 0 \<or> unat max_queue_size < VIRTIO_NET_QUEUE_SIZE then State_Monad.return (-1)
       else do {
         copy_in b (vn_self c) q (replicate (vn_queue_bytes VIRTIO_NET_TRANSPORT_PCI) 0);
         vn_say addr_msg;
         vn_write32 a b c VIRTIO_PCI_QUEUE_PFN queue_pfn;
         readback_pfn \<leftarrow> vn_read32 a b c VIRTIO_PCI_QUEUE_PFN;
         if readback_pfn \<noteq> queue_pfn then do { vn_say (pfn_msg readback_pfn); State_Monad.return (-1) }
         else State_Monad.return 0 } }
     else do {
       copy_in b (vn_self c) q (replicate (vn_queue_bytes VIRTIO_NET_TRANSPORT_MMIO) 0);
       vn_write16 a b c VIRTIO_MMIO_QUEUE_SEL queue_index;
       queue_size \<leftarrow> vn_read32 a b c VIRTIO_MMIO_QUEUE_NUM_MAX;
       if unat queue_size = 0 \<or> unat queue_size < VIRTIO_NET_QUEUE_SIZE then State_Monad.return (-1)
       else do {
         vn_write32 a b c VIRTIO_MMIO_QUEUE_NUM (word_of_nat VIRTIO_NET_QUEUE_SIZE);
         vn_write32 a b c VIRTIO_MMIO_QUEUE_ALIGN 4096;
         vn_say addr_msg;
         vn_write32 a b c VIRTIO_MMIO_QUEUE_PFN queue_pfn;
         readback_pfn \<leftarrow> vn_read32 a b c VIRTIO_MMIO_QUEUE_PFN;
         if readback_pfn \<noteq> queue_pfn then do { vn_say (pfn_msg readback_pfn); State_Monad.return (-1) }
         else State_Monad.return 0 } })"

section \<open>Initialisation\<close>

definition vn_status_reg :: "arch \<Rightarrow> virtio_net \<Rightarrow> u16" where
  "vn_status_reg a c = (if vn_ports a c then VIRTIO_PCI_STATUS else VIRTIO_MMIO_STATUS)"

text \<open>Reset, acknowledge, features: the two branches write the same sequence to their own registers.\<close>

definition vn_features :: "arch \<Rightarrow> 'e bus \<Rightarrow> virtio_net \<Rightarrow> (('e, 'z) world_scheme, bool) state" where
  "vn_features a b c = do {
     vn_write8 a b c (vn_status_reg a c) 0;
     vn_write8 a b c (vn_status_reg a c) VIRTIO_STATUS_ACKNOWLEDGE;
     vn_write8 a b c (vn_status_reg a c) (VIRTIO_STATUS_ACKNOWLEDGE OR VIRTIO_STATUS_DRIVER);
     vn_read32 a b c (if vn_ports a c then VIRTIO_PCI_DEVICE_FEATURES else VIRTIO_MMIO_DEVICE_FEATURES);
     vn_write32 a b c (if vn_ports a c then VIRTIO_PCI_DRIVER_FEATURES else VIRTIO_MMIO_DRIVER_FEATURES) 0;
     vn_write8 a b c (vn_status_reg a c) (VIRTIO_STATUS_ACKNOWLEDGE OR VIRTIO_STATUS_DRIVER OR VIRTIO_STATUS_FEATURES_OK);
     status \<leftarrow> vn_read8 a b c (vn_status_reg a c);
     if status AND VIRTIO_STATUS_FEATURES_OK = 0 then do {
       vn_write8 a b c (vn_status_reg a c) VIRTIO_STATUS_FAILED;
       State_Monad.return False }
     else do {
       (if vn_ports a c then State_Monad.return () else vn_write32 a b c VIRTIO_MMIO_GUEST_PAGE_SIZE 4096);
       State_Monad.return True } }"

text \<open>One queue, with the messages around it.\<close>

definition vn_setup_queue :: "arch \<Rightarrow> 'e bus \<Rightarrow> virtio_net \<Rightarrow> u16 \<Rightarrow> string \<Rightarrow> (('e, 'z) net_world_scheme, bool) state" where
  "vn_setup_queue a b c queue_index name = do {
     vn_say (\<lambda>t. log_debug t (''Initializing '' @ name @ '' queue...'' @ [CHR 0x0A]));
     r \<leftarrow> virtio_net_init_virtqueue a b c queue_index;
     if r \<noteq> 0 then do {
       vn_say (\<lambda>t. log_error t (name @ '' queue init failed'' @ [CHR 0x0A]));
       vn_write8 a b c (vn_status_reg a c) VIRTIO_STATUS_FAILED;
       State_Monad.return False }
     else do {
       vn_say (\<lambda>t. log_debug t (name @ '' queue initialized'' @ [CHR 0x0A]));
       State_Monad.return True } }"

definition vn_populate :: "arch \<Rightarrow> 'e bus \<Rightarrow> virtio_net \<Rightarrow> (('e, 'z) world_scheme, unit) state" where
  "vn_populate a b c = for_each [0..<VIRTIO_NET_QUEUE_SIZE] (\<lambda>i. do {
     vn_desc b c vn_rxq i (vn_rx_buffer_at i + VIRTIO_NET_RX_BUFFER_OFFSET a)
       (VIRTIO_NET_MAX_PACKET_SIZE - VIRTIO_NET_RX_BUFFER_OFFSET a) VNET_DESC_F_WRITE;
     vn_push b c vn_rxq i })"

definition vn_driver_ok :: "arch \<Rightarrow> 'e bus \<Rightarrow> virtio_net \<Rightarrow> (('e, 'z) world_scheme, bool) state" where
  "vn_driver_ok a b c =
     (if vn_ports a c then do {
        vn_write8 a b c VIRTIO_PCI_STATUS (VIRTIO_STATUS_ACKNOWLEDGE OR VIRTIO_STATUS_DRIVER OR VIRTIO_STATUS_DRIVER_OK);
        status \<leftarrow> vn_read8 a b c VIRTIO_PCI_STATUS;
        State_Monad.return (status AND VIRTIO_STATUS_DRIVER_OK \<noteq> 0) }
      else do {
        vn_write8 a b c VIRTIO_MMIO_STATUS
          (VIRTIO_STATUS_ACKNOWLEDGE OR VIRTIO_STATUS_DRIVER OR VIRTIO_STATUS_FEATURES_OK OR VIRTIO_STATUS_DRIVER_OK);
        status \<leftarrow> vn_read8 a b c VIRTIO_MMIO_STATUS;
        if status AND VIRTIO_STATUS_DRIVER_OK = 0 then State_Monad.return False
        else do { vn_write32 a b c VIRTIO_MMIO_QUEUE_NOTIFY 0; State_Monad.return True } })"

definition vn_read_mac :: "arch \<Rightarrow> 'e bus \<Rightarrow> virtio_net \<Rightarrow> (('e, 'z) world_scheme, u8 list) state" where
  "vn_read_mac a b c = (let mac_offset = (if vn_transport c = VIRTIO_NET_TRANSPORT_PCI then VIRTIO_PCI_CONFIG else VIRTIO_MMIO_CONFIG) in
     for_fold [0..<6] (\<lambda>i mac. do {
       v \<leftarrow> (if vn_ports a c then io_inb b (ucast (vn_io_base c) + mac_offset + word_of_nat i)
         else mem_read8 b (vn_io_base c + ucast mac_offset + word_of_nat i));
       State_Monad.return (mac @ [v]) }) [])"

definition virtio_net_init_context ::
  "arch \<Rightarrow> 'e bus \<Rightarrow> virtio_net option \<Rightarrow> device option \<Rightarrow> (('e, 'z) net_world_scheme, int \<times> virtio_net option) state" where
  "virtio_net_init_context a b ctx dev = (case (ctx, dev) of
     (Some c, Some d) \<Rightarrow> do {
       tag \<leftarrow> gets vnet_log;
       lg \<leftarrow> gets logger;
       let (tag, lg) = static_tag ''virtio-net'' tag lg;
       modify (\<lambda>w. w\<lparr>vnet_log := tag, logger := lg\<rparr>);
       copy_in b (vn_self c) 0 (replicate VNET_SIZE 0);
       let c = \<lparr>vn_self = vn_self c, vn_io_base = reg_base d, vn_initialized = False,
         vn_transport = (if reg_base d < 0x10000 then VIRTIO_NET_TRANSPORT_PCI else VIRTIO_NET_TRANSPORT_MMIO),
         vn_mac_addr = replicate 6 0, rx_desc_in_use = replicate VIRTIO_NET_QUEUE_SIZE False,
         tx_desc_in_use = replicate VIRTIO_NET_QUEUE_SIZE False, rx_last_used_idx = 0, tx_last_used_idx = 0\<rparr>;
       ok \<leftarrow> vn_features a b c;
       if \<not> ok then State_Monad.return (-1, Some c)
       else do {
         ok \<leftarrow> vn_setup_queue a b c 0 ''RX'';
         if \<not> ok then State_Monad.return (-1, Some c)
         else do {
           ok \<leftarrow> vn_setup_queue a b c 1 ''TX'';
           if \<not> ok then State_Monad.return (-1, Some c)
           else do {
             vn_populate a b c;
             let c = c\<lparr>rx_desc_in_use := replicate VIRTIO_NET_QUEUE_SIZE True\<rparr>;
             rx_avail_idx \<leftarrow> mem_read16 b (vn_field c (vn_avail_idx_at (vn_transport c) vn_rxq));
             vn_say (vn_line LOG_DEBUG (''RX buffers populated, avail.idx='' @ put_hex16 rx_avail_idx));
             ok \<leftarrow> vn_driver_ok a b c;
             if \<not> ok then State_Monad.return (-1, Some c)
             else do {
               mac \<leftarrow> vn_read_mac a b c;
               vn_say (\<lambda>t. log_info t (''Driver initialized successfully'' @ [CHR 0x0A]));
               State_Monad.return (0, Some (c\<lparr>vn_mac_addr := mac, vn_initialized := True\<rparr>)) } } } } }
   | _ \<Rightarrow> State_Monad.return (-1, ctx))"

definition virtio_net_deinit_context ::
  "arch \<Rightarrow> 'e bus \<Rightarrow> virtio_net option \<Rightarrow> (('e, 'z) world_scheme, virtio_net option) state" where
  "virtio_net_deinit_context a b ctx = (case ctx of
     None \<Rightarrow> State_Monad.return None
   | Some c \<Rightarrow>
       if vn_initialized c then do {
         vn_write8 a b c (vn_status_reg a c) 0;
         State_Monad.return (Some (c\<lparr>vn_initialized := False\<rparr>)) }
       else State_Monad.return (Some c))"

definition virtio_net_get_mac :: "virtio_net option \<Rightarrow> bool \<Rightarrow> u8 list option" where
  "virtio_net_get_mac ctx mac = (case ctx of None \<Rightarrow> None
   | Some c \<Rightarrow> if \<not> mac \<or> \<not> vn_initialized c then None else Some (map (\<lambda>i. vn_mac_addr c ! i) [0..<6]))"

section \<open>Packets\<close>

definition vn_notify :: "arch \<Rightarrow> 'e bus \<Rightarrow> virtio_net \<Rightarrow> u16 \<Rightarrow> (('e, 'z) world_scheme, unit) state" where
  "vn_notify a b c queue_index =
     (if vn_ports a c then do {
        vn_write16 a b c VIRTIO_PCI_QUEUE_SEL queue_index;
        vn_write16 a b c VIRTIO_PCI_QUEUE_NOTIFY queue_index }
      else vn_write32 a b c VIRTIO_MMIO_QUEUE_NOTIFY (ucast queue_index))"

definition virtio_net_receive ::
  "arch \<Rightarrow> 'e bus \<Rightarrow> virtio_net option \<Rightarrow> bool \<Rightarrow> nat \<Rightarrow> bool \<Rightarrow> (('e, 'z) net_world_scheme, u8 list option \<times> virtio_net option) state" where
  "virtio_net_receive a b ctx buffer buffer_size received_length = (case ctx of
     None \<Rightarrow> State_Monad.return (None, None)
   | Some c \<Rightarrow>
       if \<not> buffer \<or> \<not> received_length \<or> \<not> vn_initialized c then State_Monad.return (None, Some c)
       else do {
         let last_used = rx_last_used_idx c;
         used_ring_idx \<leftarrow> mem_read16 b (vn_field c (vn_used_idx_at (vn_transport c) vn_rxq));
         n \<leftarrow> gets debug_count;
         (if n < 5 then do {
            vn_say (vn_line LOG_DEBUG (''RX check: last_used='' @ put_hex16 last_used @ '' used_idx='' @ put_hex16 used_ring_idx));
            modify (\<lambda>w. w\<lparr>debug_count := n + 1\<rparr>) }
          else State_Monad.return ());
         if used_ring_idx = last_used then State_Monad.return (None, Some c)
         else do {
           let used_idx = unat last_used mod vn_ring_size (vn_transport c);
           desc_id \<leftarrow> mem_read32 b (vn_field c (vn_used_id_at (vn_transport c) vn_rxq used_idx));
           packet_len \<leftarrow> mem_read32 b (vn_field c (vn_used_len_at (vn_transport c) vn_rxq used_idx));
           let c = c\<lparr>rx_last_used_idx := rx_last_used_idx c + 1\<rparr>;
           if unat desc_id \<ge> VIRTIO_NET_QUEUE_SIZE then State_Monad.return (None, Some c)
           else if packet_len = 0 \<or> unat packet_len > VIRTIO_NET_MAX_PACKET_SIZE then State_Monad.return (None, Some c)
           else if unat packet_len < VIRTIO_NET_HDR_SIZE then State_Monad.return (None, Some c)
           else do {
             let data_len = unat packet_len - VIRTIO_NET_HDR_SIZE;
             if data_len > buffer_size then State_Monad.return (None, Some c)
             else do {
               bs \<leftarrow> copy_out b (vn_self c) (vn_rx_buffer_at (unat desc_id) + VIRTIO_NET_RX_BUFFER_OFFSET a + VIRTIO_NET_HDR_SIZE) data_len;
               vn_push b c vn_rxq (unat desc_id);
               vn_notify a b c 0;
               State_Monad.return (Some bs, Some c) } } } })"





section \<open>Rings and descriptors in memory\<close>







section \<open>Transmission\<close>


















section \<open>Reception\<close>

text \<open>
  C39: Whatever the device reports, a receive returns at most the bytes the caller has room for and at most 2038, and only
  with an initialised context. The index of the used ring moves on by at most one, by one whenever a packet is returned,
  and nothing else of the context changes.
\<close>

theorem virtio_net_receive_safe:
  fixes w :: "('e, 'z) net_world_scheme"
  shows "wp (virtio_net_receive a b (Some c) buffer sz received) (\<lambda>(r, c') _.
     (c' = Some c \<and> r = None \<or> c' = Some (c\<lparr>rx_last_used_idx := rx_last_used_idx c + 1\<rparr>)) \<and>
     (case r of None \<Rightarrow> True | Some bs \<Rightarrow> buffer \<and> received \<and> vn_initialized c \<and> length bs \<le> min sz 2038)) w"
proof -
  have copy: "wp (do { bs \<leftarrow> copy_out b base k n; vn_push b c1 q i; vn_notify a b c1 0; State_Monad.return (Some bs, Some c1) })
      (\<lambda>(r, c') _. (c' = Some c \<and> r = None \<or> c' = Some (c\<lparr>rx_last_used_idx := rx_last_used_idx c + 1\<rparr>)) \<and>
         (case r of None \<Rightarrow> True | Some bs \<Rightarrow> buffer \<and> received \<and> vn_initialized c \<and> length bs \<le> min sz 2038)) w1"
    if "n \<le> sz" "n \<le> 2038" "c1 = c\<lparr>rx_last_used_idx := rx_last_used_idx c + 1\<rparr>" "buffer" "received" "vn_initialized c"
    for base k n c1 q i and w1 :: "('e, 'z) net_world_scheme"
    by (rule wp_seq [OF wp_copy_out_length], rule wp_skip, rule wp_skip) (use that in \<open>simp add: wp_simps\<close>)
  show ?thesis
    unfolding virtio_net_receive_def
    apply (simp only: option.case Let_def)
    apply (rule wp_ifI, simp add: wp_return)
    apply (rule wp_skip, rule wp_skip, rule wp_skip, rule wp_ifI, simp add: wp_return)
    apply (rule wp_skip, rule wp_skip)
    apply (rule wp_ifI, simp add: wp_return)+
    apply (rule copy; simp add: VIRTIO_NET_MAX_PACKET_SIZE_def VIRTIO_NET_HDR_SIZE_def)
    apply (elim conjE, linarith)
    done
qed








section \<open>Witnesses\<close>













end
