(* ===== verification/Virtio_Rng.thy ===== *)
theory Virtio_Rng
  imports Virtio_Mmio Dma_Memory Resources
begin

text \<open>
  The VirtIO entropy driver, \<^verbatim>\<open>drivers/virtio_rng/virtio_rng.h\<close> and \<^verbatim>\<open>drivers/virtio_rng/virtio_rng.c\<close>. The record holds
  the private fields of \<^verbatim>\<open>virtio_rng_t\<close> (with \<^verbatim>\<open>queue.last_used_idx\<close>, which the device does not know) and its address; the
  descriptor table, the two rings and the data buffer are memory shared with the device. Memory barriers and the
  delay loop have no effect in the model, where accesses happen in program order.
\<close>

section \<open>Constants and layout\<close>

definition VIRTIO_RNG_QUEUE_SIZE :: nat where "VIRTIO_RNG_QUEUE_SIZE = 8"
definition VRING_DESC_F_WRITE :: u16 where "VRING_DESC_F_WRITE = 2"

datatype virtio_transport = VIRTIO_TRANSPORT_MMIO | VIRTIO_TRANSPORT_PCI

record virtio_rng =
  rng_self :: u64
  rng_io_base :: u64
  rng_initialized :: bool
  rng_transport :: virtio_transport
  rng_last_used_idx :: u16
  rng_desc_in_use :: "bool list"

text \<open>
  Offsets in \<^verbatim>\<open>virtio_rng_t\<close>: the queue is aligned to 4096 bytes, its used ring to the next page. A descriptor has its
  address at 0, its length at 8, its flags at 12 and its next field at 14.
\<close>

definition rng_queue_at :: nat where "rng_queue_at = 4096"
definition rng_desc_at :: "nat \<Rightarrow> nat" where "rng_desc_at i = rng_queue_at + 16 * i"
definition rng_avail_idx_at :: nat where "rng_avail_idx_at = rng_queue_at + 130"
definition rng_avail_ring_at :: "nat \<Rightarrow> nat" where "rng_avail_ring_at i = rng_queue_at + 132 + 2 * i"
definition rng_used_idx_at :: nat where "rng_used_idx_at = rng_queue_at + 4098"
definition rng_used_id_at :: "nat \<Rightarrow> nat" where "rng_used_id_at i = rng_queue_at + 4100 + 8 * i"
definition rng_used_len_at :: "nat \<Rightarrow> nat" where "rng_used_len_at i = rng_queue_at + 4104 + 8 * i"
definition rng_buffer_at :: nat where "rng_buffer_at = 12288"
definition RNG_QUEUE_BYTES :: nat where "RNG_QUEUE_BYTES = 8192"
definition RNG_SIZE :: nat where "RNG_SIZE = 16384"

definition rng_field :: "virtio_rng \<Rightarrow> nat \<Rightarrow> u64" where
  "rng_field c off = rng_self c + word_of_nat off"

definition virtio_rng_id_table :: "id_entry list" where
  "virtio_rng_id_table =
     [\<lparr>id_compatible = Some ''virtio,rng'', id_vendor = 0x1AF4, id_device = 0x1005, id_name = ''VirtIO-RNG (Legacy)''\<rparr>,
      \<lparr>id_compatible = None, id_vendor = 0, id_device = 0, id_name = ''''\<rparr>]"

section \<open>Register access\<close>

definition virtio_translate_offset :: "arch \<Rightarrow> virtio_transport \<Rightarrow> u16 \<Rightarrow> u16" where
  "virtio_translate_offset a transport mmio_offset =
     (if a = AMD64 \<and> transport = VIRTIO_TRANSPORT_PCI then
        if mmio_offset = VIRTIO_MMIO_DEVICE_FEATURES then VIRTIO_PCI_DEVICE_FEATURES
        else if mmio_offset = VIRTIO_MMIO_DRIVER_FEATURES then VIRTIO_PCI_DRIVER_FEATURES
        else if mmio_offset = VIRTIO_MMIO_QUEUE_PFN then VIRTIO_PCI_QUEUE_PFN
        else if mmio_offset = VIRTIO_MMIO_QUEUE_NUM then VIRTIO_PCI_QUEUE_NUM
        else if mmio_offset = VIRTIO_MMIO_QUEUE_SEL then VIRTIO_PCI_QUEUE_SEL
        else if mmio_offset = VIRTIO_MMIO_QUEUE_NOTIFY then VIRTIO_PCI_QUEUE_NOTIFY
        else if mmio_offset = VIRTIO_MMIO_STATUS then VIRTIO_PCI_STATUS
        else if mmio_offset = VIRTIO_MMIO_INTERRUPT_STATUS then VIRTIO_PCI_ISR_STATUS
        else if mmio_offset \<in> {VIRTIO_MMIO_GUEST_PAGE_SIZE, VIRTIO_MMIO_QUEUE_NUM_MAX, VIRTIO_MMIO_QUEUE_ALIGN} then 0xFFFF
        else mmio_offset
      else mmio_offset)"

definition rng_uses_ports :: "arch \<Rightarrow> virtio_rng \<Rightarrow> bool" where
  "rng_uses_ports a c \<longleftrightarrow> a = AMD64 \<and> rng_transport c = VIRTIO_TRANSPORT_PCI"

definition virtio_read32 :: "arch \<Rightarrow> 'e bus \<Rightarrow> virtio_rng \<Rightarrow> u16 \<Rightarrow> (('e, 'z) world_scheme, u32) state" where
  "virtio_read32 a b c mmio_offset = (let offset = virtio_translate_offset a (rng_transport c) mmio_offset in
     if offset = 0xFFFF then State_Monad.return 0
     else if rng_uses_ports a c then virtio_pci_read32 b (ucast (rng_io_base c)) offset
     else mmio_read32 b (rng_io_base c + ucast offset))"

definition virtio_read16 :: "arch \<Rightarrow> 'e bus \<Rightarrow> virtio_rng \<Rightarrow> u16 \<Rightarrow> (('e, 'z) world_scheme, u16) state" where
  "virtio_read16 a b c mmio_offset = (let offset = virtio_translate_offset a (rng_transport c) mmio_offset in
     if offset = 0xFFFF then State_Monad.return 0
     else if rng_uses_ports a c then io_inw b (ucast (rng_io_base c) + offset)
     else do { v \<leftarrow> mmio_read32 b (rng_io_base c + ucast offset); State_Monad.return (ucast v) })"

definition virtio_read8 :: "arch \<Rightarrow> 'e bus \<Rightarrow> virtio_rng \<Rightarrow> u16 \<Rightarrow> (('e, 'z) world_scheme, u8) state" where
  "virtio_read8 a b c mmio_offset = (let offset = virtio_translate_offset a (rng_transport c) mmio_offset in
     if offset = 0xFFFF then State_Monad.return 0
     else if rng_uses_ports a c then io_inb b (ucast (rng_io_base c) + offset)
     else do { v \<leftarrow> mmio_read32 b (rng_io_base c + ucast offset); State_Monad.return (ucast v) })"

definition virtio_write32 :: "arch \<Rightarrow> 'e bus \<Rightarrow> virtio_rng \<Rightarrow> u16 \<Rightarrow> u32 \<Rightarrow> (('e, 'z) world_scheme, unit) state" where
  "virtio_write32 a b c mmio_offset v = (let offset = virtio_translate_offset a (rng_transport c) mmio_offset in
     if offset = 0xFFFF then State_Monad.return ()
     else if rng_uses_ports a c then virtio_pci_write32 b (ucast (rng_io_base c)) offset v
     else mmio_write32 b (rng_io_base c + ucast offset) v)"

definition virtio_write16 :: "arch \<Rightarrow> 'e bus \<Rightarrow> virtio_rng \<Rightarrow> u16 \<Rightarrow> u16 \<Rightarrow> (('e, 'z) world_scheme, unit) state" where
  "virtio_write16 a b c mmio_offset v = (let offset = virtio_translate_offset a (rng_transport c) mmio_offset in
     if offset = 0xFFFF then State_Monad.return ()
     else if rng_uses_ports a c then io_outw b (ucast (rng_io_base c) + offset) v
     else mmio_write32 b (rng_io_base c + ucast offset) (ucast v))"

definition virtio_write8 :: "arch \<Rightarrow> 'e bus \<Rightarrow> virtio_rng \<Rightarrow> u16 \<Rightarrow> u8 \<Rightarrow> (('e, 'z) world_scheme, unit) state" where
  "virtio_write8 a b c mmio_offset v = (let offset = virtio_translate_offset a (rng_transport c) mmio_offset in
     if offset = 0xFFFF then State_Monad.return ()
     else if rng_uses_ports a c then io_outb b (ucast (rng_io_base c) + offset) v
     else mmio_write32 b (rng_io_base c + ucast offset) (ucast v))"

section \<open>Initialisation\<close>

text \<open>
  The four parts of \<^verbatim>\<open>virtio_rng_init_context\<close>, each returning whether to go on: version and reset, features, queue,
  and the final status. A part that returns \<open>False\<close> is an early \<^verbatim>\<open>return -1\<close>.
\<close>

definition rng_init_features :: "arch \<Rightarrow> 'e bus \<Rightarrow> virtio_rng \<Rightarrow> (('e, 'z) world_scheme, bool) state" where
  "rng_init_features a b c = do {
     virtio_write8 a b c VIRTIO_MMIO_STATUS 0;
     virtio_write8 a b c VIRTIO_MMIO_STATUS VIRTIO_STATUS_ACKNOWLEDGE;
     virtio_write8 a b c VIRTIO_MMIO_STATUS (VIRTIO_STATUS_ACKNOWLEDGE OR VIRTIO_STATUS_DRIVER);
     virtio_read32 a b c VIRTIO_MMIO_DEVICE_FEATURES;
     virtio_write32 a b c VIRTIO_MMIO_DRIVER_FEATURES 0;
     if rng_transport c = VIRTIO_TRANSPORT_MMIO then do {
       virtio_write8 a b c VIRTIO_MMIO_STATUS (VIRTIO_STATUS_ACKNOWLEDGE OR VIRTIO_STATUS_DRIVER OR VIRTIO_STATUS_FEATURES_OK);
       status \<leftarrow> virtio_read8 a b c VIRTIO_MMIO_STATUS;
       if status AND VIRTIO_STATUS_FEATURES_OK = 0 then do {
         virtio_write8 a b c VIRTIO_MMIO_STATUS VIRTIO_STATUS_FAILED;
         State_Monad.return False }
       else State_Monad.return True }
     else State_Monad.return True }"

definition rng_init_queue :: "arch \<Rightarrow> 'e bus \<Rightarrow> virtio_rng \<Rightarrow> u32 \<Rightarrow> (('e, 'z) world_scheme, bool) state" where
  "rng_init_queue a b c version = do {
     (if version = 1 \<and> rng_transport c = VIRTIO_TRANSPORT_MMIO then virtio_write32 a b c VIRTIO_MMIO_GUEST_PAGE_SIZE 4096
      else State_Monad.return ());
     virtio_write16 a b c VIRTIO_MMIO_QUEUE_SEL 0;
     queue_size \<leftarrow> (if rng_transport c = VIRTIO_TRANSPORT_PCI
       then do { v \<leftarrow> virtio_read16 a b c VIRTIO_MMIO_QUEUE_NUM; State_Monad.return (ucast v) }
       else virtio_read32 a b c VIRTIO_MMIO_QUEUE_NUM_MAX);
     if queue_size = 0 \<or> unat queue_size < VIRTIO_RNG_QUEUE_SIZE then do {
       virtio_write8 a b c VIRTIO_MMIO_STATUS VIRTIO_STATUS_FAILED;
       State_Monad.return False }
     else do {
       (if rng_transport c = VIRTIO_TRANSPORT_PCI then virtio_write16 a b c VIRTIO_MMIO_QUEUE_NUM (word_of_nat VIRTIO_RNG_QUEUE_SIZE)
        else virtio_write32 a b c VIRTIO_MMIO_QUEUE_NUM (word_of_nat VIRTIO_RNG_QUEUE_SIZE));
       copy_in b (rng_self c) rng_queue_at (replicate RNG_QUEUE_BYTES 0);
       if version = 1 then do {
         (if rng_transport c = VIRTIO_TRANSPORT_MMIO then virtio_write32 a b c VIRTIO_MMIO_QUEUE_ALIGN 4096
          else State_Monad.return ());
         let queue_pfn = ucast (drop_bit 12 (rng_field c rng_queue_at));
         virtio_write32 a b c VIRTIO_MMIO_QUEUE_PFN queue_pfn;
         readback_pfn \<leftarrow> virtio_read32 a b c VIRTIO_MMIO_QUEUE_PFN;
         if readback_pfn \<noteq> queue_pfn then do {
           virtio_write8 a b c VIRTIO_MMIO_STATUS VIRTIO_STATUS_FAILED;
           State_Monad.return False }
         else State_Monad.return True }
       else do {
         virtio_write8 a b c VIRTIO_MMIO_STATUS VIRTIO_STATUS_FAILED;
         State_Monad.return False } } }"

definition rng_init_status :: "arch \<Rightarrow> 'e bus \<Rightarrow> virtio_rng \<Rightarrow> (('e, 'z) world_scheme, bool) state" where
  "rng_init_status a b c = do {
     (if rng_transport c = VIRTIO_TRANSPORT_MMIO
      then virtio_write8 a b c VIRTIO_MMIO_STATUS
        (VIRTIO_STATUS_ACKNOWLEDGE OR VIRTIO_STATUS_DRIVER OR VIRTIO_STATUS_FEATURES_OK OR VIRTIO_STATUS_DRIVER_OK)
      else virtio_write8 a b c VIRTIO_MMIO_STATUS (VIRTIO_STATUS_ACKNOWLEDGE OR VIRTIO_STATUS_DRIVER OR VIRTIO_STATUS_DRIVER_OK));
     status \<leftarrow> virtio_read8 a b c VIRTIO_MMIO_STATUS;
     State_Monad.return (status AND VIRTIO_STATUS_DRIVER_OK \<noteq> 0) }"

text \<open>
  The queue is zeroed, \<^verbatim>\<open>last_used_idx\<close> with it, between the check of the queue size and the check of the version.
\<close>

definition virtio_rng_init_context ::
  "arch \<Rightarrow> 'e bus \<Rightarrow> virtio_rng option \<Rightarrow> device option \<Rightarrow> (('e, 'z) world_scheme, int \<times> virtio_rng option) state" where
  "virtio_rng_init_context a b ctx dev = (case (ctx, dev) of
     (Some c, Some d) \<Rightarrow> do {
       let c = c\<lparr>rng_io_base := reg_base d,
         rng_transport := (if reg_base d < 0x10000 then VIRTIO_TRANSPORT_PCI else VIRTIO_TRANSPORT_MMIO)\<rparr>;
       version \<leftarrow> virtio_read32 a b c VIRTIO_MMIO_VERSION;
       if rng_transport c = VIRTIO_TRANSPORT_MMIO \<and> version \<noteq> 1 \<and> version \<noteq> 2 then State_Monad.return (-1, Some c)
       else do {
         let version = (if rng_transport c = VIRTIO_TRANSPORT_PCI then 1 else version);
         ok \<leftarrow> rng_init_features a b c;
         if \<not> ok then State_Monad.return (-1, Some c)
         else do {
           ok \<leftarrow> rng_init_queue a b c version;
           let c = c\<lparr>rng_last_used_idx := 0\<rparr>;
           if \<not> ok then State_Monad.return (-1, Some c)
           else do {
             ok \<leftarrow> rng_init_status a b c;
             if \<not> ok then State_Monad.return (-1, Some c)
             else State_Monad.return (0, Some (c\<lparr>rng_initialized := True\<rparr>)) } } } }
   | _ \<Rightarrow> State_Monad.return (-1, ctx))"

definition virtio_rng_deinit_context ::
  "arch \<Rightarrow> 'e bus \<Rightarrow> virtio_rng option \<Rightarrow> (('e, 'z) world_scheme, virtio_rng option) state" where
  "virtio_rng_deinit_context a b ctx = (case ctx of
     None \<Rightarrow> State_Monad.return None
   | Some c \<Rightarrow>
       if \<not> rng_initialized c then State_Monad.return (Some c)
       else do {
         virtio_write8 a b c VIRTIO_MMIO_STATUS 0;
         State_Monad.return (Some (c\<lparr>rng_initialized := False\<rparr>)) })"

section \<open>Reading\<close>

text \<open>The first half of \<^verbatim>\<open>virtio_rng_read\<close>, for the free descriptor \<open>i\<close>: fill it, make it available, notify the device.\<close>

definition rng_submit :: "arch \<Rightarrow> 'e bus \<Rightarrow> virtio_rng \<Rightarrow> nat \<Rightarrow> nat \<Rightarrow> (('e, 'z) world_scheme, unit) state" where
  "rng_submit a b c i sz = do {
     mem_write64 b (rng_field c (rng_desc_at i)) (rng_field c rng_buffer_at);
     mem_write32 b (rng_field c (rng_desc_at i + 8)) (word_of_nat sz);
     mem_write16 b (rng_field c (rng_desc_at i + 12)) VRING_DESC_F_WRITE;
     mem_write16 b (rng_field c (rng_desc_at i + 14)) 0;
     idx \<leftarrow> mem_read16 b (rng_field c rng_avail_idx_at);
     mem_write16 b (rng_field c (rng_avail_ring_at (unat idx mod VIRTIO_RNG_QUEUE_SIZE))) (word_of_nat i);
     idx \<leftarrow> mem_read16 b (rng_field c rng_avail_idx_at);
     mem_write16 b (rng_field c rng_avail_idx_at) (idx + 1);
     (if rng_transport c = VIRTIO_TRANSPORT_PCI then virtio_write16 a b c VIRTIO_MMIO_QUEUE_NOTIFY 0
      else virtio_write32 a b c VIRTIO_MMIO_QUEUE_NOTIFY 0) }"

text \<open>\<^verbatim>\<open>while (ctx->queue.used.idx == last_used && timeout_count > 0) timeout_count--;\<close> The result is the count at the end.\<close>

fun rng_poll :: "'e bus \<Rightarrow> virtio_rng \<Rightarrow> nat \<Rightarrow> (('e, 'z) world_scheme, nat) state" where
  "rng_poll b c timeout_count = do {
     idx \<leftarrow> mem_read16 b (rng_field c rng_used_idx_at);
     if idx = rng_last_used_idx c \<and> timeout_count > 0 then rng_poll b c (timeout_count - 1)
     else State_Monad.return timeout_count }"

declare rng_poll.simps [simp del]

text \<open>The second half: wait, and collect the data. \<open>None\<close> is the result \<^verbatim>\<open>-1\<close>.\<close>

definition rng_collect :: "'e bus \<Rightarrow> virtio_rng \<Rightarrow> nat \<Rightarrow> nat \<Rightarrow> (('e, 'z) world_scheme, u8 list option \<times> virtio_rng) state" where
  "rng_collect b c i sz = do {
     timeout_count \<leftarrow> rng_poll b c 100000;
     if timeout_count = 0
     then State_Monad.return (None, c\<lparr>rng_desc_in_use := (rng_desc_in_use c)[i := False]\<rparr>)
     else do {
       let used_idx = unat (rng_last_used_idx c) mod VIRTIO_RNG_QUEUE_SIZE;
       used_desc_id \<leftarrow> mem_read32 b (rng_field c (rng_used_id_at used_idx));
       bytes_read \<leftarrow> mem_read32 b (rng_field c (rng_used_len_at used_idx));
       let c = c\<lparr>rng_last_used_idx := rng_last_used_idx c + 1\<rparr>;
       let c = (if unat used_desc_id < VIRTIO_RNG_QUEUE_SIZE
         then c\<lparr>rng_desc_in_use := (rng_desc_in_use c)[unat used_desc_id := False]\<rparr> else c);
       bs \<leftarrow> copy_out b (rng_self c) rng_buffer_at (if unat bytes_read > sz then sz else unat bytes_read);
       State_Monad.return (Some bs, c) } }"

definition virtio_rng_read ::
  "arch \<Rightarrow> 'e bus \<Rightarrow> virtio_rng option \<Rightarrow> bool \<Rightarrow> nat \<Rightarrow> (('e, 'z) world_scheme, u8 list option \<times> virtio_rng option) state" where
  "virtio_rng_read a b ctx buffer sz = (case ctx of
     None \<Rightarrow> State_Monad.return (None, None)
   | Some c \<Rightarrow>
       if \<not> buffer \<or> sz = 0 then State_Monad.return (None, ctx)
       else if \<not> rng_initialized c then State_Monad.return (None, ctx)
       else (let sz = (if sz > 64 then 64 else sz) in
         case find (\<lambda>i. \<not> rng_desc_in_use c ! i) [0..<VIRTIO_RNG_QUEUE_SIZE] of
           None \<Rightarrow> State_Monad.return (None, ctx)
         | Some i \<Rightarrow> do {
             let c = c\<lparr>rng_desc_in_use := (rng_desc_in_use c)[i := True]\<rparr>;
             rng_submit a b c i sz;
             (r, c) \<leftarrow> rng_collect b c i sz;
             State_Monad.return (r, Some c) }))"

section \<open>The frame of the driver\<close>

lemma env_only_virtio [env_only_rules]:
  "env_only (virtio_read32 a b c r)" "env_only (virtio_read16 a b c r)" "env_only (virtio_read8 a b c r)"
  "env_only (virtio_write32 a b c r v32)" "env_only (virtio_write16 a b c r v16)" "env_only (virtio_write8 a b c r v8)"
  unfolding virtio_read32_def virtio_read16_def virtio_read8_def virtio_write32_def virtio_write16_def virtio_write8_def
    virtio_pci_read32_def virtio_pci_write32_def mmio_read32_def mmio_write32_def
  by (intro env_only_rules)+

lemma env_only_rng_init [env_only_rules]:
  "env_only (rng_init_features a b c)" "env_only (rng_init_queue a b c v)" "env_only (rng_init_status a b c)"
  unfolding rng_init_features_def rng_init_queue_def rng_init_status_def copy_in_def
  by (intro env_only_rules)+

lemma env_only_rng_poll [env_only_rules]: "env_only (rng_poll b c n)"
proof (induction n)
  case 0
  then show ?case by (subst rng_poll.simps) (intro env_only_rules, simp)
next
  case (Suc n)
  then show ?case by (subst rng_poll.simps) (intro env_only_rules, simp)
qed

lemma env_only_virtio_rng [env_only_rules]:
  "env_only (virtio_rng_init_context a b ctx dev)" "env_only (virtio_rng_deinit_context a b ctx)"
  "env_only (virtio_rng_read a b ctx buffer sz)"
  unfolding virtio_rng_init_context_def virtio_rng_deinit_context_def virtio_rng_read_def rng_submit_def rng_collect_def copy_out_def
  by (intro env_only_rules)+

section \<open>Submitting a request\<close>

lemmas rng_layout = rng_queue_at_def rng_desc_at_def rng_avail_idx_at_def rng_avail_ring_at_def rng_used_idx_at_def
  rng_used_id_at_def rng_used_len_at_def rng_buffer_at_def RNG_SIZE_def VIRTIO_RNG_QUEUE_SIZE_def

text \<open>What the driver writes and the device only reads: the descriptor table and the ring of available descriptors.\<close>

definition rng_own :: "nat set" where
  "rng_own = {rng_queue_at..<rng_queue_at + 148}"

definition rng_request :: "u64 \<Rightarrow> nat \<Rightarrow> u16 \<Rightarrow> nat \<Rightarrow> cmem \<Rightarrow> cmem" where
  "rng_request self i idx sz m =
     mput (mput (mput m (rng_desc_at i) (le64 (self + word_of_nat rng_buffer_at) @ le32 (word_of_nat sz) @ le16 VRING_DESC_F_WRITE @ le16 0))
       (rng_avail_ring_at (unat idx mod 8)) (le16 (word_of_nat i)))
       rng_avail_idx_at (le16 (idx + 1))"

text \<open>The notification, an access to a port or to a register.\<close>

definition rng_notify :: "arch \<Rightarrow> 'e bus \<Rightarrow> virtio_rng \<Rightarrow> 'e \<Rightarrow> 'e" where
  "rng_notify a b c = (if rng_uses_ports a c then port_out16 b (ucast (rng_io_base c) + VIRTIO_PCI_QUEUE_NOTIFY) 0
     else bus_write32 b (rng_io_base c + ucast VIRTIO_MMIO_QUEUE_NOTIFY) 0)"

lemma rng_notify_access:
  "(if rng_transport c = VIRTIO_TRANSPORT_PCI then virtio_write16 a b c VIRTIO_MMIO_QUEUE_NOTIFY 0
    else virtio_write32 a b c VIRTIO_MMIO_QUEUE_NOTIFY 0) = command (rng_notify a b c)"
  by (auto simp: virtio_write16_def virtio_write32_def rng_notify_def virtio_translate_offset_def rng_uses_ports_def
      virtio_reg_defs mmio_write32_def io_defs)

lemma rng_desc_written:
  "mput (mput (mput (mput m k (le64 x)) (k + 8) (le32 y)) (k + 12) (le16 u)) (k + 14) (le16 v) =
   mput m k (le64 x @ le32 y @ le16 u @ le16 v)"
  using mput_mput_append [of m k "le64 x" "le32 y"] mput_mput_append [of m k "le64 x @ le32 y" "le16 u"]
    mput_mput_append [of m k "le64 x @ le32 y @ le16 u" "le16 v"] by simp

lemma rng_dma: "dma_hw b self RNG_SIZE own mem \<Longrightarrow> dma_memory b self RNG_SIZE own mem"
  by (rule dma_memory.intro)

lemma rng_submit_request:
  assumes hw: "dma_hw b (rng_self c) RNG_SIZE rng_own mem" and i: "i < 8"
    and idx: "mget (mem (env w)) rng_avail_idx_at 2 = le16 idx"
  shows "wp (rng_submit a b c i sz) (\<lambda>_ w'. \<exists>e. env w' = rng_notify a b c e \<and>
     knows rng_own mem e (rng_request (rng_self c) i idx sz (mem (env w)))) w"
proof -
  note dm = rng_dma [OF hw]
  have r: "unat idx mod 8 < 8" by simp
  have own: "{rng_avail_idx_at..<rng_avail_idx_at + 2} \<subseteq> rng_own" by (auto simp: rng_own_def rng_layout)
  have idx1: "mget (mput (mem (env w)) (rng_desc_at i) bs) rng_avail_idx_at 2 = le16 idx" if "length bs = 16" for bs
    using i idx that by (simp add: mget_mput_other rng_layout)
  have idx2: "mget (mput m (rng_avail_ring_at (unat idx mod 8)) (le16 v)) rng_avail_idx_at 2 = mget m rng_avail_idx_at 2" for m v
    by (simp add: mget_mput_other rng_layout)
  show ?thesis
    unfolding rng_submit_def rng_field_def rng_notify_access rng_request_def
    apply (rule wp_seq [OF dma_memory.at_writes(4) [OF dm dma_at_refl]], use i in \<open>simp add: rng_layout\<close>)
    apply (rule wp_seq [OF dma_memory.at_writes(3) [OF dm]], assumption, use i in \<open>simp add: rng_layout\<close>)
    apply (rule wp_seq [OF dma_memory.at_writes(2) [OF dm]], assumption, use i in \<open>simp add: rng_layout\<close>)
    apply (rule wp_seq [OF dma_memory.at_writes(2) [OF dm]], assumption, use i in \<open>simp add: rng_layout\<close>)
    apply (simp only: rng_desc_written)
    apply (rule wp_seq [OF dma_view.at_read16 [OF dma_memory_view [OF dm]]], assumption, rule own)
    apply (elim conjE, simp only: idx1 length_append length_le64 length_le16 length_le32, drule le16_inj, hypsubst)
    apply (rule wp_seq [OF dma_memory.at_writes(2) [OF dm]], assumption, use r in \<open>simp add: rng_layout\<close>)
    apply (rule wp_seq [OF dma_view.at_read16 [OF dma_memory_view [OF dm]]], assumption, rule own)
    apply (elim conjE, simp only: VIRTIO_RNG_QUEUE_SIZE_def idx2, drule trans [OF _ idx1], simp, drule le16_inj, hypsubst)
    apply (rule wp_seq [OF dma_memory.at_writes(2) [OF dm]], assumption, simp add: rng_layout)
    apply (simp only: wp_command)
    apply (rule exI, rule conjI, simp, rule dma_at_knows, assumption)
    done
qed

lemma rng_request_bytes:
  assumes "i < 8"
  shows "mget (rng_request self i idx sz m) (rng_desc_at i) 16 =
      le64 (self + word_of_nat rng_buffer_at) @ le32 (word_of_nat sz) @ le16 VRING_DESC_F_WRITE @ le16 0"
    "mget (rng_request self i idx sz m) (rng_avail_ring_at (unat idx mod 8)) 2 = le16 (word_of_nat i)"
    "mget (rng_request self i idx sz m) rng_avail_idx_at 2 = le16 (idx + 1)"
    "j < 8 \<Longrightarrow> j \<noteq> i \<Longrightarrow> mget (rng_request self i idx sz m) (rng_desc_at j) 16 = mget m (rng_desc_at j) 16"
    "j < 8 \<Longrightarrow> j \<noteq> unat idx mod 8 \<Longrightarrow> mget (rng_request self i idx sz m) (rng_avail_ring_at j) 2 = mget m (rng_avail_ring_at j) 2"
proof -
  have apart: "n * j + n \<le> n * i \<or> n * i + n \<le> n * j" if "j \<noteq> i" for n i j :: nat
    using that by (metis Suc_leI mult_Suc_right mult_le_mono2 add.commute linorder_neqE_nat)
  show "mget (rng_request self i idx sz m) (rng_desc_at j) 16 = mget m (rng_desc_at j) 16" if "j < 8" "j \<noteq> i"
    using assms that apart [of j i 16] by (auto simp: rng_request_def mget_mput_other rng_layout)
  show "mget (rng_request self i idx sz m) (rng_avail_ring_at j) 2 = mget m (rng_avail_ring_at j) 2"
    if "j < 8" "j \<noteq> unat idx mod 8"
    using assms that apart [of j "unat idx mod 8" 2] by (auto simp: rng_request_def mget_mput_other rng_layout)
qed (use assms in \<open>auto simp: rng_request_def mget_mput_other rng_layout\<close>)

text \<open>
  A read request is complete when the device hears of it. The last access is the notification; at that moment the
  descriptor taken describes the data buffer as writable with the size asked for and no successor, the next slot of
  the ring names that descriptor, the ring's index has moved on by one, and every other descriptor and slot is as it
  was.
\<close>

theorem virtio_rng_submit_posts:
  assumes hw: "dma_hw b (rng_self c) RNG_SIZE rng_own mem" and i: "i < 8"
    and idx: "mget (mem (env w)) rng_avail_idx_at 2 = le16 idx"
  shows "wp (rng_submit a b c i sz) (\<lambda>_ w'. \<exists>e. env w' = rng_notify a b c e \<and>
     mget (mem e) (rng_desc_at i) 16 =
       le64 (rng_self c + word_of_nat rng_buffer_at) @ le32 (word_of_nat sz) @ le16 VRING_DESC_F_WRITE @ le16 0 \<and>
     mget (mem e) (rng_avail_ring_at (unat idx mod 8)) 2 = le16 (word_of_nat i) \<and>
     mget (mem e) rng_avail_idx_at 2 = le16 (idx + 1) \<and>
     (\<forall>j < 8. j \<noteq> i \<longrightarrow> mget (mem e) (rng_desc_at j) 16 = mget (mem (env w)) (rng_desc_at j) 16) \<and>
     (\<forall>j < 8. j \<noteq> unat idx mod 8 \<longrightarrow> mget (mem e) (rng_avail_ring_at j) 2 = mget (mem (env w)) (rng_avail_ring_at j) 2)) w"
proof (rule wp_mono [OF rng_submit_request [OF hw i idx]], elim exE conjE)
  fix w' e
  assume w': "env w' = rng_notify a b c e" and m: "knows rng_own mem e (rng_request (rng_self c) i idx sz (mem (env w)))"
  have desc: "mget (mem e) (rng_desc_at j) 16 = mget (rng_request (rng_self c) i idx sz (mem (env w))) (rng_desc_at j) 16" if "j < 8" for j
    using that by (intro knows_mget [OF m]) (auto simp: rng_own_def rng_layout)
  have ring: "mget (mem e) (rng_avail_ring_at j) 2 = mget (rng_request (rng_self c) i idx sz (mem (env w))) (rng_avail_ring_at j) 2" if "j < 8" for j
    using that by (intro knows_mget [OF m]) (auto simp: rng_own_def rng_layout)
  have idx': "mget (mem e) rng_avail_idx_at 2 = mget (rng_request (rng_self c) i idx sz (mem (env w))) rng_avail_idx_at 2"
    by (intro knows_mget [OF m]) (auto simp: rng_own_def rng_layout)
  show "\<exists>e. env w' = rng_notify a b c e \<and>
     mget (mem e) (rng_desc_at i) 16 =
       le64 (rng_self c + word_of_nat rng_buffer_at) @ le32 (word_of_nat sz) @ le16 VRING_DESC_F_WRITE @ le16 0 \<and>
     mget (mem e) (rng_avail_ring_at (unat idx mod 8)) 2 = le16 (word_of_nat i) \<and>
     mget (mem e) rng_avail_idx_at 2 = le16 (idx + 1) \<and>
     (\<forall>j < 8. j \<noteq> i \<longrightarrow> mget (mem e) (rng_desc_at j) 16 = mget (mem (env w)) (rng_desc_at j) 16) \<and>
     (\<forall>j < 8. j \<noteq> unat idx mod 8 \<longrightarrow> mget (mem e) (rng_avail_ring_at j) 2 = mget (mem (env w)) (rng_avail_ring_at j) 2)"
    using w' desc ring idx' rng_request_bytes [OF i] i by (intro exI [of _ e]) simp
qed

section \<open>Collecting the answer\<close>

text \<open>The poll ends with the count at which the index had moved, or with 0.\<close>

lemma rng_poll_bound:
  fixes w :: "('e, 'z) world_scheme"
  shows "wp (rng_poll b c n) (\<lambda>m _. m \<le> n) w"
proof (induction n arbitrary: w)
  case 0
  then show ?case by (subst rng_poll.simps) (simp add: wp_simps)
next
  case (Suc n)
  have "wp (rng_poll b c n) (\<lambda>m _. m \<le> Suc n) w" for w :: "('e, 'z) world_scheme" by (rule wp_mono [OF Suc.IH]) simp
  then show ?case by (subst rng_poll.simps) (simp add: wp_simps)
qed


lemma rng_collect_any:
  "wp (rng_collect b c i sz) (\<lambda>(r, c') _. case r of
     None \<Rightarrow> c' = c\<lparr>rng_desc_in_use := (rng_desc_in_use c)[i := False]\<rparr>
   | Some bs \<Rightarrow> length bs \<le> sz \<and> (\<exists>u. length u = length (rng_desc_in_use c) \<and>
       c' = c\<lparr>rng_last_used_idx := rng_last_used_idx c + 1, rng_desc_in_use := u\<rparr>)) w"
proof -
  have same: "\<exists>u. length u = length (rng_desc_in_use c) \<and>
      c\<lparr>rng_last_used_idx := x\<rparr> = c\<lparr>rng_last_used_idx := x, rng_desc_in_use := u\<rparr>" for x
    by (rule exI [of _ "rng_desc_in_use c"]) simp
  have upd: "\<exists>u. length u = length (rng_desc_in_use c) \<and>
      c\<lparr>rng_last_used_idx := x, rng_desc_in_use := (rng_desc_in_use c)[j := False]\<rparr> = c\<lparr>rng_last_used_idx := x, rng_desc_in_use := u\<rparr>" for x j
    by (rule exI [of _ "(rng_desc_in_use c)[j := False]"]) simp
  show ?thesis
    unfolding rng_collect_def
    by (rule wp_seq [OF rng_poll_bound])
       (auto simp: wp_simps Let_def same upd intro!: wp_mono [OF wp_copy_out_length])
qed

lemma rng_read_length: "wp (virtio_rng_read a b ctx buffer sz) (\<lambda>(r, _) _. \<forall>bs. r = Some bs \<longrightarrow> length bs \<le> min sz 64) w"
proof (cases "find (\<lambda>i. \<not> rng_desc_in_use (the ctx) ! i) [0..<VIRTIO_RNG_QUEUE_SIZE]")
  case None
  then show ?thesis by (cases ctx) (simp_all add: virtio_rng_read_def wp_simps Let_def)
next
  case (Some i)
  show ?thesis
    using Some unfolding virtio_rng_read_def
    by (cases ctx)
       (auto simp: wp_simps Let_def intro!: wp_True [of "\<lambda>_. wp _ _"] wp_mono [OF rng_collect_any] split: option.splits)
qed

text \<open>
  C31: Whatever the hardware answers, a read ends, and it returns at most the bytes asked for and at most 64; it needs
  an initialised context, a buffer and a free descriptor. A read that fails leaves the context as it was: the
  descriptor it had taken is free again. A read that succeeds advances the index of the used ring by one.
\<close>

theorem virtio_rng_read_safe:
  assumes "\<forall>c. ctx = Some c \<longrightarrow> length (rng_desc_in_use c) = 8"
  shows "wp (virtio_rng_read a b ctx buffer sz) (\<lambda>(r, ctx') _. case r of
     None \<Rightarrow> ctx' = ctx
   | Some bs \<Rightarrow> buffer \<and> length bs \<le> min sz 64 \<and> (\<exists>c u. ctx = Some c \<and> rng_initialized c \<and> False \<in> set (rng_desc_in_use c) \<and>
       length u = 8 \<and> ctx' = Some (c\<lparr>rng_last_used_idx := rng_last_used_idx c + 1, rng_desc_in_use := u\<rparr>))) w"
proof (cases "\<exists>c. ctx = Some c \<and> buffer \<and> sz \<noteq> 0 \<and> rng_initialized c")
  case False
  then show ?thesis
    by (cases ctx) (auto simp: virtio_rng_read_def wp_simps)
next
  case True
  then obtain c where c: "ctx = Some c" "buffer" "sz \<noteq> 0" "rng_initialized c" "length (rng_desc_in_use c) = 8"
    using assms by auto
  show ?thesis
  proof (cases "find (\<lambda>i. \<not> rng_desc_in_use c ! i) [0..<VIRTIO_RNG_QUEUE_SIZE]")
    case None
    then show ?thesis using c by (simp add: virtio_rng_read_def wp_simps)
  next
    case (Some i)
    then have i: "i < 8" "\<not> rng_desc_in_use c ! i"
      by (auto simp: find_Some_iff VIRTIO_RNG_QUEUE_SIZE_def)
    then have free: "False \<in> set (rng_desc_in_use c)" "(rng_desc_in_use c)[i := True, i := False] = rng_desc_in_use c"
      using c(5) nth_mem [of i "rng_desc_in_use c"] list_update_id [of "rng_desc_in_use c" i] by auto
    define n where "n = (if sz > 64 then 64 else sz)"
    have n: "n \<le> min sz 64" by (simp add: n_def)
    show ?thesis
      using c Some unfolding virtio_rng_read_def
      apply (simp add: Let_def flip: n_def)
      apply (rule wp_seq [OF wp_True [where Q = "\<lambda>_ _. True"]], simp)
      apply (rule wp_seq [OF rng_collect_any])
      using n free by (auto simp: wp_simps split: option.splits)
  qed
qed




section \<open>Initialisation and shutdown\<close>

text \<open>A read of the status register.\<close>

definition rng_status :: "arch \<Rightarrow> 'e bus \<Rightarrow> virtio_rng \<Rightarrow> 'e \<Rightarrow> u8 \<times> 'e" where
  "rng_status a b c e = (if rng_uses_ports a c then port_in8 b (ucast (rng_io_base c) + VIRTIO_PCI_STATUS) e
     else apfst ucast (bus_read32 b (rng_io_base c + ucast VIRTIO_MMIO_STATUS) e))"

lemma rng_status_access: "wp (virtio_read8 a b c VIRTIO_MMIO_STATUS) Q w = wp (access (rng_status a b c)) Q w"
  by (simp add: virtio_read8_def rng_status_def virtio_translate_offset_def rng_uses_ports_def
      virtio_reg_defs mmio_read32_def io_defs wp_simps Let_def)

lemma rng_init_queue_legacy: "wp (rng_init_queue a b c version) (\<lambda>ok _. ok \<longrightarrow> version = 1) w"
  by (cases "version = 1") (simp_all add: rng_init_queue_def wp_simps Let_def wp_True)

lemma rng_init_status_ok:
  "wp (rng_init_status a b c) (\<lambda>ok w'. ok \<longrightarrow>
     (\<exists>e. env w' = snd (rng_status a b c e) \<and> fst (rng_status a b c e) AND VIRTIO_STATUS_DRIVER_OK \<noteq> 0)) w"
  unfolding rng_init_status_def
  by (rule wp_seq [OF wp_True [where Q = "\<lambda>_ _. True"]], simp) (auto simp: wp_bind rng_status_access wp_simps)

lemma rng_init_accepts:
  "wp (virtio_rng_init_context a b (Some c) (Some d)) (\<lambda>(r, c') w'. \<exists>c1. c' = Some c1 \<and>
     rng_self c1 = rng_self c \<and> rng_desc_in_use c1 = rng_desc_in_use c \<and> rng_io_base c1 = reg_base d \<and>
     rng_transport c1 = (if reg_base d < 0x10000 then VIRTIO_TRANSPORT_PCI else VIRTIO_TRANSPORT_MMIO) \<and>
     (r = -1 \<and> rng_initialized c1 = rng_initialized c \<or>
      r = 0 \<and> rng_initialized c1 \<and> rng_last_used_idx c1 = 0 \<and>
      (reg_base d < 0x10000 \<or> fst (bus_read32 b (reg_base d + ucast VIRTIO_MMIO_VERSION) (env w)) = 1) \<and>
      (\<exists>e. env w' = snd (rng_status a b c1 e) \<and> fst (rng_status a b c1 e) AND VIRTIO_STATUS_DRIVER_OK \<noteq> 0))) w"
proof -
  define c0 where "c0 = c\<lparr>rng_io_base := reg_base d,
    rng_transport := (if reg_base d < 0x10000 then VIRTIO_TRANSPORT_PCI else VIRTIO_TRANSPORT_MMIO)\<rparr>"
  have st: "rng_status a b (c0\<lparr>rng_last_used_idx := x, rng_initialized := y\<rparr>) = rng_status a b (c0\<lparr>rng_last_used_idx := x\<rparr>)" for x y
    by (auto simp: rng_status_def rng_uses_ports_def fun_eq_iff)
  have ver: "wp (virtio_read32 a b c0 VIRTIO_MMIO_VERSION)
      (\<lambda>v _. reg_base d \<ge> 0x10000 \<longrightarrow> v = fst (bus_read32 b (reg_base d + ucast VIRTIO_MMIO_VERSION) (env w))) w"
    by (simp add: virtio_read32_def c0_def virtio_translate_offset_def rng_uses_ports_def virtio_reg_defs mmio_read32_def
        virtio_pci_read32_def io_defs wp_simps Let_def flip: not_less)
  show ?thesis
    unfolding virtio_rng_init_context_def
    apply (simp only: Let_def prod.case option.case flip: c0_def)
    apply (rule wp_seq [OF ver])
    apply (simp only: wp_if wp_return, rule if_bool_eq_conj [THEN iffD2], intro conjI impI)
    subgoal by (auto simp: c0_def)
    apply (rule wp_seq [OF wp_True [where Q = "\<lambda>_ _. True"]], simp)
    apply (simp only: wp_if wp_return, rule if_bool_eq_conj [THEN iffD2], intro conjI impI)
    subgoal by (auto simp: c0_def)
    apply (rule wp_seq [OF rng_init_queue_legacy])
    apply (simp only: wp_if wp_return, rule if_bool_eq_conj [THEN iffD2], intro conjI impI)
    subgoal by (auto simp: c0_def)
    apply (rule wp_seq [OF rng_init_status_ok])
    apply (simp only: wp_if wp_return, rule if_bool_eq_conj [THEN iffD2], intro conjI impI)
    subgoal by (auto simp: c0_def)
    subgoal by (auto simp: st) (auto simp: c0_def split: if_splits)
    done
qed

text \<open>
  Initialisation accepts a device only in the legacy layout, and only when the device has taken over the final
  status. A device behind memory-mapped registers with any version but 1 is rejected, version 2 included, which the
  first test of the version lets pass. A rejection leaves the context uninitialised if it was; success starts the used
  ring at 0. In both cases the address of the context and its record of descriptors in use are kept.
\<close>

theorem virtio_rng_init_legacy_only:
  "wp (virtio_rng_init_context a b (Some c) (Some d)) (\<lambda>(r, c') w'. \<exists>c1. c' = Some c1 \<and>
     rng_self c1 = rng_self c \<and> rng_desc_in_use c1 = rng_desc_in_use c \<and> rng_io_base c1 = reg_base d \<and>
     rng_transport c1 = (if reg_base d < 0x10000 then VIRTIO_TRANSPORT_PCI else VIRTIO_TRANSPORT_MMIO) \<and>
     (r = -1 \<and> rng_initialized c1 = rng_initialized c \<or>
      r = 0 \<and> rng_initialized c1 \<and> rng_last_used_idx c1 = 0 \<and>
      (reg_base d < 0x10000 \<or> fst (bus_read32 b (reg_base d + ucast VIRTIO_MMIO_VERSION) (env w)) = 1) \<and>
      (\<exists>e. env w' = snd (rng_status a b c1 e) \<and> fst (rng_status a b c1 e) AND VIRTIO_STATUS_DRIVER_OK \<noteq> 0))) w"
  by (rule rng_init_accepts)

section \<open>A device\<close>

text \<open>
  A device that answers a notification with 16 bytes in the buffer of descriptor 0. It meets the contract on the
  driver's part of the memory, which it does not write, and the contract for reads on its own part.
\<close>

definition sample_rng :: virtio_rng where
  "sample_rng = \<lparr>rng_self = 0x1000000, rng_io_base = 0x10001000, rng_initialized = True, rng_transport = VIRTIO_TRANSPORT_MMIO,
     rng_last_used_idx = 0, rng_desc_in_use = replicate 8 False\<rparr>"

definition sample_answer :: "cmem \<Rightarrow> cmem" where
  "sample_answer m = mput (mput (mput (mput m (rng_used_id_at 0) (le32 0)) (rng_used_len_at 0) (le32 16)) rng_used_idx_at (le16 1))
     rng_buffer_at (replicate 16 7)"

definition sample_rng_bus :: "cmem bus" where
  "sample_rng_bus = (ram_bus 0x1000000 RNG_SIZE)\<lparr>bus_write32 := \<lambda>a v m. if a = 0x10001050 then sample_answer m
     else bus_write32 (ram_bus 0x1000000 RNG_SIZE) a v m\<rparr>"

definition sample_rng_world :: "cmem world" where
  "sample_rng_world = \<lparr>env = (\<lambda>_. 0), console = [], logger = log_boot\<rparr>"

lemma sample_rng_reads: "own \<subseteq> {..<RNG_SIZE} \<Longrightarrow> dma_reads sample_rng_bus 0x1000000 own (\<lambda>m. m)"
  using ram_bus_dma [of RNG_SIZE own "0x1000000"]
  by (simp add: dma_hw_def dma_reads_def sample_rng_bus_def RNG_SIZE_def)

lemma sample_answer_own: "i \<in> rng_own \<Longrightarrow> sample_answer m i = m i"
  by (simp add: sample_answer_def rng_own_def mput_other rng_layout)

lemma sample_rng_hw: "dma_hw sample_rng_bus 0x1000000 RNG_SIZE rng_own (\<lambda>m. m)"
proof -
  have sub: "rng_own \<subseteq> {..<RNG_SIZE}" by (auto simp: rng_own_def rng_layout)
  have ne: "(0x1000000 + word_of_nat k :: u64) \<noteq> 0x10001050" if "k + 4 \<le> RNG_SIZE" for k
    using that outside_apart [of "0x1000000" RNG_SIZE "0x10001050"] by (auto simp: outside_def RNG_SIZE_def)
  have "dma_writes (ram_bus 0x1000000 RNG_SIZE) 0x1000000 RNG_SIZE rng_own (\<lambda>m. m)"
    using ram_bus_dma [OF _ sub, of "0x1000000"] by (simp add: dma_hw_def RNG_SIZE_def)
  then have "dma_writes sample_rng_bus 0x1000000 RNG_SIZE rng_own (\<lambda>m. m)"
    using ne by (simp add: dma_writes_def sample_rng_bus_def sample_answer_own)
  then show ?thesis using sample_rng_reads [OF sub] by (simp add: dma_hw_def)
qed

interpretation rng_driver: dma_memory sample_rng_bus "0x1000000" RNG_SIZE rng_own "\<lambda>m. m"
  by (rule dma_memory.intro) (rule sample_rng_hw)


lemma sample_notify: "rng_io_base c = 0x10001000 \<Longrightarrow> rng_notify RISCV sample_rng_bus c = sample_answer"
  by (simp add: rng_notify_def rng_uses_ports_def sample_rng_bus_def virtio_reg_defs)

lemma sample_rng_idx: "mget (env sample_rng_world) rng_avail_idx_at 2 = le16 0"
  by (simp add: sample_rng_world_def mget_def le16_def upt_rec)

theorem virtio_rng_submit_posts_witness:
  "wp (rng_submit RISCV sample_rng_bus sample_rng 3 20) (\<lambda>_ w'. \<exists>e. env w' = sample_answer e \<and>
     mget e (rng_avail_ring_at 0) 2 = [3, 0] \<and> mget e rng_avail_idx_at 2 = [1, 0]) sample_rng_world"
  by (rule wp_mono [OF virtio_rng_submit_posts [of sample_rng_bus sample_rng "\<lambda>m. m" 3 sample_rng_world 0]])
     (use sample_rng_hw sample_rng_idx in \<open>auto simp: sample_rng_def sample_notify le16_def\<close>)

theorem virtio_rng_read_safe_witness:
  "wp (virtio_rng_read RISCV sample_rng_bus (Some sample_rng) True 100) (\<lambda>(r, c') _. \<forall>bs. r = Some bs \<longrightarrow> length bs \<le> 64) sample_rng_world"
  by (rule wp_mono [OF virtio_rng_read_safe [of "Some sample_rng"]]) (auto simp: sample_rng_def)


end
