(* ===== verification/Random_Service.thy ===== *)
theory Random_Service
  imports Virtio_Rng
begin

text \<open>
  The random service of \<^verbatim>\<open>apps/random/random.c\<close>: a software generator, xorshift64, seeded from the device list,
  and up to four hardware devices, acquired through the resource manager and used in turn, with the software
  generator as the fallback. The statics \<^verbatim>\<open>random_state\<close> and \<^verbatim>\<open>prng_state\<close> extend the world of the drivers.
\<close>

definition MAX_HARDWARE_RNG_DEVICES :: nat where "MAX_HARDWARE_RNG_DEVICES = 4"

record random_service =
  rng_contexts :: "virtio_rng list"
  rnd_resources :: "nat option list"
  device_count :: nat
  next_device_index :: nat
  rnd_initialized :: bool

record 'e rand_world = "'e world" +
  random_state :: "random_service"
  prng_state :: u64

section \<open>The software generator\<close>

definition xorshift64 :: "u64 \<Rightarrow> u64" where
  "xorshift64 state = (let x = state; x = x XOR push_bit 13 x; x = x XOR drop_bit 7 x; x = x XOR push_bit 17 x in x)"

definition BASE_SEED :: u64 where "BASE_SEED = 0x123456789ABCDEF0"

text \<open>One round of the loop over the devices, and the loop; \<open>left\<close> is \<^verbatim>\<open>16 - device_count\<close>.\<close>

definition prng_mix :: "device \<Rightarrow> u64 \<Rightarrow> u64" where
  "prng_mix dev seed =
     (let seed = seed XOR reg_base dev;
          seed = seed XOR push_bit 32 (ucast (vendor_id dev));
          seed = seed XOR push_bit 16 (ucast (device_id dev)) in
      push_bit 7 seed OR drop_bit 57 seed)"

fun prng_mix_devices :: "nat \<Rightarrow> registry \<Rightarrow> nat option \<Rightarrow> u64 \<Rightarrow> u64" where
  "prng_mix_devices left reg None seed = seed"
| "prng_mix_devices 0 reg (Some d) seed = seed"
| "prng_mix_devices (Suc left) reg (Some d) seed =
     prng_mix_devices left reg (devices_get_next reg (Some d)) (prng_mix (device_storage reg ! d) seed)"

definition prng_init :: "registry \<Rightarrow> u64" where
  "prng_init reg = (let seed = prng_mix_devices 16 reg (devices_get_first reg) BASE_SEED in
     if seed = 0 then BASE_SEED else seed)"

fun prng_fill_bytes :: "u64 \<Rightarrow> nat \<Rightarrow> u8 list \<times> u64" where
  "prng_fill_bytes st len =
     (if len \<ge> 8 then
        let val = xorshift64 st; (bs, st) = prng_fill_bytes val (len - 8) in
        (map (\<lambda>i. ucast (drop_bit (i * 8) val AND 0xFF)) [0..<8] @ bs, st)
      else if len > 0 then
        let val = xorshift64 st in (map (\<lambda>i. ucast (drop_bit (i * 8) val AND 0xFF)) [0..<len], val)
      else ([], st))"

declare prng_fill_bytes.simps [simp del]

section \<open>The hardware\<close>

text \<open>A \<^verbatim>\<open>size_t\<close> converted to \<^verbatim>\<open>int\<close>.\<close>

definition int_of_size :: "nat \<Rightarrow> int" where
  "int_of_size n = sint (word_of_nat n :: u32)"

definition prng_fill :: "nat \<Rightarrow> (('e, 'z) rand_world_scheme, u8 list) state" where
  "prng_fill len = do {
     st \<leftarrow> gets prng_state;
     let (bs, st) = prng_fill_bytes st len;
     modify (prng_state_update (\<lambda>_. st));
     State_Monad.return bs }"

text \<open>The context of a device is an entry of \<^verbatim>\<open>random_state.rng_contexts\<close>; \<open>None\<close> is a null context.\<close>

definition hardware_read_bytes ::
  "arch \<Rightarrow> 'e bus \<Rightarrow> nat option \<Rightarrow> nat \<Rightarrow> (('e, 'z) rand_world_scheme, int \<times> u8 list) state" where
  "hardware_read_bytes a b ctx len = (case ctx of
     None \<Rightarrow> do {
       print (''  virtio-rng: invalid context, falling back to PRNG'' @ [CHR 0x0A]);
       bs \<leftarrow> prng_fill len;
       State_Monad.return (int_of_size len, bs) }
   | Some i \<Rightarrow> do {
       c \<leftarrow> gets (\<lambda>w. rng_contexts (random_state w) ! i);
       (r, c') \<leftarrow> virtio_rng_read a b (Some c) True len;
       (case c' of None \<Rightarrow> State_Monad.return ()
        | Some c' \<Rightarrow> modify (\<lambda>w. w\<lparr>random_state := (random_state w)\<lparr>rng_contexts := (rng_contexts (random_state w))[i := c']\<rparr>\<rparr>));
       let result = (case r of None \<Rightarrow> - 1 | Some bs \<Rightarrow> int (length bs));
       if result = int_of_size len then State_Monad.return (result, case r of None \<Rightarrow> [] | Some bs \<Rightarrow> bs)
       else do {
         print (''  virtio-rng read failed, falling back to PRNG'' @ [CHR 0x0A]);
         bs \<leftarrow> prng_fill len;
         State_Monad.return (int_of_size len, bs) } })"

text \<open>The driver descriptor, with the hooks acting on the contexts of the service.\<close>

definition virtio_rng_driver :: "arch \<Rightarrow> 'e bus \<Rightarrow> ('e, 'z) rand_world_scheme driver" where
  "virtio_rng_driver a b = \<lparr>drv_name = ''virtio-rng'', drv_version = ''0.1.0'', drv_type = DRIVER_TYPE_RANDOM,
     drv_id_table = Some virtio_rng_id_table,
     drv_init = Some (\<lambda>ctx d (reg, w).
       case run_state (virtio_rng_init_context a b (Some (rng_contexts (random_state w) ! ctx)) (Some (device_storage reg ! d))) w of
         ((r, c'), w) \<Rightarrow> (r, reg, w\<lparr>random_state := (random_state w)\<lparr>rng_contexts :=
           (case c' of None \<Rightarrow> rng_contexts (random_state w) | Some c' \<Rightarrow> (rng_contexts (random_state w))[ctx := c'])\<rparr>\<rparr>)),
     drv_deinit = Some (\<lambda>ctx (reg, w).
       case run_state (virtio_rng_deinit_context a b (Some (rng_contexts (random_state w) ! ctx))) w of
         (c', w) \<Rightarrow> (reg, w\<lparr>random_state := (random_state w)\<lparr>rng_contexts :=
           (case c' of None \<Rightarrow> rng_contexts (random_state w) | Some c' \<Rightarrow> (rng_contexts (random_state w))[ctx := c'])\<rparr>\<rparr>))\<rparr>"

section \<open>The interface\<close>

definition say :: "string \<Rightarrow> ('e, 'z) rand_world_scheme sys \<Rightarrow> ('e, 'z) rand_world_scheme sys" where
  "say s w = apsnd (console_update (\<lambda>t. t @ s @ [CHR 0x0A])) w"

definition random_hardware_init :: "arch \<Rightarrow> 'e bus \<Rightarrow>
  ('e, 'z) rand_world_scheme res_state \<Rightarrow> ('e, 'z) rand_world_scheme sys \<Rightarrow>
  (int \<times> ('e, 'z) rand_world_scheme res_state \<times> ('e, 'z) rand_world_scheme sys) option" where
  "random_hardware_init a b rs w =
     (if device_count (random_state (snd w)) \<ge> MAX_HARDWARE_RNG_DEVICES then
        Some (-1, rs, say ''  Maximum hardware RNG devices already acquired'' (say ''Initializing hardware RNG...'' w))
      else let device_idx = device_count (random_state (snd w)) in do {
        (resource, rs, w) \<leftarrow> resource_acquire_available (Some (virtio_rng_driver a b)) (Some device_idx) rs
          (say ''Initializing hardware RNG...'' w);
        (case resource of
           Some r \<Rightarrow> Some (0, rs, say ''  Hardware RNG acquired (virtio-rng)'' (apsnd (\<lambda>w. w\<lparr>random_state := (random_state w)\<lparr>
             rnd_resources := (rnd_resources (random_state w))[device_idx := Some r],
             device_count := device_count (random_state w) + 1\<rparr>\<rparr>) w))
         | None \<Rightarrow> Some (-1, rs, say ''  Hardware RNG unavailable, using software PRNG (xorshift64)'' w)) })"

definition random_get_bytes :: "arch \<Rightarrow> 'e bus \<Rightarrow> registry \<Rightarrow> bool \<Rightarrow> nat \<Rightarrow>
  (('e, 'z) rand_world_scheme, int \<times> u8 list) state" where
  "random_get_bytes a b reg buffer len =
     (if \<not> buffer \<or> len = 0 then State_Monad.return (-1, [])
      else do {
        ready \<leftarrow> gets (\<lambda>w. rnd_initialized (random_state w));
        (if \<not> ready then modify (\<lambda>w. w\<lparr>prng_state := prng_init reg, random_state := (random_state w)\<lparr>rnd_initialized := True\<rparr>\<rparr>)
         else State_Monad.return ());
        n \<leftarrow> gets (\<lambda>w. device_count (random_state w));
        if n > 0 then do {
          device_idx \<leftarrow> gets (\<lambda>w. next_device_index (random_state w));
          modify (\<lambda>w. w\<lparr>random_state := (random_state w)\<lparr>next_device_index :=
            (next_device_index (random_state w) + 1) mod device_count (random_state w)\<rparr>\<rparr>);
          hardware_read_bytes a b (Some device_idx) len }
        else do {
          bs \<leftarrow> prng_fill len;
          State_Monad.return (int_of_size len, bs) } })"

section \<open>The generator\<close>

lemma xor_push_bit_zero:
  assumes "x XOR push_bit k x = (0 :: u64)" "0 < k"
  shows "x = 0"
proof (rule bit_word_eqI)
  fix n
  have "\<not> bit x n" if "n < 64" for n
    using that
  proof (induction n rule: less_induct)
    case (less n)
    have "bit (x XOR push_bit k x) n = (bit x n \<noteq> (k \<le> n \<and> bit x (n - k)))"
      using less.prems by (simp add: bit_simps)
    then show ?case using assms less by (cases "k \<le> n") auto
  qed
  then show "bit x n = bit 0 n" if "n < LENGTH(64)" using that by simp
qed

lemma xor_drop_bit_zero:
  assumes "x XOR drop_bit k x = (0 :: u64)" "0 < k"
  shows "x = 0"
proof (rule bit_word_eqI)
  have "\<not> bit x n" for n
  proof (induction "64 - n" arbitrary: n rule: less_induct)
    case (less n)
    have "bit (x XOR drop_bit k x) n = (bit x n \<noteq> bit x (n + k))"
      by (simp add: bit_simps add.commute)
    moreover have "\<not> bit x (n + k)" if "n < 64" using less [of "n + k"] that assms(2) by simp
    moreover have "\<not> bit x n" if "64 \<le> n" using that bit_imp_le_length [of x n] by auto
    ultimately show ?case using assms(1) by (cases "n < 64") auto
  qed
  then show "bit x n = bit 0 n" for n by simp
qed

text \<open>A linear map that sends only 0 to 0 is one-to-one.\<close>

lemma inj_linear:
  fixes f :: "u64 \<Rightarrow> u64"
  assumes "\<And>x y. f (x XOR y) = f x XOR f y" "\<And>x. f x = 0 \<Longrightarrow> x = 0"
  shows "inj f"
proof (rule injI)
  fix x y assume "f x = f y"
  then have "f (x XOR y) = 0" by (subst assms(1)) simp
  then have "x XOR y = 0" by (rule assms(2))
  then have "x XOR (x XOR y) = x XOR 0" by (rule arg_cong)
  then show "x = y" by (simp flip: xor.assoc)
qed

lemma xorshift64_inj: "inj xorshift64"
proof -
  have p: "inj (\<lambda>x :: u64. x XOR push_bit k x)" if "0 < k" for k
    using that by (intro inj_linear) (auto simp: push_bit_xor ac_simps intro: xor_push_bit_zero)
  have d: "inj (\<lambda>x :: u64. x XOR drop_bit k x)" if "0 < k" for k
    using that by (intro inj_linear) (auto simp: drop_bit_xor ac_simps intro: xor_drop_bit_zero)
  have eq: "xorshift64 = (\<lambda>x. x XOR push_bit 17 x) \<circ> (\<lambda>x. x XOR drop_bit 7 x) \<circ> (\<lambda>x. x XOR push_bit 13 x)"
    by (simp add: fun_eq_iff xorshift64_def Let_def)
  show ?thesis unfolding eq by (intro inj_compose p d) simp_all
qed

lemma xorshift64_nonzero: "xorshift64 x = 0 \<longleftrightarrow> x = 0"
proof -
  have "xorshift64 0 = 0" by (simp add: xorshift64_def)
  then show ?thesis using xorshift64_inj by (metis injD)
qed

definition prng_byte :: "u64 \<Rightarrow> nat \<Rightarrow> u8" where
  "prng_byte st i = ucast (drop_bit (i mod 8 * 8) ((xorshift64 ^^ (i div 8 + 1)) st))"

lemma prng_byte_8: "prng_byte st (i + 8) = prng_byte (xorshift64 st) i"
proof -
  have "(i + 8) div 8 + 1 = Suc (i div 8 + 1)" by simp
  then show ?thesis by (simp only: prng_byte_def funpow_Suc_right o_apply mod_add_self2)
qed

lemma prng_byte_first: "i < 8 \<Longrightarrow> ucast (drop_bit (i * 8) (xorshift64 st) AND 0xFF) = prng_byte st i"
  by (simp add: prng_byte_def low_byte)

lemma prng_fill_bytes_stream:
  "prng_fill_bytes st len = (map (prng_byte st) [0..<len], (xorshift64 ^^ ((len + 7) div 8)) st)"
proof (induction st len rule: prng_fill_bytes.induct)
  case (1 st len)
  show ?case
  proof (cases "8 \<le> len")
    case True
    then have split: "[0..<len] = [0..<8] @ map (\<lambda>i. i + 8) [0..<len - 8]"
      using upt_add_eq_append [of 0 8 "len - 8"] map_add_upt [of 8 "len - 8"] by simp
    have cnt: "(len + 7) div 8 = Suc ((len - 8 + 7) div 8)" using True by simp
    show ?thesis
      using True 1 [of "xorshift64 st"]
      by (subst prng_fill_bytes.simps)
         (simp add: split cnt prng_byte_8 prng_byte_first funpow_Suc_right Let_def o_def del: upt_Suc funpow.simps)
  next
    case False
    then have "len > 0 \<Longrightarrow> (len + 7) div 8 = 1" by simp
    then show ?thesis
      using False by (subst prng_fill_bytes.simps) (auto simp: prng_byte_first Let_def)
  qed
qed

text \<open>The seed mixes the first sixteen devices of the list, in order, and is never zero.\<close>

lemma prng_mix_devices_fold:
  "linked (next_of reg) p ds \<Longrightarrow> prng_mix_devices n reg p seed = fold (\<lambda>d. prng_mix (device_storage reg ! d)) (take n ds) seed"
proof (induction ds arbitrary: n p seed)
  case (Cons d ds)
  then show ?case by (cases n) (simp_all add: devices_get_next_def)
qed simp

lemma prng_init_fold:
  assumes "reg_inv reg"
  shows "prng_init reg = (let seed = fold prng_mix (take 16 (device_storage reg)) BASE_SEED in if seed = 0 then BASE_SEED else seed)"
proof -
  have "map ((!) (device_storage reg)) (take 16 [0..<length (device_storage reg)]) = take 16 (device_storage reg)"
    by (simp only: take_map [symmetric] map_nth)
  moreover have "fold (\<lambda>d. prng_mix (device_storage reg ! d)) ds s = fold prng_mix (map ((!) (device_storage reg)) ds) s" for ds s
    by (induction ds arbitrary: s) simp_all
  ultimately have "fold (\<lambda>d. prng_mix (device_storage reg ! d)) (take 16 [0..<length (device_storage reg)]) s =
      fold prng_mix (take 16 (device_storage reg)) s" for s
    by simp
  then show ?thesis
    using assms prng_mix_devices_fold [of reg "device_list_head reg" "[0..<length (device_storage reg)]" 16 BASE_SEED]
    by (simp add: prng_init_def reg_inv_def devices_get_first_def)
qed

lemma prng_init_nonzero: "prng_init reg \<noteq> 0"
  by (simp add: prng_init_def Let_def BASE_SEED_def)

lemma xorshift64_funpow_nonzero: "(xorshift64 ^^ n) x = 0 \<longleftrightarrow> x = 0"
  by (induction n) (simp_all add: xorshift64_nonzero)

text \<open>
  C34: The software generator is sound. Its step is one-to-one and keeps the state away from zero, where it would
  stay forever; the seed is the mix of the first sixteen registered devices and not zero; and filling a buffer yields
  the bytes of the successive states, least significant first, and one state per eight bytes begun.
\<close>

theorem prng_sound:
  assumes "reg_inv reg"
  shows "inj xorshift64 \<and> (\<forall>n. (xorshift64 ^^ n) (prng_init reg) \<noteq> 0) \<and>
    prng_init reg = (let seed = fold prng_mix (take 16 (device_storage reg)) BASE_SEED in if seed = 0 then BASE_SEED else seed) \<and>
    (\<forall>len. prng_fill_bytes st len = (map (prng_byte st) [0..<len], (xorshift64 ^^ ((len + 7) div 8)) st))"
  using assms prng_init_fold xorshift64_inj prng_fill_bytes_stream prng_init_nonzero [of reg]
  by (auto simp: xorshift64_funpow_nonzero)

section \<open>The service\<close>

text \<open>
  What every operation keeps: four contexts and four resources, at most four of them in use, the index of the device
  to use next below their number, and a generator that is not stuck once it has been seeded.
\<close>

definition random_wf :: "('e, 'z) rand_world_scheme \<Rightarrow> bool" where
  "random_wf w \<longleftrightarrow> (let st = random_state w in
     length (rng_contexts st) = 4 \<and> length (rnd_resources st) = 4 \<and> device_count st \<le> 4 \<and>
     next_device_index st < max 1 (device_count st) \<and> (rnd_initialized st \<longrightarrow> prng_state w \<noteq> 0))"

definition prng_now :: "registry \<Rightarrow> ('e, 'z) rand_world_scheme \<Rightarrow> u64" where
  "prng_now reg w = (if rnd_initialized (random_state w) then prng_state w else prng_init reg)"

lemma int_of_size: "len < 2 ^ 31 \<Longrightarrow> int_of_size len = int len"
  by (simp add: int_of_size_def signed_of_nat sint_uint unsigned_of_nat take_bit_nat_eq_self signed_take_bit_int_eq_self)

lemma wp_prng_fill:
  "wp (prng_fill len) Q w =
     Q (map (prng_byte (prng_state w)) [0..<len]) (w\<lparr>prng_state := (xorshift64 ^^ ((len + 7) div 8)) (prng_state w)\<rparr>)"
  by (simp add: prng_fill_def wp_simps prng_fill_bytes_stream)

lemma hardware_read_any:
  fixes w :: "('e, 'z) rand_world_scheme" and i :: nat
  assumes "0 < len" "len < 2 ^ 31"
  defines "c \<equiv> rng_contexts (random_state w) ! i"
  shows "wp (hardware_read_bytes a b (Some i) len) (\<lambda>(r, bs) w'. r = int len \<and> length bs = len \<and>
     (\<exists>cs. length cs = length (rng_contexts (random_state w)) \<and> random_state w' = (random_state w)\<lparr>rng_contexts := cs\<rparr>) \<and>
     (bs = map (prng_byte (prng_state w)) [0..<len] \<and> prng_state w' = (xorshift64 ^^ ((len + 7) div 8)) (prng_state w) \<or>
      len \<le> 64 \<and> prng_state w' = prng_state w \<and> fst (fst (run_state (virtio_rng_read a b (Some c) True len) w)) = Some bs)) w"
proof -
  obtain r c' w1 where run: "run_state (virtio_rng_read a b (Some c) True len) w = ((r, c'), w1)"
    by (metis prod.exhaust)
  obtain e where w1: "w1 = w\<lparr>env := e\<rparr>"
    using wpD [OF wp_env_only [OF env_only_virtio_rng(3)] run] by auto
  have len': "length bs \<le> min len 64" if "r = Some bs" for bs
    using wpD [OF rng_read_length run] that by simp
  have upd: "\<exists>cs. length cs = length (rng_contexts st) \<and> st\<lparr>rng_contexts := (rng_contexts st)[i := x]\<rparr> = st\<lparr>rng_contexts := cs\<rparr>" for st x
    by (rule exI [of _ "(rng_contexts st)[i := x]"]) simp
  have same: "\<exists>cs. length cs = length (rng_contexts st) \<and> st = st\<lparr>rng_contexts := cs\<rparr>" for st
    by (rule exI [of _ "rng_contexts st"]) simp
  show ?thesis
    using assms(1,2) len' run w1
    by (cases r; cases c') (auto simp: same upd hardware_read_bytes_def wp_simps wp_known [OF run] wp_prng_fill int_of_size Let_def simp flip: c_def)
qed

text \<open>
  C32: A request of 1 to 2 ^ 31 - 1 bytes never fails and yields exactly that many bytes, whatever the hardware
  answers: either the next bytes of the software generator, seeded on first use, or, for at most 64 bytes and with a
  device acquired, what the device in turn delivered, the generator untouched. The well-formedness of the service is
  kept, so the device used next is one of those acquired.
\<close>

theorem random_get_bytes_delivers:
  fixes w :: "('e, 'z) rand_world_scheme"
  assumes wf: "random_wf w" and len: "0 < len" "len < 2 ^ 31"
  shows "wp (random_get_bytes a b reg True len) (\<lambda>(r, bs) w'. r = int len \<and> length bs = len \<and>
     random_wf w' \<and> rnd_initialized (random_state w') \<and> device_count (random_state w') = device_count (random_state w) \<and>
     (bs = map (prng_byte (prng_now reg w)) [0..<len] \<and> prng_state w' = (xorshift64 ^^ ((len + 7) div 8)) (prng_now reg w) \<or>
      0 < device_count (random_state w) \<and> len \<le> 64 \<and> prng_state w' = prng_now reg w \<and>
      (\<exists>w0. env w0 = env w \<and> fst (fst (run_state (virtio_rng_read a b
         (Some (rng_contexts (random_state w) ! next_device_index (random_state w))) True len) (w0 :: ('e, 'z) rand_world_scheme))) = Some bs))) w"
proof -
  let ?st = "random_state w"
  define w1 where "w1 = w\<lparr>prng_state := prng_now reg w, random_state := ?st\<lparr>rnd_initialized := True\<rparr>\<rparr>"
  define w2 where "w2 = w1\<lparr>random_state := (random_state w1)\<lparr>next_device_index := (next_device_index ?st + 1) mod device_count ?st\<rparr>\<rparr>"
  have nz: "prng_now reg w \<noteq> 0"
    using wf prng_init_nonzero by (simp add: prng_now_def random_wf_def Let_def)
  have ready: "st\<lparr>rnd_initialized := True\<rparr> = st" if "rnd_initialized st" for st :: random_service
    using that by (cases st) simp
  have step: "wp (random_get_bytes a b reg True len) Q w =
      (if device_count ?st > 0 then wp (hardware_read_bytes a b (Some (next_device_index ?st)) len) Q w2
       else wp (do { bs \<leftarrow> prng_fill len; State_Monad.return (int_of_size len, bs) }) Q w1)" for Q
    using len by (auto simp: random_get_bytes_def wp_simps w1_def w2_def prng_now_def ready)
  show ?thesis
  proof (cases "device_count ?st > 0")
    case True
    have w2: "env w2 = env w" "prng_state w2 = prng_now reg w"
      "random_state w2 = ?st\<lparr>rnd_initialized := True, next_device_index := (next_device_index ?st + 1) mod device_count ?st\<rparr>"
      by (simp_all add: w2_def w1_def)
    have "wp (hardware_read_bytes a b (Some (next_device_index ?st)) len) (\<lambda>(r, bs) w'. r = int len \<and> length bs = len \<and>
        random_wf w' \<and> rnd_initialized (random_state w') \<and> device_count (random_state w') = device_count ?st \<and>
        (bs = map (prng_byte (prng_now reg w)) [0..<len] \<and> prng_state w' = (xorshift64 ^^ ((len + 7) div 8)) (prng_now reg w) \<or>
         len \<le> 64 \<and> prng_state w' = prng_now reg w \<and>
         fst (fst (run_state (virtio_rng_read a b (Some (rng_contexts ?st ! next_device_index ?st)) True len) w2)) = Some bs)) w2"
      using wf nz True by (intro wp_mono [OF hardware_read_any [OF len]])
        (auto simp: w2 random_wf_def Let_def xorshift64_funpow_nonzero max_def)
    then show ?thesis
      unfolding step using True w2(1) by (auto elim!: wp_mono)
  next
    case False
    then show ?thesis
      unfolding step using wf nz len
      by (auto simp: wp_simps wp_prng_fill w1_def random_wf_def Let_def xorshift64_funpow_nonzero int_of_size)
  qed
qed

section \<open>Acquiring a device\<close>

text \<open>What the search for a device keeps, and what the hook establishes on the device it accepts.\<close>

lemma acquire_spec_inv:
  assumes "acquire_spec drv ctx serves taken full ds w = (res, w')" "I w" "drv_init drv = Some init"
    and "\<And>d w. I w \<Longrightarrow> I (snd (init ctx d w))"
    and "\<And>d w. I w \<Longrightarrow> fst (init ctx d w) = 0 \<Longrightarrow> J d (snd (init ctx d w))"
  shows "I w' \<and> (\<forall>d. res = Some d \<longrightarrow> J d w')"
  using assms(1,2)
proof (induction ds arbitrary: w)
  case (Cons d ds)
  show ?case
  proof (cases "serves d \<and> \<not> taken d \<and> \<not> full")
    case True
    then show ?thesis
      using Cons assms(3) assms(4,5) [of w d] by (auto split: prod.splits if_splits)
  next
    case False
    then show ?thesis using Cons.IH [of w] Cons.prems by (auto split: if_splits)
  qed
qed simp

lemma rng_driver_well_behaved: "well_behaved (virtio_rng_driver a b)"
  by (auto simp: well_behaved_def virtio_rng_driver_def terminated_def virtio_rng_id_table_def split: prod.splits)

definition rng_kept :: "registry \<Rightarrow> ('e, 'z) rand_world_scheme \<Rightarrow> ('e, 'z) rand_world_scheme sys \<Rightarrow> bool" where
  "rng_kept reg w s \<longleftrightarrow> fst s = reg \<and> prng_state (snd s) = prng_state w \<and>
     (\<exists>cs. length cs = length (rng_contexts (random_state w)) \<and> random_state (snd s) = (random_state w)\<lparr>rng_contexts := cs\<rparr>)"

definition rng_bound :: "registry \<Rightarrow> nat \<Rightarrow> nat \<Rightarrow> ('e, 'z) rand_world_scheme sys \<Rightarrow> bool" where
  "rng_bound reg ctx d s \<longleftrightarrow> (let c = rng_contexts (random_state (snd s)) ! ctx in
     rng_initialized c \<and> rng_last_used_idx c = 0 \<and> rng_io_base c = reg_base (device_storage reg ! d))"

lemma rng_hook:
  assumes "rng_kept reg w s" "ctx < length (rng_contexts (random_state w))" "drv_init (virtio_rng_driver a b) = Some init"
  shows "rng_kept reg w (snd (init ctx d s))" "fst (init ctx d s) = 0 \<Longrightarrow> rng_bound reg ctx d (snd (init ctx d s))"
proof -
  obtain w1 where s: "s = (reg, w1)" using assms(1) by (cases s) (simp add: rng_kept_def)
  obtain cs where cs: "length cs = length (rng_contexts (random_state w))" "random_state w1 = (random_state w)\<lparr>rng_contexts := cs\<rparr>"
    "prng_state w1 = prng_state w"
    using assms(1) by (auto simp: s rng_kept_def)
  let ?m = "virtio_rng_init_context a b (Some (cs ! ctx)) (Some (device_storage reg ! d))"
  obtain r c' w2 where run: "run_state ?m w1 = ((r, c'), w2)" by (metis prod.exhaust)
  obtain e where w2: "w2 = w1\<lparr>env := e\<rparr>"
    using wpD [OF wp_env_only [OF env_only_virtio_rng(1)] run] by auto
  obtain c1 where c1: "c' = Some c1" "r = 0 \<Longrightarrow> rng_initialized c1 \<and> rng_last_used_idx c1 = 0"
      "rng_io_base c1 = reg_base (device_storage reg ! d)"
    using wpD [OF rng_init_accepts run] by auto
  have def: "init = the (drv_init (virtio_rng_driver a b))" using assms(3) by simp
  have init: "init ctx d s = (r, reg, w2\<lparr>random_state := (random_state w2)\<lparr>rng_contexts := cs[ctx := c1]\<rparr>\<rparr>)"
    using run unfolding def by (simp add: virtio_rng_driver_def s cs(2) c1(1) w2)
  show "rng_kept reg w (snd (init ctx d s))"
    using cs by (auto simp: rng_kept_def init w2 intro!: exI [of _ "cs[ctx := c1]"])
  show "rng_bound reg ctx d (snd (init ctx d s))" if "fst (init ctx d s) = 0"
    using that c1 cs assms(2) by (simp add: rng_bound_def init)
qed

text \<open>
  C33: Acquiring a hardware generator always returns. With result 0 the manager has granted one more entry, whose device
  matches the driver's table and was not held before; the service counts it, remembers the entry, and its context is
  initialised and bound to the registers of that device. With result -1 the manager and the list of devices in use
  are as they were. The registry is never changed and the service stays well-formed.
\<close>

theorem random_hardware_init_acquires:
  fixes w :: "('e, 'z) rand_world_scheme"
  assumes al: "alloc_list rs xs" and inv: "reg_inv reg" and head: "r_devices rs = device_list_head reg" and wf: "random_wf w"
  shows "\<exists>r rs' w'. random_hardware_init a b rs (reg, w) = Some (r, rs', (reg, w')) \<and> random_wf w' \<and>
    (if r = 0 then device_count (random_state w) < 4 \<and> device_count (random_state w') = device_count (random_state w) + 1 \<and>
       (\<exists>d i. rnd_resources (random_state w') ! device_count (random_state w) = Some i \<and> alloc_list rs' (i # xs) \<and>
          resource_get_device (Some i) rs' = Some d \<and> driver_serves reg (virtio_rng_driver a b :: ('e, 'z) rand_world_scheme driver) d \<and>
          \<not> holds_device rs xs d \<and> rng_bound reg (device_count (random_state w)) d (reg, w'))
     else r = -1 \<and> rs' = rs \<and> device_count (random_state w') = device_count (random_state w) \<and>
       rnd_resources (random_state w') = rnd_resources (random_state w))"
proof (cases "device_count (random_state w) \<ge> MAX_HARDWARE_RNG_DEVICES")
  case True
  then show ?thesis
    using wf by (simp add: random_hardware_init_def say_def random_wf_def)
next
  case False
  let ?n = "device_count (random_state w)" and ?drv = "virtio_rng_driver a b :: ('e, 'z) rand_world_scheme driver"
  let ?w = "say ''Initializing hardware RNG...'' (reg, w)"
  have n: "?n < 4" "?n < length (rng_contexts (random_state w))" "?n < length (rnd_resources (random_state w))"
    using False wf by (simp_all add: MAX_HARDWARE_RNG_DEVICES_def random_wf_def Let_def)
  have fst_w: "fst ?w = reg" by (simp add: say_def)
  obtain res s where spec: "acquire_spec ?drv ?n (driver_serves reg ?drv) (holds_device rs xs) (free_slot rs = None)
      [0..<length (device_storage reg)] ?w = (res, s)" by (metis surj_pair)
  have acq: "resource_acquire_available (Some ?drv) (Some ?n) rs ?w = Some (acquired ?drv ?n rs (res, s))"
    using acquire_refines [OF al rng_driver_well_behaved, of ?w] inv head spec by (simp add: fst_w)
  obtain init where ini: "drv_init ?drv = Some init" by (simp add: virtio_rng_driver_def)
  have start: "rng_kept reg w ?w" by (simp add: rng_kept_def say_def) (rule exI [of _ "rng_contexts (random_state w)"], simp)
  have kept: "rng_kept reg w s" and bound: "\<And>d. res = Some d \<Longrightarrow> rng_bound reg ?n d s"
    using acquire_spec_inv [OF spec, of "rng_kept reg w" init "rng_bound reg ?n"] start ini rng_hook [OF _ n(2) ini] by blast+
  obtain w1 where s: "s = (reg, w1)" using kept by (cases s) (simp add: rng_kept_def)
  show ?thesis
  proof (cases res)
    case None
    then show ?thesis
      using False kept wf acq by (auto simp: random_hardware_init_def acquired_def Let_def s say_def rng_kept_def random_wf_def)
  next
    case (Some d)
    have d: "driver_serves reg ?drv d" "\<not> holds_device rs xs d" "free_slot rs \<noteq> None"
      using acquire_spec_sound [OF spec [unfolded Some]] by simp_all
    then obtain i where i: "free_slot rs = Some i" by auto
    have "resource_get_device (Some i) (grant i d ?drv ?n rs) = Some d"
      using free_slotD(3) [OF al i] by (simp add: resource_get_device_def grant_def)
    moreover have "alloc_list (grant i d ?drv ?n rs) (i # xs)"
      by (rule alloc_list_grant [OF al i d(2)])
    moreover define w2 where "w2 = snd (say ''  Hardware RNG acquired (virtio-rng)'' (reg, w1\<lparr>random_state := (random_state w1)\<lparr>
        rnd_resources := (rnd_resources (random_state w1))[?n := Some i], device_count := device_count (random_state w1) + 1\<rparr>\<rparr>))"
    moreover have "random_hardware_init a b rs (reg, w) = Some (0, grant i d ?drv ?n rs, (reg, w2))"
      using False by (simp add: random_hardware_init_def acq acquired_def Some i Let_def s w2_def) (simp add: say_def)
    ultimately show ?thesis
      using kept wf n d bound [OF Some]
      by (intro exI [of _ 0] exI [of _ "grant i d ?drv ?n rs"] exI [of _ w2])
         (auto simp: s say_def rng_kept_def random_wf_def rng_bound_def Let_def)
  qed
qed

section \<open>An instance\<close>

definition sample_rand_world :: "cmem rand_world" where
  "sample_rand_world = \<lparr>env = (\<lambda>_. 0), console = [], logger = log_boot,
     random_state = \<lparr>rng_contexts = replicate 4 sample_rng, rnd_resources = replicate 4 None, device_count = 0,
       next_device_index = 0, rnd_initialized = False\<rparr>, prng_state = 0\<rparr>"

lemma sample_rand_wf: "random_wf sample_rand_world"
  by (simp add: random_wf_def sample_rand_world_def)

theorem prng_sound_witness: "prng_init sample_registry = (let seed = fold prng_mix (take 16 (device_storage sample_registry)) BASE_SEED in
    if seed = 0 then BASE_SEED else seed)"
  using prng_sound [OF sample_registry_inv] by blast

theorem random_get_bytes_delivers_witness:
  "wp (random_get_bytes AMD64 sample_rng_bus sample_registry True 100)
     (\<lambda>(r, bs) w'. r = 100 \<and> bs = map (prng_byte (prng_init sample_registry)) [0..<100]) sample_rand_world"
  by (rule wp_mono [OF random_get_bytes_delivers [OF sample_rand_wf]]) (auto simp: prng_now_def sample_rand_world_def)

theorem random_hardware_init_acquires_witness:
  "\<exists>r rs' w'. random_hardware_init AMD64 sample_rng_bus (resources_set_devices (Some 0) resources_boot) (sample_registry, sample_rand_world) =
     Some (r, rs', (sample_registry, w')) \<and> random_wf w'"
proof -
  have "alloc_list (resources_set_devices (Some 0) resources_boot) []"
    using alloc_list_boot by (simp add: alloc_list_def resources_set_devices_def)
  moreover have "device_list_head sample_registry = Some 0"
    by (simp add: sample_registry_def)
  ultimately show ?thesis
    using random_hardware_init_acquires [OF _ sample_registry_inv _ sample_rand_wf, of "resources_set_devices (Some 0) resources_boot" "[]"
      AMD64 sample_rng_bus]
    by (fastforce simp: resources_set_devices_def)
qed

end
