(* ===== verification/Init_Apps.thy ===== *)
theory Init_Apps
  imports Random_Service
begin

text \<open>
  Application start, \<^verbatim>\<open>kernel/init_apps.c\<close>: the \<^verbatim>\<open>app=\<close> parameters of the kernel command line name the
  applications to run, in order. A pointer into the line is the rest of the line, as in \<open>C_String\<close>. The two random
  applications are code of this file and modelled here; the others are a parameter, a function that runs one of them
  on the state of the system and does not return when its result is \<open>None\<close>.
\<close>

datatype app =
  App_Illegal_Instruction | App_Random_Software | App_Random_Hardware | App_Mac_Virtio_Net | App_Mac_E1000 |
  App_Mac_Rtl8139 | App_Mac_All | App_Arp_Broadcast | App_Packet_Print | App_Http_Hello

text \<open>The resource manager, the device registry, and the world.\<close>

type_synonym 'w system = "'w res_state \<times> registry \<times> 'w"

section \<open>Parameters\<close>

function find_param_loop :: "string \<Rightarrow> string \<Rightarrow> string option" where
  "find_param_loop param pos =
     (if peek pos = NUL then None
      else let pos = skip_sep pos in
        if strncmp pos param (strlen param) = 0 \<and>
           (let c = peek (drop (strlen param) pos) in c = CHR ''='' \<or> c = NUL \<or> c = CHR '' '' \<or> c = TAB)
        then Some pos
        else find_param_loop param (skip_word pos))"
  by pat_completeness auto
termination
proof (relation "measure (\<lambda>(param, pos). length pos)")
  fix param pos p :: string
  assume ne: "peek pos \<noteq> NUL" and p: "p = skip_sep pos"
  have "length (skip_word p) < length pos"
  proof (cases "is_sep (peek pos)")
    case True
    then have "length p < length pos"
      using p length_skip_sep [of "tl pos"] by (cases pos) (auto simp: le_imp_less_Suc)
    then show ?thesis using length_skip_word [of p] by simp
  next
    case False
    then have "p = pos" using p by (cases pos) auto
    then show ?thesis using skip_word_less [of pos] ne False by simp
  qed
  then show "((param, skip_word p), param, pos) \<in> measure (\<lambda>(param, pos). length pos)" by simp
qed simp

declare find_param_loop.simps [simp del]

definition find_param :: "string option \<Rightarrow> string option \<Rightarrow> string option" where
  "find_param cmdline param = (case (cmdline, param) of (Some s, Some t) \<Rightarrow> find_param_loop t s | _ \<Rightarrow> None)"

definition find_next_param :: "string option \<Rightarrow> string option \<Rightarrow> string option" where
  "find_next_param start param = (case (start, param) of
     (Some s, Some t) \<Rightarrow> find_param (Some (skip_word s)) (Some t) | _ \<Rightarrow> None)"

text \<open>\<^verbatim>\<open>while (*p != '=' && *p != '\0' && *p != ' ' && *p != '\t') p++;\<close>\<close>

fun skip_name :: "string \<Rightarrow> string" where
  "skip_name [] = []"
| "skip_name (c # s) = (if c \<noteq> CHR ''='' \<and> c \<noteq> NUL \<and> \<not> is_sep c then skip_name s else c # s)"

definition param_has_value :: "string option \<Rightarrow> string option \<Rightarrow> bool" where
  "param_has_value param_pos v = (case (param_pos, v) of
     (Some p, Some v) \<Rightarrow>
       (let p = skip_name p in
        if peek p \<noteq> CHR ''='' then False
        else let p = drop 1 p in
          strncmp p v (strlen v) = 0 \<and>
          (let c = peek (drop (strlen v) p) in c = NUL \<or> c = CHR '' '' \<or> c = TAB))
   | _ \<Rightarrow> False)"

section \<open>The applications\<close>

definition hex_bytes :: "u8 list \<Rightarrow> string" where
  "hex_bytes bs = concat (map (\<lambda>v. put_hex8 v @ '' '') bs)"

definition random_report :: "nat option \<Rightarrow> string \<Rightarrow> int \<times> u8 list \<Rightarrow> ('e, 'z) rand_world_scheme \<Rightarrow> ('e, 'z) rand_world_scheme" where
  "random_report tag label res w = (case res of (result, buffer) \<Rightarrow>
     if result > 0 \<and> log_enabled (log_deref (logger w) tag) LOG_INFO
     then w\<lparr>console := console w @ log_prefix (log_deref (logger w) tag) LOG_INFO @ label @
       hex_bytes (take (nat result) buffer) @ [CHR 0x0A]\<rparr>
     else w)"

definition random_software :: "arch \<Rightarrow> 'e bus \<Rightarrow> nat option \<Rightarrow>
  ('e, 'z) rand_world_scheme system \<Rightarrow> ('e, 'z) rand_world_scheme system option" where
  "random_software a b tag s = (case s of (rs, reg, w) \<Rightarrow>
     case run_state (random_get_bytes a b reg True 8) w of
       (res, w) \<Rightarrow> Some (rs, reg, random_report tag ''Random (software): '' res w))"

definition random_hardware :: "arch \<Rightarrow> 'e bus \<Rightarrow> nat option \<Rightarrow>
  ('e, 'z) rand_world_scheme system \<Rightarrow> ('e, 'z) rand_world_scheme system option" where
  "random_hardware a b tag s = (case s of (rs, reg, w) \<Rightarrow> do {
     (hw_result, rs, reg, w) \<leftarrow> random_hardware_init a b rs (reg, w);
     (case run_state (random_get_bytes a b reg True 8) w of
        (res, w) \<Rightarrow> Some (rs, reg, random_report tag
          (if hw_result = 0 then ''Random (hardware): '' else ''Random (software): '') res w)) })"

section \<open>The loop\<close>

text \<open>
  The body of the loop over the parameters is the sequence of tests of the source; \<open>run\<close> runs an application.
\<close>

definition if_app :: "string \<Rightarrow> string \<Rightarrow> ('s \<Rightarrow> 's option) \<Rightarrow> 's \<Rightarrow> 's option" where
  "if_app pos v f s = (if param_has_value (Some pos) (Some v) then f s else Some s)"

definition app_step :: "arch \<Rightarrow> 'e bus \<Rightarrow> (app \<Rightarrow> ('e, 'z) rand_world_scheme system \<Rightarrow> ('e, 'z) rand_world_scheme system option) \<Rightarrow>
  nat option \<Rightarrow> string \<Rightarrow> ('e, 'z) rand_world_scheme system \<Rightarrow> ('e, 'z) rand_world_scheme system option" where
  "app_step a b run tag pos s = do {
     s \<leftarrow> if_app pos ''illegal-instruction'' (run App_Illegal_Instruction) s;
     s \<leftarrow> if_app pos ''random-software'' (random_software a b tag) s;
     s \<leftarrow> if_app pos ''random-hardware'' (random_hardware a b tag) s;
     s \<leftarrow> if_app pos ''mac-virtio-net'' (run App_Mac_Virtio_Net) s;
     s \<leftarrow> if_app pos ''mac-e1000'' (run App_Mac_E1000) s;
     s \<leftarrow> if_app pos ''mac-rtl8139'' (run App_Mac_Rtl8139) s;
     s \<leftarrow> if_app pos ''mac-all'' (run App_Mac_All) s;
     s \<leftarrow> if_app pos ''arp-broadcast'' (run App_Arp_Broadcast) s;
     s \<leftarrow> if_app pos ''packet-print'' (run App_Packet_Print) s;
     if_app pos ''http-hello'' (run App_Http_Hello) s }"

partial_function (option) app_loop :: "(string \<Rightarrow> 's \<Rightarrow> 's option) \<Rightarrow> string option \<Rightarrow> 's \<Rightarrow> 's option" where
  "app_loop step app_param s = (case app_param of
     None \<Rightarrow> Some s
   | Some pos \<Rightarrow> do {
       s \<leftarrow> step pos s;
       app_loop step (find_next_param (Some pos) (Some ''app'')) s })"

definition init_apps :: "arch \<Rightarrow> 'e bus \<Rightarrow> (app \<Rightarrow> ('e, 'z) rand_world_scheme system \<Rightarrow> ('e, 'z) rand_world_scheme system option) \<Rightarrow>
  string option \<Rightarrow> ('e, 'z) rand_world_scheme system \<Rightarrow> ('e, 'z) rand_world_scheme system option" where
  "init_apps a b run cmdline s = (case s of (rs, reg, w) \<Rightarrow>
     case log_register (logger w) ''init'' LOG_INFO of (tag, lg) \<Rightarrow>
       let s = (rs, reg, w\<lparr>logger := lg\<rparr>) in
       case cmdline of None \<Rightarrow> Some s
       | Some line \<Rightarrow> app_loop (app_step a b run tag) (find_param (Some line) (Some ''app'')) s)"

section \<open>What a parameter is\<close>

lemma sep_iff: "(c = NUL \<or> c = CHR '' '' \<or> c = TAB) \<longleftrightarrow> (c = NUL \<or> is_sep c)"
  by (auto simp: is_sep_def)

definition param_word :: "string \<Rightarrow> string \<Rightarrow> bool" where
  "param_word t w \<longleftrightarrow> take (length t) w = t \<and> (length w = length t \<or> w ! length t = CHR ''='')"

definition plain :: "string \<Rightarrow> bool" where
  "plain t \<longleftrightarrow> (\<forall>c \<in> set t. c \<noteq> NUL \<and> \<not> is_sep c)"

lemma strlen_plain: "plain t \<Longrightarrow> strlen t = length t"
  by (auto simp: strlen_cstr plain_def intro!: arg_cong [where f = length] cstr_id)

lemma param_test:
  assumes t: "plain t"
  shows "strncmp pos t (strlen t) = 0 \<and>
      (let c = peek (drop (strlen t) pos) in c = CHR ''='' \<or> c = NUL \<or> c = CHR '' '' \<or> c = TAB) \<longleftrightarrow> param_word t (word_at pos)"
proof -
  have eq: "strncmp pos t (length t) = 0 \<longleftrightarrow> take (length t) (word_at pos) = t"
    using t by (intro strncmp_word) (auto simp: plain_def)
  have "(let c = peek (drop (length t) pos) in c = CHR ''='' \<or> c = NUL \<or> c = CHR '' '' \<or> c = TAB) \<longleftrightarrow>
      length (word_at pos) = length t \<or> word_at pos ! length t = CHR ''=''" if "take (length t) (word_at pos) = t"
  proof -
    have le: "length t \<le> length (word_at pos)" using that by (metis length_take min.cobounded2 min.commute)
    have "peek (drop (length t) pos) = word_at pos ! length t" if "length t < length (word_at pos)"
      using that peek_nth [of "length t" pos] nth_word_at [OF that] length_word_at [of pos] by simp
    then show ?thesis
      using peek_drop_word [OF le] le unfolding Let_def sep_iff
      by (cases "length t < length (word_at pos)") (auto simp: is_sep_def)
  qed
  then show ?thesis using eq strlen_plain [OF t] by (auto simp: param_word_def)
qed

text \<open>
  The search stops at the first word that is the parameter, with or without a value; the words after the pointer
  returned are the words after that one.
\<close>

lemma find_param_words:
  assumes t: "plain t" "t \<noteq> []"
  shows "case find_param_loop t s of
     None \<Rightarrow> \<forall>w \<in> set (words s). \<not> param_word t w
   | Some p \<Rightarrow> (\<exists>us. words s = us @ word_at p # words (skip_word p) \<and> (\<forall>w \<in> set us. \<not> param_word t w)) \<and>
       param_word t (word_at p) \<and> length (skip_word p) < length s"
  using assms
proof (induction t s rule: find_param_loop.induct)
  case (1 t s)
  let ?p = "skip_sep s"
  show ?case
  proof (cases "peek s = NUL \<or> peek ?p = NUL")
    case True
    then have p: "peek ?p = NUL" by (cases s) auto
    then have w: "words s = []" by (simp add: words.simps [of s] Let_def)
    have "\<not> param_word t (word_at ?p)"
      using p 1(3) word_at_Nil_iff [of ?p] by (auto simp: param_word_def)
    moreover have "skip_word ?p = ?p" using p by (cases ?p) auto
    ultimately have "find_param_loop t s = None"
      using p param_test [OF 1(2), of ?p]
      by (subst find_param_loop.simps, subst find_param_loop.simps) (auto simp: Let_def)
    then show ?thesis using w by simp
  next
    case False
    then have w: "words s = word_at ?p # words (skip_word ?p)" by (simp add: words.simps [of s] Let_def)
    have less: "length (skip_word ?p) < length s"
      using False skip_word_less [of ?p] skip_sep_head [of s] length_skip_sep [of s] by simp
    have step: "find_param_loop t s = (if param_word t (word_at ?p) then Some ?p else find_param_loop t (skip_word ?p))"
      using False param_test [OF 1(2), of ?p] by (subst find_param_loop.simps) (simp add: Let_def)
    show ?thesis
    proof (cases "param_word t (word_at ?p)")
      case True
      then show ?thesis using less by (simp add: step w)
    next
      case no: False
      have ih: "case find_param_loop t (skip_word ?p) of
          None \<Rightarrow> \<forall>w \<in> set (words (skip_word ?p)). \<not> param_word t w
        | Some p \<Rightarrow> (\<exists>us. words (skip_word ?p) = us @ word_at p # words (skip_word p) \<and> (\<forall>w \<in> set us. \<not> param_word t w)) \<and>
            param_word t (word_at p) \<and> length (skip_word p) < length (skip_word ?p)"
        using False no param_test [OF 1(2), of ?p] 1(2,3) by (intro 1(1) [OF _ refl]) auto
      show ?thesis
      proof (cases "find_param_loop t (skip_word ?p)")
        case None
        then show ?thesis using ih no by (simp add: step w)
      next
        case (Some p)
        then obtain us where us: "words (skip_word ?p) = us @ word_at p # words (skip_word p)" "\<forall>w \<in> set us. \<not> param_word t w"
            "param_word t (word_at p)" "length (skip_word p) < length (skip_word ?p)"
          using ih by auto
        then have "\<exists>us. words s = us @ word_at p # words (skip_word p) \<and> (\<forall>w \<in> set us. \<not> param_word t w)"
          using no by (intro exI [of _ "word_at ?p # us"]) (simp add: w)
        then show ?thesis using us(3,4) less no Some by (simp add: step)
      qed
    qed
  qed
qed

lemma word_at_skip_name: "word_at (skip_name p) = dropWhile (\<lambda>c. c \<noteq> CHR ''='') (word_at p)"
  by (induction p rule: skip_name.induct) (auto simp: word_at_def)

lemma skip_name_head: "peek (skip_name p) = CHR ''='' \<or> word_at (skip_name p) = []"
  by (induction p rule: skip_name.induct) (auto simp: word_at_def)

lemma param_has_value_word:
  assumes v: "plain v"
  shows "param_has_value (Some p) (Some v) \<longleftrightarrow> dropWhile (\<lambda>c. c \<noteq> CHR ''='') (word_at p) = CHR ''='' # v"
proof (cases "peek (skip_name p) = CHR ''=''")
  case True
  let ?q = "drop 1 (skip_name p)"
  have w: "word_at (skip_name p) = CHR ''='' # word_at ?q"
    using True by (cases "skip_name p") (auto simp: word_at_def is_sep_def)
  have eq: "strncmp ?q v (length v) = 0 \<longleftrightarrow> take (length v) (word_at ?q) = v"
    using v by (intro strncmp_word) (auto simp: plain_def)
  have "peek (drop (length v) ?q) = NUL \<or> is_sep (peek (drop (length v) ?q)) \<longleftrightarrow> length v = length (word_at ?q)"
    if "take (length v) (word_at ?q) = v"
    using that by (intro peek_drop_word) (metis length_take min.cobounded2 min.commute)
  then have "take (length v) (word_at ?q) = v \<and> (peek (drop (length v) ?q) = NUL \<or> is_sep (peek (drop (length v) ?q))) \<longleftrightarrow>
      word_at ?q = v"
    by (metis take_all order_refl)
  moreover have "param_has_value (Some p) (Some v) \<longleftrightarrow> strncmp ?q v (length v) = 0 \<and>
      (peek (drop (length v) ?q) = NUL \<or> is_sep (peek (drop (length v) ?q)))"
    using True by (simp only: param_has_value_def prod.case option.case Let_def sep_iff strlen_plain [OF v] simp_thms if_False)
  ultimately have "param_has_value (Some p) (Some v) \<longleftrightarrow> word_at ?q = v"
    using eq by blast
  then show ?thesis using w by (simp flip: word_at_skip_name)
next
  case False
  then have "dropWhile (\<lambda>c. c \<noteq> CHR ''='') (word_at p) = []" using skip_name_head [of p] word_at_skip_name [of p] by simp
  then show ?thesis using False unfolding param_has_value_def by (simp only: prod.case option.case Let_def) simp
qed

section \<open>The applications of a command line\<close>

definition app_table :: "(string \<times> app) list" where
  "app_table = [(''illegal-instruction'', App_Illegal_Instruction), (''random-software'', App_Random_Software),
     (''random-hardware'', App_Random_Hardware), (''mac-virtio-net'', App_Mac_Virtio_Net), (''mac-e1000'', App_Mac_E1000),
     (''mac-rtl8139'', App_Mac_Rtl8139), (''mac-all'', App_Mac_All), (''arp-broadcast'', App_Arp_Broadcast),
     (''packet-print'', App_Packet_Print), (''http-hello'', App_Http_Hello)]"

definition app_of_word :: "string \<Rightarrow> app option" where
  "app_of_word w = (if take 4 w = ''app='' then map_of app_table (drop 4 w) else None)"

definition run_of :: "arch \<Rightarrow> 'e bus \<Rightarrow> (app \<Rightarrow> ('e, 'z) rand_world_scheme system \<Rightarrow> ('e, 'z) rand_world_scheme system option) \<Rightarrow>
  nat option \<Rightarrow> app \<Rightarrow> ('e, 'z) rand_world_scheme system \<Rightarrow> ('e, 'z) rand_world_scheme system option" where
  "run_of a b run tag x = (case x of
     App_Random_Software \<Rightarrow> random_software a b tag | App_Random_Hardware \<Rightarrow> random_hardware a b tag | _ \<Rightarrow> run x)"

fun run_all :: "('x \<Rightarrow> 's \<Rightarrow> 's option) \<Rightarrow> 'x list \<Rightarrow> 's \<Rightarrow> 's option" where
  "run_all f [] s = Some s"
| "run_all f (x # xs) s = Option.bind (f x s) (run_all f xs)"

lemma app_value:
  assumes "param_word ''app'' w"
  shows "dropWhile (\<lambda>c. c \<noteq> CHR ''='') w = CHR ''='' # v \<longleftrightarrow> take 4 w = ''app='' \<and> drop 4 w = v"
proof -
  obtain r where w: "w = ''app'' @ r" using assms by (metis append_take_drop_id param_word_def)
  then have "r = [] \<or> hd r = CHR ''=''"
    using assms by (cases r) (auto simp: param_word_def)
  then show ?thesis using w by (cases r) auto
qed

lemma plain_names: "v \<in> fst ` set app_table \<Longrightarrow> plain v"
  by (auto simp: app_table_def plain_def is_sep_def)

lemma app_step_word:
  assumes "param_word ''app'' (word_at pos)"
  shows "app_step a b run tag pos s = (case app_of_word (word_at pos) of None \<Rightarrow> Some s | Some x \<Rightarrow> run_of a b run tag x s)"
proof -
  have c: "param_has_value (Some pos) (Some v) \<longleftrightarrow> take 4 (word_at pos) = ''app='' \<and> drop 4 (word_at pos) = v"
    if "v \<in> fst ` set app_table" for v
    using param_has_value_word [OF plain_names [OF that]] app_value [OF assms] by simp
  have step: "app_step a b run tag pos s = do {
     s \<leftarrow> (if take 4 (word_at pos) = ''app='' \<and> drop 4 (word_at pos) = ''illegal-instruction'' then run App_Illegal_Instruction s else Some s);
     s \<leftarrow> (if take 4 (word_at pos) = ''app='' \<and> drop 4 (word_at pos) = ''random-software'' then random_software a b tag s else Some s);
     s \<leftarrow> (if take 4 (word_at pos) = ''app='' \<and> drop 4 (word_at pos) = ''random-hardware'' then random_hardware a b tag s else Some s);
     s \<leftarrow> (if take 4 (word_at pos) = ''app='' \<and> drop 4 (word_at pos) = ''mac-virtio-net'' then run App_Mac_Virtio_Net s else Some s);
     s \<leftarrow> (if take 4 (word_at pos) = ''app='' \<and> drop 4 (word_at pos) = ''mac-e1000'' then run App_Mac_E1000 s else Some s);
     s \<leftarrow> (if take 4 (word_at pos) = ''app='' \<and> drop 4 (word_at pos) = ''mac-rtl8139'' then run App_Mac_Rtl8139 s else Some s);
     s \<leftarrow> (if take 4 (word_at pos) = ''app='' \<and> drop 4 (word_at pos) = ''mac-all'' then run App_Mac_All s else Some s);
     s \<leftarrow> (if take 4 (word_at pos) = ''app='' \<and> drop 4 (word_at pos) = ''arp-broadcast'' then run App_Arp_Broadcast s else Some s);
     s \<leftarrow> (if take 4 (word_at pos) = ''app='' \<and> drop 4 (word_at pos) = ''packet-print'' then run App_Packet_Print s else Some s);
     (if take 4 (word_at pos) = ''app='' \<and> drop 4 (word_at pos) = ''http-hello'' then run App_Http_Hello s else Some s) }"
    unfolding app_step_def if_app_def by (simp add: c app_table_def)
  show ?thesis
  proof (cases "app_of_word (word_at pos)")
    case None
    then show ?thesis unfolding step by (auto simp: app_of_word_def app_table_def split: if_splits)
  next
    case (Some x)
    then have "take 4 (word_at pos) = ''app=''" "(drop 4 (word_at pos), x) \<in> set app_table"
      by (auto simp: app_of_word_def dest: map_of_SomeD split: if_splits)
    then show ?thesis unfolding step Some by (auto simp: app_table_def run_of_def)
  qed
qed

lemma app_loop_words:
  assumes "\<And>pos s. param_word ''app'' (word_at pos) \<Longrightarrow>
    step pos s = (case app_of_word (word_at pos) of None \<Rightarrow> Some s | Some x \<Rightarrow> f x s)"
  shows "app_loop step (find_param_loop ''app'' line) s = run_all f (List.map_filter app_of_word (words line)) s"
proof (induction "length line" arbitrary: line s rule: less_induct)
  case less
  have app: "plain ''app''" "''app'' \<noteq> []" by (auto simp: plain_def is_sep_def)
  have no: "app_of_word w = None" if "\<not> param_word ''app'' w" for w
  proof -
    have "take 4 w \<noteq> ''app=''"
    proof
      assume w: "take 4 w = ''app=''"
      then have "take 3 (take 4 w) = ''app''" "take 4 w ! 3 = CHR ''=''" by simp_all
      then show False using that by (simp add: param_word_def numeral_3_eq_3)
    qed
    then show ?thesis by (simp add: app_of_word_def)
  qed
  have none: "List.map_filter app_of_word us = []" if "\<forall>w \<in> set us. \<not> param_word ''app'' w" for us
    using that no by (induction us) (simp_all add: map_filter_simps)
  show ?case
  proof (cases "find_param_loop ''app'' line")
    case None
    then have "\<forall>w \<in> set (words line). \<not> param_word ''app'' w" using find_param_words [OF app, of line] by simp
    then show ?thesis using None by (simp add: app_loop.simps none)
  next
    case (Some p)
    then obtain us where us: "words line = us @ word_at p # words (skip_word p)" "\<forall>w \<in> set us. \<not> param_word ''app'' w"
        "param_word ''app'' (word_at p)" "length (skip_word p) < length line"
      using find_param_words [OF app, of line] by auto
    have filt: "List.map_filter app_of_word (words line) =
        (case app_of_word (word_at p) of None \<Rightarrow> [] | Some x \<Rightarrow> [x]) @ List.map_filter app_of_word (words (skip_word p))"
      using none [OF us(2)] by (simp add: us(1) map_filter_def split: option.splits)
    have ih: "app_loop step (find_param_loop ''app'' (skip_word p)) = run_all f (List.map_filter app_of_word (words (skip_word p)))"
      by (rule ext) (rule less [OF us(4)])
    show ?thesis
      using assms [OF us(3)]
      by (subst app_loop.simps)
         (simp add: Some filt ih find_next_param_def find_param_def split: option.splits)
  qed
qed

lemma init_apps_words:
  "init_apps a b run cmdline (rs, reg, w) = (case log_register (logger w) ''init'' LOG_INFO of (tag, lg) \<Rightarrow>
     run_all (run_of a b run tag) (case cmdline of None \<Rightarrow> [] | Some line \<Rightarrow> List.map_filter app_of_word (words line))
       (rs, reg, w\<lparr>logger := lg\<rparr>))"
proof -
  have "app_loop (app_step a b run tag) (find_param_loop ''app'' line) s =
      run_all (run_of a b run tag) (List.map_filter app_of_word (words line)) s" for tag line s
    by (rule app_loop_words) (rule app_step_word)
  then show ?thesis
    by (cases cmdline) (simp_all add: init_apps_def find_param_def split: prod.splits)
qed

text \<open>
  C36: The kernel starts exactly the applications its command line asks for: one for every word \<^verbatim>\<open>app=NAME\<close> with a
  known name, in the order of the words, each on the state the one before it has left; an application that does not
  return ends the sequence. Words that only begin or end like a parameter, unknown names and a missing line start
  nothing.
\<close>

theorem init_apps_runs:
  "init_apps a b run cmdline (rs, reg, w) = (case log_register (logger w) ''init'' LOG_INFO of (tag, lg) \<Rightarrow>
     run_all (run_of a b run tag) (case cmdline of None \<Rightarrow> [] | Some line \<Rightarrow> List.map_filter app_of_word (words line))
       (rs, reg, w\<lparr>logger := lg\<rparr>))"
  by (rule init_apps_words)

end
