(* ===== verification/Kernel.thy ===== *)
theory Kernel
  imports Init_Apps
begin










section \<open>Booting\<close>





end
