(* ===== verification/Spec2Isabelle.thy ===== *)
theory Spec2Isabelle
  imports Logging Ethernet Resources Fdt Http_Hello Virtio_Mmio Pci_Riscv Pci_Arm64 Pci_Amd64 E1000 Rtl8139 Virtio_Net Kernel
begin

text \<open>
  \<^bold>\<open>A verification development for YasouOS\<close>, a small kernel for RISC-V, ARM64 and AMD64 written in C. The kernel boots,
  scans its devices, and runs the applications its command line names; the applications drive network cards and
  entropy devices, print packets, and serve a page over HTTP. The theories follow the source, one per component.

  \<^bold>\<open>How the program is modelled.\<close> Pure code is a function; code that may read or write outside its buffer returns an
  option, with \<open>None\<close> for the access outside; a loop that may not end is \<open>partial_function (option)\<close> and \<open>None\<close> there is
  a loop that runs forever. Machine integers are words of their width. A pointer into static tables is an optional
  index, a C string the list of its characters, a packet buffer a list of bytes. Driver code is a computation in the
  state monad over a \<open>world\<close> (\<open>Hw_Bus\<close>): the console, the logger, static variables, and the environment, which only the
  accesses to registers, ports and shared memory change. What an access does is a parameter, the record \<open>bus\<close>: a theorem
  without a hypothesis on it holds for any hardware. Postconditions are stated with \<open>wp\<close>, which also says that the code
  returns. Memory barriers have no effect in the model: accesses happen in program order.

  \<^bold>\<open>Foundations.\<close>
  \<^item> \<open>Prelude\<close>, \<open>Loops\<close>, \<open>Linked_List\<close>: lemmas on words and lists, loops with early exits, lists threaded through arrays.
  \<^item> \<open>C_Memory\<close>, \<open>C_String\<close> (\<^verbatim>\<open>common/common.c\<close>): byte buffers with checked access, strings, console output.
  \<^item> \<open>Byteorder\<close> (\<^verbatim>\<open>common/byteorder.h\<close>, \<^verbatim>\<open>byteorder.c\<close>): the conversions of the three targets are one function, and the
    unaligned accessors round-trip.
  \<^item> \<open>Cmdline_Words\<close>, \<open>Logging\<close> (\<^verbatim>\<open>common/log.c\<close>): scanning the command line is a fold over its words (locale
    \<open>word_scanner\<close>); the level of a tag is the one the words of the line ask for, and the tables stay in bounds.
  \<^item> \<open>Hw_Bus\<close>, \<open>Dma_Memory\<close>: hardware access (\<^verbatim>\<open>common/common.h\<close>), rules for \<open>wp\<close>, code that changes the environment only
    (\<open>env_only\<close>), and the contracts of memory shared with a device (locales \<open>dma_view\<close>, \<open>dma_memory\<close>).

  \<^bold>\<open>Kernel.\<close>
  \<^item> \<open>Devices\<close> (\<^verbatim>\<open>kernel/devices/devices.c\<close>): the registry after a scan is the list of the first 128 devices reported, with
    the tree over them, and printing it ends.
  \<^item> \<open>Resources\<close> (\<^verbatim>\<open>kernel/resources/resources.c\<close>, \<^verbatim>\<open>common/drivers.h\<close>): acquisition refines a search specification; no
    device is held twice in any reachable state (\<open>rm_reach\<close>, an inductive relation).
  \<^item> \<open>Fdt\<close> (\<^verbatim>\<open>kernel/platform/fdt_parser.c\<close>): the parsers return on arbitrary bytes and, on a blob that encodes a tree,
    report what the tree says.
  \<^item> \<open>Virtio_Mmio\<close>, \<open>Pci_Config\<close>, \<open>Pci_Riscv\<close>, \<open>Pci_Arm64\<close>, \<open>Pci_Amd64\<close> (\<^verbatim>\<open>kernel/devices/virtio_mmio.*\<close>,
    \<^verbatim>\<open>devices_*.c\<close>): discovery reports exactly the functions present, on hardware that meets the PCI contract; the address
    allocators place what they place in aligned regions that do not overlap, except on ARM64, where they may overlap.
  \<^item> \<open>Init_Apps\<close> (\<^verbatim>\<open>kernel/init_apps.c\<close>), \<open>Kernel\<close> (\<^verbatim>\<open>kernel/kernel.c\<close>): the boot sequence reaches the applications with a
    consistent registry and an empty resource manager, runs exactly those the command line names, and halts if they return.

  \<^bold>\<open>Drivers.\<close>
  \<^item> \<open>E1000\<close>, \<open>Rtl8139\<close>, \<open>Virtio_Rng\<close> (\<^verbatim>\<open>drivers/*\<close>): when the device is told of a descriptor or a packet, the memory it
    will read is complete and nothing else of the driver's has changed; what the device delivers is what the caller
    gets, within the caller's buffer, whatever the device reports.

  \<^bold>\<open>Applications.\<close>
  \<^item> \<open>Net_Utils\<close>, \<open>Net_Checksum\<close>, \<open>Arp\<close>, \<open>Icmp\<close>, \<open>Udp\<close>, \<open>Tcp\<close>, \<open>Ipv4\<close>, \<open>Ethernet\<close> (\<^verbatim>\<open>apps/network\<close>): the builders round-trip,
    checksums verify and detect changes, printing stays inside the frame under the conditions stated.
  \<^item> \<open>Http_Hello\<close> (\<^verbatim>\<open>apps/http-hello\<close>): every received frame gets exactly the replies of the specification.
  \<^item> \<open>Random_Service\<close> (\<^verbatim>\<open>apps/random\<close>): requests never fail; the generator is one-to-one and never stuck.

  \<^bold>\<open>Bounds and loops.\<close> No fuel is used. The poll of the entropy driver counts down from 100000 as in the source; the wait
  for the reset of the RTL8139 is a \<open>partial_function\<close> and the theory says when it returns; walks along linked lists are
  \<open>partial_function\<close>s and return because the invariants make the lists finite; every other loop is a \<open>fun\<close> or a
  \<open>function\<close> with a measure.

  \<^bold>\<open>Not modelled.\<close> The assembly entry code and linker scripts; \<^verbatim>\<open>platform_init\<close>, \<^verbatim>\<open>platform_putchar\<close>, \<^verbatim>\<open>platform_halt\<close> and
  the trap handlers of \<^verbatim>\<open>kernel/platform/*/platform.c\<close>, which are inline assembly and system registers (\<open>Kernel\<close> takes
  them as a parameter); \<^verbatim>\<open>drivers/virtio_blk\<close>, a stub; \<^verbatim>\<open>apps/illegal-instruction\<close>, one instruction; the tests and build files.
\<close>

end
